(* ===== verification/Prelude.thy ===== *)
theory Prelude
  imports Main "HOL-Library.Word"
begin

section \<open>Shared vocabulary of the development\<close>

text \<open>
  What every component uses: the collections of rewrite rules, Go's maps, Go's clock
  values and the wrap-around of Go's 64-bit integers.

  A Go map is an association list whose keys are distinct (\<open>map_ok\<close>).  Iteration over a
  Go map has no fixed order; where the result of a loop depends on that order the loop
  takes the enumeration as an argument and the theorems hold for every enumeration.

  An instant (\<open>time.Time\<close>) is its number of nanoseconds on one time line and a
  \<open>time.Duration\<close> is a number of nanoseconds; \<open>Time.Sub\<close> saturates at the bounds of an
  \<open>int64\<close> as Go's does, and products of durations wrap.
\<close>

named_theorems go_string_simps \<open>rewriting Go's string operations\<close>
named_theorems go_map_simps \<open>rewriting operations on Go maps\<close>
named_theorems go_time_simps \<open>unfolding clock arithmetic\<close>

subsection \<open>Maps\<close>

type_synonym ('k, 'v) go_map = "('k \<times> 'v) list"

definition map_ok :: "('k, 'v) go_map \<Rightarrow> bool" where
  "map_ok m \<longleftrightarrow> distinct (map fst m)"

definition map_get :: "('k, 'v) go_map \<Rightarrow> 'k \<Rightarrow> 'v option" where
  "map_get m k = map_of m k"

definition map_del :: "'k \<Rightarrow> ('k, 'v) go_map \<Rightarrow> ('k, 'v) go_map" where
  "map_del k m = filter (\<lambda>p. fst p \<noteq> k) m"

definition map_put :: "'k \<Rightarrow> 'v \<Rightarrow> ('k, 'v) go_map \<Rightarrow> ('k, 'v) go_map" where
  "map_put k v m = (k, v) # map_del k m"

definition map_keep :: "('k \<Rightarrow> 'v \<Rightarrow> bool) \<Rightarrow> ('k, 'v) go_map \<Rightarrow> ('k, 'v) go_map" where
  "map_keep P m = filter (\<lambda>(k, v). P k v) m"

lemma map_ok_Nil [simp]: "map_ok []"
  by (simp add: map_ok_def)

lemma map_get_Nil [simp]: "map_get [] k = None"
  by (simp add: map_get_def)

lemma keys_map_del: "fst ` set (map_del k m) = fst ` set m - {k}"
  by (auto simp: map_del_def)

lemma map_ok_filter: "map_ok m \<Longrightarrow> map_ok (filter P m)"
  unfolding map_ok_def by (induction m) auto

lemma map_ok_del [simp, intro]: "map_ok m \<Longrightarrow> map_ok (map_del k m)"
  by (simp add: map_del_def map_ok_filter)

lemma map_ok_keep [simp, intro]: "map_ok m \<Longrightarrow> map_ok (map_keep P m)"
  by (simp add: map_keep_def map_ok_filter)

lemma map_ok_put [simp, intro]: "map_ok m \<Longrightarrow> map_ok (map_put k v m)"
  using map_ok_del [of m k] keys_map_del [of k m]
  by (auto simp: map_put_def map_ok_def)

lemma map_get_del [go_map_simps]:
  "map_get (map_del k m) k' = (if k' = k then None else map_get m k')"
  unfolding map_get_def map_del_def by (induction m) auto

lemma map_get_put [go_map_simps]:
  "map_get (map_put k v m) k' = (if k' = k then Some v else map_get m k')"
  using map_get_del [of k m k'] by (simp add: map_put_def map_get_def)

lemma map_get_None_iff: "map_get m k = None \<longleftrightarrow> k \<notin> fst ` set m"
  by (simp add: map_get_def map_of_eq_None_iff)

lemma map_get_Some_iff: "map_ok m \<Longrightarrow> map_get m k = Some v \<longleftrightarrow> (k, v) \<in> set m"
  by (simp add: map_get_def map_ok_def)

lemma map_get_keep [go_map_simps]:
  "map_ok m \<Longrightarrow> map_get (map_keep P m) k =
     (case map_get m k of None \<Rightarrow> None | Some v \<Rightarrow> if P k v then Some v else None)"
  unfolding map_get_def map_keep_def map_ok_def
  by (induction m) (auto split: option.splits simp: map_of_eq_None_iff image_iff)

lemma set_map_keep: "set (map_keep P m) = {(k, v) \<in> set m. P k v}"
  by (auto simp: map_keep_def)

lemma length_map_del_le: "length (map_del k m) \<le> length m"
  by (simp add: map_del_def)

lemma length_map_keep_le: "length (map_keep P m) \<le> length m"
  by (simp add: map_keep_def)

lemma map_del_absent: "map_get m k = None \<Longrightarrow> map_del k m = m"
  by (force simp: map_get_None_iff map_del_def filter_id_conv)

lemma length_map_del: "map_ok m \<Longrightarrow> map_get m k \<noteq> None \<Longrightarrow> Suc (length (map_del k m)) = length m"
proof (induction m)
  case Nil
  then show ?case by simp
next
  case (Cons p m)
  show ?case
  proof (cases "fst p = k")
    case True
    with Cons.prems(1) have "map_get m k = None"
      by (auto simp: map_ok_def map_get_None_iff)
    with True show ?thesis by (simp add: map_del_def map_del_absent [unfolded map_del_def])
  next
    case False
    with Cons show ?thesis
      by (cases p) (auto simp: map_ok_def map_del_def map_get_def)
  qed
qed

lemma length_map_put_le: "length (map_put k v m) \<le> Suc (length m)"
  using length_map_del_le [of k m] by (simp add: map_put_def)

lemma length_map_put_old:
  "map_ok m \<Longrightarrow> map_get m k \<noteq> None \<Longrightarrow> length (map_put k v m) = length m"
  using length_map_del [of m k] by (simp add: map_put_def)

text \<open>
  The keys in the order in which a \<open>for range\<close> loop meets them.  Go leaves the order open; a
  rank of the keys, an argument of each operation that loops, chooses it, and every order is
  that of some rank.
\<close>

definition map_range :: "('k \<Rightarrow> nat) \<Rightarrow> ('k, 'v) go_map \<Rightarrow> 'k list" where
  "map_range rank m = sort_key rank (map fst m)"

lemma set_map_range [simp]: "set (map_range rank m) = fst ` set m"
  by (simp add: map_range_def)

text \<open>
  The contract of a finite map, on which the bounded containers rest: what a lookup
  returns after each operation, and what each operation does to the size.
\<close>

locale finite_map =
  fixes lookup :: "'m \<Rightarrow> 'k \<Rightarrow> 'v option"
    and insert_at :: "'k \<Rightarrow> 'v \<Rightarrow> 'm \<Rightarrow> 'm"
    and remove_at :: "'k \<Rightarrow> 'm \<Rightarrow> 'm"
    and card_of :: "'m \<Rightarrow> nat"
    and ok :: "'m \<Rightarrow> bool"
  assumes lookup_insert: "ok m \<Longrightarrow> lookup (insert_at k v m) = (lookup m)(k \<mapsto> v)"
    and lookup_remove: "ok m \<Longrightarrow> lookup (remove_at k m) = (lookup m)(k := None)"
    and ok_insert: "ok m \<Longrightarrow> ok (insert_at k v m)"
    and ok_remove: "ok m \<Longrightarrow> ok (remove_at k m)"
    and card_insert_old:
      "ok m \<Longrightarrow> lookup m k \<noteq> None \<Longrightarrow> card_of (insert_at k v m) = card_of m"
    and card_insert: "ok m \<Longrightarrow> card_of (insert_at k v m) \<le> Suc (card_of m)"
    and card_remove:
      "ok m \<Longrightarrow> lookup m k \<noteq> None \<Longrightarrow> Suc (card_of (remove_at k m)) = card_of m"
begin

text \<open>Inserting keeps a bound when the key is there already or there is room.\<close>

lemma insert_bounded:
  assumes "ok m" and "card_of m \<le> n" and "lookup m k \<noteq> None \<or> card_of m < n"
  shows "card_of (insert_at k v m) \<le> n"
  using assms(3)
proof
  assume "lookup m k \<noteq> None"
  with assms(1,2) show ?thesis by (simp add: card_insert_old)
next
  assume "card_of m < n"
  with card_insert [OF assms(1), of k v] show ?thesis by simp
qed

text \<open>Making room first: removing a present key leaves room for one more.\<close>

lemma remove_insert_bounded:
  assumes "ok m" and "card_of m \<le> n" and "lookup m old \<noteq> None"
  shows "card_of (insert_at k v (remove_at old m)) \<le> n"
  using card_insert [OF ok_remove [OF assms(1)], of k v old] card_remove [OF assms(1,3)] assms(2)
  by simp

lemma lookup_insert_same: "ok m \<Longrightarrow> lookup (insert_at k v m) k = Some v"
  by (simp add: lookup_insert)

lemma lookup_insert_other: "ok m \<Longrightarrow> k' \<noteq> k \<Longrightarrow> lookup (insert_at k v m) k' = lookup m k'"
  by (simp add: lookup_insert)

end

interpretation go_map: finite_map map_get map_put map_del length map_ok
  by unfold_locales
    (auto simp: go_map_simps length_map_put_old length_map_put_le length_map_del)

subsection \<open>Clock values and 64-bit integers\<close>

type_synonym time = int
type_synonym duration = int

definition max_int64 :: int where
  "max_int64 = 2 ^ 63 - 1"

definition min_int64 :: int where
  "min_int64 = - (2 ^ 63)"

text \<open>Two's complement wrap-around of an \<open>int64\<close>.\<close>

definition wrap64 :: "int \<Rightarrow> int" where
  "wrap64 x = (x + 2 ^ 63) mod 2 ^ 64 - 2 ^ 63"

text \<open>\<open>Time.Sub\<close>: the difference, saturated.\<close>

definition time_sub :: "time \<Rightarrow> time \<Rightarrow> duration" where
  "time_sub t u = max min_int64 (min max_int64 (t - u))"

definition millisecond :: duration where "millisecond = 1000000"
definition second :: duration where "second = 1000000000"
definition minute :: duration where "minute = 60000000000"

lemmas [go_time_simps] = millisecond_def second_def minute_def

lemma wrap64_id: "min_int64 \<le> x \<Longrightarrow> x \<le> max_int64 \<Longrightarrow> wrap64 x = x"
  by (simp add: wrap64_def min_int64_def max_int64_def)

lemma time_sub_exact:
  "min_int64 \<le> t - u \<Longrightarrow> t - u \<le> max_int64 \<Longrightarrow> time_sub t u = t - u"
  by (simp add: time_sub_def)

lemma time_sub_gt_iff: "0 \<le> d \<Longrightarrow> d < max_int64 \<Longrightarrow> d < time_sub t u \<longleftrightarrow> d < t - u"
  by (auto simp: time_sub_def min_int64_def max_int64_def)

lemma time_sub_ge_iff: "0 \<le> d \<Longrightarrow> d \<le> max_int64 \<Longrightarrow> d \<le> time_sub t u \<longleftrightarrow> d \<le> t - u"
  by (auto simp: time_sub_def min_int64_def max_int64_def)

lemma time_sub_self [simp]: "time_sub t t = 0"
  by (simp add: time_sub_def min_int64_def max_int64_def)

lemma time_sub_mono: "t \<le> t' \<Longrightarrow> time_sub t u \<le> time_sub t' u"
  by (auto simp: time_sub_def)

lemma time_sub_pos_iff: "0 < time_sub t u \<longleftrightarrow> u < t"
  by (auto simp: time_sub_def min_int64_def max_int64_def)

lemma time_sub_le: "u \<le> t \<Longrightarrow> time_sub t u \<le> t - u"
  by (auto simp: time_sub_def min_int64_def max_int64_def)

end
