(* ===== verification/GoStrings.thy ===== *)
theory GoStrings
  imports Prelude "HOL-Library.Sublist"
begin

section \<open>Go's strings\<close>

text \<open>
  A Go string is a sequence of bytes, here a \<^typ>\<open>char list\<close>.  The functions are those of
  the packages \<open>strings\<close>, \<open>strconv\<close> and \<open>fmt\<close> that the agent calls.  Case mapping and the
  trimming of white space follow the ASCII path of the standard library; DNS names and the
  keywords of the configuration are ASCII, so this is the path the agent runs on them.
\<close>

subsection \<open>Characters\<close>

definition byte :: "char \<Rightarrow> nat" where
  "byte c = of_char c"

definition lower_char :: "char \<Rightarrow> char" where
  "lower_char c = (if 65 \<le> byte c \<and> byte c \<le> 90 then char_of (byte c + 32) else c)"

definition upper_char :: "char \<Rightarrow> char" where
  "upper_char c = (if 97 \<le> byte c \<and> byte c \<le> 122 then char_of (byte c - 32) else c)"

definition space_char :: "char \<Rightarrow> bool" where
  "space_char c \<longleftrightarrow> byte c = 32 \<or> (9 \<le> byte c \<and> byte c \<le> 13)"

definition digit_char :: "char \<Rightarrow> bool" where
  "digit_char c \<longleftrightarrow> 48 \<le> byte c \<and> byte c \<le> 57"

lemma byte_char_of [simp]: "n < 256 \<Longrightarrow> byte (char_of n) = n"
  by (simp add: byte_def)

lemma byte_less [simp]: "byte c < 256"
  by (simp add: byte_def)

lemma byte_inj: "byte c = byte d \<Longrightarrow> c = d"
  unfolding byte_def by (metis char_of_char)

lemma byte_lower_char:
  "byte (lower_char c) = (if 65 \<le> byte c \<and> byte c \<le> 90 then byte c + 32 else byte c)"
  by (simp add: lower_char_def)

lemma byte_upper_char:
  "byte (upper_char c) = (if 97 \<le> byte c \<and> byte c \<le> 122 then byte c - 32 else byte c)"
  using byte_less [of c] by (simp add: upper_char_def del: byte_less)

lemma lower_char_idem [simp]: "lower_char (lower_char c) = lower_char c"
  by (rule byte_inj) (simp add: byte_lower_char)

lemma upper_char_idem [simp]: "upper_char (upper_char c) = upper_char c"
  by (rule byte_inj) (auto simp: byte_upper_char)

lemma space_lower_char [simp]: "space_char (lower_char c) = space_char c"
  by (auto simp: space_char_def byte_lower_char)

lemma byte_dot [simp]: "byte CHR ''.'' = 46"
  by (simp add: byte_def)

lemma byte_bar [simp]: "byte CHR ''|'' = 124"
  by (simp add: byte_def)

lemma byte_star [simp]: "byte CHR ''*'' = 42"
  by (simp add: byte_def)

lemma lower_char_eq_iff:
  assumes "byte d < 65 \<or> 122 < byte d"
  shows "lower_char c = d \<longleftrightarrow> c = d"
proof
  assume "lower_char c = d"
  then have "byte (lower_char c) = byte d" by simp
  with assms have "byte c = byte d" by (auto simp: byte_lower_char split: if_splits)
  then show "c = d" by (rule byte_inj)
next
  assume "c = d"
  with assms show "lower_char c = d" by (auto simp: lower_char_def)
qed

subsection \<open>The package strings\<close>

definition to_lower :: "string \<Rightarrow> string" where
  "to_lower s = map lower_char s"

definition to_upper :: "string \<Rightarrow> string" where
  "to_upper s = map upper_char s"

definition trim_left :: "string \<Rightarrow> string" where
  "trim_left s = dropWhile space_char s"

definition trim_space :: "string \<Rightarrow> string" where
  "trim_space s = rev (trim_left (rev (trim_left s)))"

definition has_suffix :: "string \<Rightarrow> string \<Rightarrow> bool" where
  "has_suffix s suf \<longleftrightarrow> length suf \<le> length s \<and> drop (length s - length suf) s = suf"

definition has_prefix :: "string \<Rightarrow> string \<Rightarrow> bool" where
  "has_prefix s pre \<longleftrightarrow> length pre \<le> length s \<and> take (length pre) s = pre"

definition trim_suffix :: "string \<Rightarrow> string \<Rightarrow> string" where
  "trim_suffix s suf = (if has_suffix s suf then take (length s - length suf) s else s)"

lemma to_lower_Nil [simp]: "to_lower [] = []"
  by (simp add: to_lower_def)

lemma to_lower_eq_Nil [simp]: "to_lower s = [] \<longleftrightarrow> s = []"
  by (simp add: to_lower_def)

lemma length_to_lower [simp]: "length (to_lower s) = length s"
  by (simp add: to_lower_def)

lemma to_lower_idem [simp]: "to_lower (to_lower s) = to_lower s"
  by (simp add: to_lower_def)

lemma to_lower_append: "to_lower (s @ t) = to_lower s @ to_lower t"
  by (simp add: to_lower_def)

lemma trim_left_to_lower: "trim_left (to_lower s) = to_lower (trim_left s)"
  by (simp add: trim_left_def to_lower_def dropWhile_map comp_def)

lemma rev_to_lower: "rev (to_lower s) = to_lower (rev s)"
  by (simp add: to_lower_def rev_map)

lemma trim_space_to_lower: "trim_space (to_lower s) = to_lower (trim_space s)"
  by (simp add: trim_space_def trim_left_to_lower rev_to_lower)

lemma trim_space_Nil [simp]: "trim_space [] = []"
  by (simp add: trim_space_def trim_left_def)

lemma has_suffix_iff: "has_suffix s suf \<longleftrightarrow> (\<exists>pre. s = pre @ suf)"
  unfolding has_suffix_def
  by (metis append_take_drop_id append_eq_conv_conj diff_add_inverse2 le_add2 length_append)

lemma has_prefix_iff: "has_prefix s pre \<longleftrightarrow> (\<exists>suf. s = pre @ suf)"
  unfolding has_prefix_def
  by (metis append_take_drop_id append_eq_conv_conj le_add1 length_append)

lemma trim_suffix_append [simp]: "trim_suffix (s @ suf) suf = s"
  by (simp add: trim_suffix_def has_suffix_def)

lemma trim_suffix_other: "\<not> has_suffix s suf \<Longrightarrow> trim_suffix s suf = s"
  by (simp add: trim_suffix_def)

lemma has_suffix_dot_to_lower: "has_suffix (to_lower s) ''.'' = has_suffix s ''.''"
proof (cases s rule: rev_cases)
  case Nil
  then show ?thesis by (simp add: has_suffix_def)
next
  case (snoc t c)
  then show ?thesis
    by (simp add: has_suffix_def to_lower_append)
      (simp add: to_lower_def lower_char_eq_iff)
qed

lemma trim_suffix_dot_to_lower: "trim_suffix (to_lower s) ''.'' = to_lower (trim_suffix s ''.'')"
  by (simp add: trim_suffix_def has_suffix_dot_to_lower) (simp add: to_lower_def take_map)

lemmas [go_string_simps] =
  to_lower_def to_upper_def lower_char_def upper_char_def byte_def trim_space_def trim_left_def
  space_char_def has_suffix_def has_prefix_def trim_suffix_def

subsection \<open>Decimal numbers\<close>

text \<open>\<open>strconv.Itoa\<close> and the \<open>%d\<close> of \<open>fmt\<close>.\<close>

fun decimal :: "nat \<Rightarrow> string" where
  "decimal n = (if n < 10 then [char_of (48 + n)] else decimal (n div 10) @ [char_of (48 + n mod 10)])"

declare decimal.simps [simp del]

definition itoa :: "int \<Rightarrow> string" where
  "itoa i = (if i < 0 then CHR ''-'' # decimal (nat (- i)) else decimal (nat i))"

fun decimal_value :: "string \<Rightarrow> nat" where
  "decimal_value s = foldl (\<lambda>n c. 10 * n + (byte c - 48)) 0 s"

lemma decimal_nonempty [simp]: "decimal n \<noteq> []"
  by (subst decimal.simps) simp

lemma decimal_are_digits: "c \<in> set (decimal n) \<Longrightarrow> digit_char c"
proof (induction n rule: decimal.induct)
  case (1 n)
  show ?case
  proof (cases "n < 10")
    case True
    with "1.prems" show ?thesis
      by (subst (asm) decimal.simps) (simp add: digit_char_def)
  next
    case False
    with "1.prems" have "c \<in> set (decimal (n div 10)) \<or> c = char_of (48 + n mod 10)"
      by (subst (asm) decimal.simps) auto
    then show ?thesis
      using "1.IH" [OF False] by (auto simp: digit_char_def)
  qed
qed

lemma decimal_value_decimal: "decimal_value (decimal n) = n"
proof (induction n rule: decimal.induct)
  case (1 n)
  show ?case
  proof (cases "n < 10")
    case True
    then show ?thesis by (subst decimal.simps) simp
  next
    case False
    with "1.IH" show ?thesis by (subst decimal.simps) simp
  qed
qed

lemma decimal_inj: "decimal m = decimal n \<Longrightarrow> m = n"
  by (metis decimal_value_decimal)

lemma decimal_no: "\<not> digit_char c \<Longrightarrow> c \<notin> set (decimal n)"
  using decimal_are_digits by blast

lemma not_digit_bar [simp]: "\<not> digit_char CHR ''|''"
  by (simp add: digit_char_def)

text \<open>A field after a separator that does not occur in the fields can be read back.\<close>

lemma split_at_last:
  assumes "xs @ c # ys = xs' @ c # ys'" and "c \<notin> set ys" and "c \<notin> set ys'"
  shows "xs = xs' \<and> ys = ys'"
  using assms
  by (auto simp: append_eq_append_conv2 Cons_eq_append_conv append_eq_Cons_conv)

end
