(* ===== verification/DomainFilter.thy ===== *)
theory DomainFilter
  imports GoStrings
begin

section \<open>The domain filter of the proxy\<close>

text \<open>
  \<open>pkg/proxy/domainfilter.go\<close>: allow and deny lists of patterns, parsed once, and the test
  of a query name against them.  \<open>allowed_spec\<close> says what the patterns mean without parsing;
  the filter is shown to decide exactly that.
\<close>

subsection \<open>The model\<close>

record domainPattern =
  wildcard :: bool
  pat_suffix :: string

record domainFilter =
  allow_pats :: "domainPattern list"
  deny_pats :: "domainPattern list"

definition normalize_name :: "string \<Rightarrow> string" where
  "normalize_name s = to_lower (trim_suffix (trim_space s) ''.'')"

fun parsePatterns :: "string list \<Rightarrow> domainPattern list" where
  "parsePatterns [] = []"
| "parsePatterns (raw # rest) =
     (let p = normalize_name raw in
      if p = '''' then parsePatterns rest
      else if p = ''*'' then \<lparr>wildcard = True, pat_suffix = ''''\<rparr> # parsePatterns rest
      else if has_prefix p ''*.'' then \<lparr>wildcard = True, pat_suffix = drop 1 p\<rparr> # parsePatterns rest
      else \<lparr>wildcard = False, pat_suffix = p\<rparr> # parsePatterns rest)"

fun matchesAny :: "string \<Rightarrow> domainPattern list \<Rightarrow> bool" where
  "matchesAny domain [] = False"
| "matchesAny domain (p # ps) =
     (if wildcard p then
        (if pat_suffix p = '''' then True
         else if has_suffix domain (pat_suffix p) then True
         else if domain = drop 1 (pat_suffix p) then True
         else matchesAny domain ps)
      else if domain = pat_suffix p then True
      else matchesAny domain ps)"

definition newDomainFilter :: "string list \<Rightarrow> string list \<Rightarrow> domainFilter option" where
  "newDomainFilter allow deny =
     (let allowPatterns = parsePatterns allow; denyPatterns = parsePatterns deny in
      if length allowPatterns = 0 \<and> length denyPatterns = 0 then None
      else Some \<lparr>allow_pats = allowPatterns, deny_pats = denyPatterns\<rparr>)"

definition Allowed :: "domainFilter option \<Rightarrow> string \<Rightarrow> bool" where
  "Allowed fo domain =
     (case fo of
        None \<Rightarrow> True
      | Some f \<Rightarrow>
          (let normalized = normalize_name domain in
           if normalized = '''' then True
           else if length (allow_pats f) > 0 \<and> \<not> matchesAny normalized (allow_pats f) then False
           else if length (deny_pats f) > 0 \<and> matchesAny normalized (deny_pats f) then False
           else True))"

subsection \<open>What the patterns mean\<close>

text \<open>
  A normalised pattern is \<open>*\<close>, which matches every name, or \<open>*.d\<close>, which matches \<open>d\<close> and
  every name that ends in the label boundary \<open>.d\<close>, or a name that matches itself.
\<close>

definition pattern_matches :: "string \<Rightarrow> string \<Rightarrow> bool" where
  "pattern_matches p name \<longleftrightarrow>
     p = ''*'' \<or>
     (\<exists>d. p = ''*.'' @ d \<and> (name = d \<or> (\<exists>sub. name = sub @ ''.'' @ d))) \<or>
     ((\<forall>d. p \<noteq> ''*.'' @ d) \<and> p \<noteq> ''*'' \<and> name = p)"

definition some_pattern_matches :: "string list \<Rightarrow> string \<Rightarrow> bool" where
  "some_pattern_matches raws name \<longleftrightarrow>
     (\<exists>raw \<in> set raws. normalize_name raw \<noteq> '''' \<and> pattern_matches (normalize_name raw) name)"

definition no_patterns :: "string list \<Rightarrow> bool" where
  "no_patterns raws \<longleftrightarrow> (\<forall>raw \<in> set raws. normalize_name raw = '''')"

definition allowed_spec :: "string list \<Rightarrow> string list \<Rightarrow> string \<Rightarrow> bool" where
  "allowed_spec allow deny domain \<longleftrightarrow>
     normalize_name domain = '''' \<or>
     (no_patterns allow \<or> some_pattern_matches allow (normalize_name domain)) \<and>
     \<not> some_pattern_matches deny (normalize_name domain)"

subsection \<open>Parsing and matching\<close>

definition parsed :: "string \<Rightarrow> domainPattern" where
  "parsed p =
     (if p = ''*'' then \<lparr>wildcard = True, pat_suffix = ''''\<rparr>
      else if has_prefix p ''*.'' then \<lparr>wildcard = True, pat_suffix = drop 1 p\<rparr>
      else \<lparr>wildcard = False, pat_suffix = p\<rparr>)"

lemma parsePatterns_eq:
  "parsePatterns raws = map parsed (filter (\<lambda>p. p \<noteq> '''') (map normalize_name raws))"
  by (induction raws) (auto simp: parsed_def Let_def)

lemma parsePatterns_empty_iff: "parsePatterns raws = [] \<longleftrightarrow> no_patterns raws"
  by (auto simp: parsePatterns_eq no_patterns_def filter_empty_conv)

lemma matchesAny_append: "matchesAny d (ps @ qs) = (matchesAny d ps \<or> matchesAny d qs)"
  by (induction ps) auto

lemma matchesAny_ex: "matchesAny d ps \<longleftrightarrow> (\<exists>p \<in> set ps. matchesAny d [p])"
  by (induction ps) auto

lemma matchesAny_parsed: "matchesAny name [parsed p] \<longleftrightarrow> pattern_matches p name"
proof (cases "p = ''*''")
  case True
  then show ?thesis by (simp add: parsed_def pattern_matches_def)
next
  case nostar: False
  show ?thesis
  proof (cases "has_prefix p ''*.''")
    case True
    then obtain d where p: "p = ''*.'' @ d" by (auto simp: has_prefix_iff)
    then show ?thesis
      by (auto simp: parsed_def pattern_matches_def has_prefix_def has_suffix_iff)
  next
    case False
    then have "\<forall>d. p \<noteq> ''*.'' @ d" by (auto simp: has_prefix_iff)
    with nostar False show ?thesis
      by (auto simp: parsed_def pattern_matches_def)
  qed
qed

lemma matchesAny_parsePatterns: "matchesAny name (parsePatterns raws) \<longleftrightarrow> some_pattern_matches raws name"
  by (subst matchesAny_ex)
    (auto simp: parsePatterns_eq matchesAny_parsed some_pattern_matches_def simp del: matchesAny.simps)

lemma no_patterns_no_match: "no_patterns raws \<Longrightarrow> \<not> some_pattern_matches raws name"
  by (auto simp: no_patterns_def some_pattern_matches_def)

lemma newDomainFilter_decides: "Allowed (newDomainFilter allow deny) domain \<longleftrightarrow> allowed_spec allow deny domain"
  by (auto simp: Allowed_def newDomainFilter_def allowed_spec_def Let_def matchesAny_parsePatterns
      parsePatterns_empty_iff no_patterns_no_match)

subsection \<open>Normalisation\<close>

lemma normalize_to_lower: "normalize_name (to_lower s) = normalize_name s"
  by (simp add: normalize_name_def trim_space_to_lower trim_suffix_dot_to_lower)

lemma Allowed_cong: "normalize_name s = normalize_name t \<Longrightarrow> Allowed f s = Allowed f t"
  by (cases f) (simp_all add: Allowed_def)

lemma trim_left_append_dot: "trim_left (s @ ''.'') = trim_left s @ ''.''"
  unfolding trim_left_def by (induction s) (auto simp: space_char_def)

lemma trim_space_append_dot: "s \<noteq> '''' \<Longrightarrow> \<not> space_char (last s) \<Longrightarrow> trim_space (s @ ''.'') = trim_left s @ ''.''"
  by (simp add: trim_space_def trim_left_append_dot) (simp add: trim_left_def space_char_def)

lemma trim_space_no_trailing:
  assumes "s \<noteq> ''''" and "\<not> space_char (last s)"
  shows "trim_space s = trim_left s"
proof -
  obtain t c where s: "s = t @ [c]" using assms(1) by (cases s rule: rev_cases) auto
  with assms(2) have c: "\<not> space_char c" by simp
  then have "trim_left s = trim_left t @ [c]"
    unfolding s trim_left_def by (induction t) auto
  with c show ?thesis by (simp add: trim_space_def) (simp add: trim_left_def)
qed

subsection \<open>Properties\<close>

text \<open>
  C25. What the filter built from two pattern lists lets pass.  Names and patterns are compared
  without surrounding space, without a final dot and in lower case, and patterns that are then empty
  do not count.  The root (a name that is then empty) always passes, also when \<open>*\<close> is denied or no pattern
  of the allow list matches it.  Any other name passes when the allow list has no patterns or a matching
  one, and no deny pattern matches: deny wins over allow.  A wildcard \<open>*.d\<close> matches \<open>d\<close> and what ends in
  \<open>.d\<close>, at a label boundary only.
\<close>

theorem Allowed_iff_spec: "Allowed (newDomainFilter allow deny) domain \<longleftrightarrow> allowed_spec allow deny domain"
  by (rule newDomainFilter_decides)

text \<open>
  The answer of the filter depends neither on the case of the query name nor on the dot
  that ends a fully qualified name.
\<close>

theorem Allowed_case_and_root_dot:
  assumes "domain \<noteq> ''''" and "\<not> space_char (last domain)" and "\<not> has_suffix domain ''.''"
  shows "Allowed f (to_lower domain) = Allowed f domain \<and> Allowed f (domain @ ''.'') = Allowed f domain"
proof
  show "Allowed f (to_lower domain) = Allowed f domain"
    by (rule Allowed_cong) (rule normalize_to_lower)
  have "\<not> has_suffix (trim_left domain) ''.''"
    using assms(3) unfolding has_suffix_iff trim_left_def
    by (metis append.assoc takeWhile_dropWhile_id)
  then have "normalize_name (domain @ ''.'') = normalize_name domain"
    using assms(1,2)
    by (simp add: normalize_name_def trim_space_append_dot trim_space_no_trailing trim_suffix_other)
  then show "Allowed f (domain @ ''.'') = Allowed f domain"
    by (rule Allowed_cong)
qed

theorem Allowed_case_and_root_dot_witness:
  "Allowed (newDomainFilter [] [''*.Ads.example'']) (to_lower ''X.ads.example'') =
     Allowed (newDomainFilter [] [''*.Ads.example'']) ''X.ads.example'' \<and>
   Allowed (newDomainFilter [] [''*.Ads.example'']) (''X.ads.example'' @ ''.'') =
     Allowed (newDomainFilter [] [''*.Ads.example'']) ''X.ads.example''"
  by (rule Allowed_case_and_root_dot) (simp_all add: go_string_simps)

end
