(* ===== verification/DnsMsg.thy ===== *)
theory DnsMsg
  imports GoStrings
begin

section \<open>DNS messages\<close>

text \<open>
  The fields of the DNS library's messages that the agent reads or writes.  A resource
  record has a header (\<open>Header()\<close>, tested against nil by the code) and data the agent never
  looks into.  \<open>Copy\<close> is a deep copy: on values it is the identity.  The numbers of the
  response codes and of the OPT pseudo record are those of the DNS standard.

  The library's code is not part of the repository.  What the agent calls of it, building an
  error reply from a request and the tables of names, is collected in \<open>dns_lib\<close>, an
  argument of the definitions that use it.
\<close>

record rr_header =
  rr_name :: string
  rr_type :: "16 word"
  rr_ttl :: "32 word"

record rr =
  header :: "rr_header option"
  rdata :: string

record question =
  qname :: string
  qtype :: "16 word"
  qclass :: "16 word"

record dns_msg =
  msg_id :: "16 word"
  rcode :: int
  truncated :: bool
  questions :: "question list"
  answer :: "rr list"
  ns :: "rr list"
  extra :: "rr list"

definition RcodeSuccess :: int where "RcodeSuccess = 0"
definition RcodeServerFailure :: int where "RcodeServerFailure = 2"
definition RcodeNameError :: int where "RcodeNameError = 3"
definition RcodeRefused :: int where "RcodeRefused = 5"
definition TypeNS :: "16 word" where "TypeNS = 2"
definition TypeOPT :: "16 word" where "TypeOPT = 41"

lemmas rcode_defs = RcodeSuccess_def RcodeServerFailure_def RcodeNameError_def RcodeRefused_def

record dns_lib =
  SetRcode :: "dns_msg \<Rightarrow> int \<Rightarrow> dns_msg"
  TypeToString :: "16 word \<Rightarrow> string option"
  RcodeToString :: "int \<Rightarrow> string option"

text \<open>The documented behaviour of \<open>SetRcode\<close>: a reply to the request with the given code.\<close>

definition SetRcode_ok :: "dns_lib \<Rightarrow> bool" where
  "SetRcode_ok lib \<longleftrightarrow>
     (\<forall>q rc. rcode (SetRcode lib q rc) = rc \<and> msg_id (SetRcode lib q rc) = msg_id q)"

text \<open>An instance of the library's interface, for evaluating the definitions.\<close>

definition sample_lib :: dns_lib where
  "sample_lib =
     \<lparr>SetRcode = (\<lambda>q rc. \<lparr>msg_id = msg_id q, rcode = rc, truncated = False,
         questions = take 1 (questions q), answer = [], ns = [], extra = []\<rparr>),
      TypeToString = (\<lambda>t. if t = 1 then Some ''A'' else if t = 2 then Some ''NS'' else None),
      RcodeToString = (\<lambda>c. if c = 0 then Some ''NOERROR'' else if c = 2 then Some ''SERVFAIL''
         else if c = 3 then Some ''NXDOMAIN'' else if c = 5 then Some ''REFUSED'' else None)\<rparr>"

lemma sample_lib_ok: "SetRcode_ok sample_lib"
  by (simp add: SetRcode_ok_def sample_lib_def)

text \<open>All records of a message, section by section.\<close>

definition map_records :: "(rr \<Rightarrow> rr) \<Rightarrow> dns_msg \<Rightarrow> dns_msg" where
  "map_records f m =
     m\<lparr>answer := map f (answer m), ns := map f (ns m), extra := map f (extra m)\<rparr>"

definition all_records :: "dns_msg \<Rightarrow> rr list" where
  "all_records m = answer m @ ns m @ extra m"

lemma all_map_records: "all_records (map_records f m) = map f (all_records m)"
  by (simp add: all_records_def map_records_def)

lemma map_records_fields [simp]:
  "msg_id (map_records f m) = msg_id m" "rcode (map_records f m) = rcode m"
  "truncated (map_records f m) = truncated m" "questions (map_records f m) = questions m"
  by (simp_all add: map_records_def)

lemma all_records_set_id [simp]: "all_records (m\<lparr>msg_id := i\<rparr>) = all_records m"
  by (simp add: all_records_def)

end
