(* ===== verification/GoFloat.thy ===== *)
theory GoFloat
  imports Prelude Complex_Main "HOL-Library.Log_Nat"
begin

section \<open>Go's float64\<close>

text \<open>
  A \<open>float64\<close> is the rational it denotes; every operation rounds its exact result to a
  53-bit significand, to nearest with ties to even (\<open>rnd\<close>), as IEEE 754 and the Go
  specification have it for an unfused operation.  The range of the exponent is not
  bounded: the model has no infinities, no NaN and no subnormal numbers.

  The lemmas are what the components need of rounding: it is monotone, exact on integers up
  to \<open>2 ^ 53\<close>, and moves a number by at most its \<open>2 ^ (-53)\<close> part.
\<close>

type_synonym f64 = rat

subsection \<open>The binade of a positive number\<close>

definition binade :: "rat \<Rightarrow> int" where
  "binade x =
     (let (n, d) = quotient_of x; e = bitlen n - bitlen d
      in if 2 powi e \<le> x then e else e - 1)"

lemma two_powi_nat: "0 \<le> k \<Longrightarrow> (2::rat) powi k = of_int (2 ^ nat k)"
  by (simp add: power_int_def)

lemma bitlen_rat_bounds:
  assumes "0 < n"
  shows "2 powi (bitlen n - 1) \<le> (of_int n :: rat)" and "(of_int n :: rat) < 2 powi bitlen n"
proof -
  have pos: "1 \<le> bitlen n"
    using assms bitlen_nonneg [of n] bitlen_eq_zero_iff [of n] by linarith
  have "(2::rat) powi (bitlen n - 1) = of_int (2 ^ nat (bitlen n - 1))"
    by (rule two_powi_nat) (use pos in simp)
  then show "2 powi (bitlen n - 1) \<le> (of_int n :: rat)"
    using bitlen_bounds [OF assms] by (simp only: of_int_le_iff)
  have "(2::rat) powi bitlen n = of_int (2 ^ nat (bitlen n))"
    by (rule two_powi_nat) (rule bitlen_nonneg)
  then show "(of_int n :: rat) < 2 powi bitlen n"
    using bitlen_bounds [OF assms] by (simp only: of_int_less_iff)
qed

lemma guess_bounds:
  assumes "0 < x" and q: "quotient_of x = (n, d)"
  shows "2 powi (bitlen n - bitlen d - 1) < x" and "x < 2 powi (bitlen n - bitlen d + 1)"
proof -
  have d: "0 < d" and x: "x = of_int n / of_int d"
    using quotient_of_denom_pos [OF q] quotient_of_div [OF q] by auto
  with assms(1) have n: "0 < n" by (simp add: zero_less_divide_iff)
  note bn = bitlen_rat_bounds [OF n] and bd = bitlen_rat_bounds [OF d]
  have "2 powi (bitlen n - bitlen d - 1) * of_int d < (2 powi (bitlen n - bitlen d - 1)) * (2 powi bitlen d :: rat)"
    using bd(2) by simp
  also have "\<dots> = 2 powi (bitlen n - 1)"
    by (simp flip: power_int_add)
  also have "\<dots> \<le> of_int n" by (rule bn(1))
  finally show "2 powi (bitlen n - bitlen d - 1) < x"
    using d by (simp add: x field_simps)
  have "of_int n < (2 powi bitlen n :: rat)" by (rule bn(2))
  also have "\<dots> = 2 powi (bitlen n - bitlen d + 1) * 2 powi (bitlen d - 1)"
    by (simp flip: power_int_add)
  also have "\<dots> \<le> 2 powi (bitlen n - bitlen d + 1) * of_int d"
    using bd(1) by simp
  finally show "x < 2 powi (bitlen n - bitlen d + 1)"
    using d by (simp add: x field_simps)
qed

lemma binade_bounds:
  assumes "0 < x"
  shows "2 powi binade x \<le> x" and "x < 2 powi (binade x + 1)"
proof -
  obtain n d where q: "quotient_of x = (n, d)" by (cases "quotient_of x")
  note g = guess_bounds [OF assms q]
  show "2 powi binade x \<le> x" and "x < 2 powi (binade x + 1)"
    using g by (auto simp: binade_def q Let_def)
qed

lemma two_powi_le_iff: "(2::rat) powi a \<le> 2 powi b \<longleftrightarrow> a \<le> b"
  by (metis linorder_not_le one_less_numeral_iff power_int_increasing power_int_strict_increasing
      one_le_numeral semiring_norm(76))

lemma two_powi_less_iff: "(2::rat) powi a < 2 powi b \<longleftrightarrow> a < b"
  by (simp flip: linorder_not_le add: two_powi_le_iff)

lemma binade_unique:
  assumes "2 powi e \<le> x" and "x < 2 powi (e + 1)"
  shows "binade x = e"
proof -
  have pos: "0 < x" using assms(1) zero_less_power_int [of "2::rat" e] by linarith
  note b = binade_bounds [OF pos]
  have "(2::rat) powi binade x < 2 powi (e + 1)" and "(2::rat) powi e < 2 powi (binade x + 1)"
    using assms b by linarith+
  then show ?thesis by (simp add: two_powi_less_iff)
qed

lemma binade_mono:
  assumes "0 < x" and "x \<le> y"
  shows "binade x \<le> binade y"
proof -
  have "(2::rat) powi binade x < 2 powi (binade y + 1)"
    using binade_bounds [OF assms(1)] binade_bounds [of y] assms by linarith
  then show ?thesis by (simp add: two_powi_less_iff)
qed

subsection \<open>Rounding to nearest, ties to even\<close>

definition round_even :: "rat \<Rightarrow> int" where
  "round_even x =
     (let f = \<lfloor>x\<rfloor>; r = x - of_int f
      in if r < 1 / 2 then f else if 1 / 2 < r then f + 1 else if even f then f else f + 1)"

lemma round_even_of_int [simp]: "round_even (of_int n) = n"
  by (simp add: round_even_def)

lemma round_even_between: "\<lfloor>x\<rfloor> \<le> round_even x" "round_even x \<le> \<lfloor>x\<rfloor> + 1"
  by (simp_all add: round_even_def Let_def)

lemma round_even_error: "\<bar>of_int (round_even x) - x\<bar> \<le> 1 / 2"
  unfolding round_even_def Let_def by (auto simp: abs_if) (linarith | simp)+

lemma round_even_mono:
  assumes "x \<le> y"
  shows "round_even x \<le> round_even y"
proof (cases "\<lfloor>x\<rfloor> = \<lfloor>y\<rfloor>")
  case True
  with assms show ?thesis by (auto simp: round_even_def Let_def)
next
  case False
  with floor_mono [OF assms] have "\<lfloor>x\<rfloor> + 1 \<le> \<lfloor>y\<rfloor>" by simp
  with round_even_between(2) [of x] round_even_between(1) [of y] show ?thesis by linarith
qed

definition rnd_pos :: "rat \<Rightarrow> rat" where
  "rnd_pos x = (let u = 2 powi (binade x - 52) in of_int (round_even (x / u)) * u)"

definition rnd :: "rat \<Rightarrow> f64" where
  "rnd x = (if x = 0 then 0 else if x < 0 then - rnd_pos (- x) else rnd_pos x)"

lemma rnd_pos_powi: "rnd_pos (2 powi e) = 2 powi e"
proof -
  have b: "binade (2 powi e) = e"
    by (rule binade_unique) (simp_all add: two_powi_less_iff)
  have "(2::rat) powi e / 2 powi (e - 52) = of_int (2 ^ 52)"
    by (simp add: power_int_diff)
  with b show ?thesis
    by (simp only: rnd_pos_def Let_def round_even_of_int) (simp add: power_int_diff)
qed

text \<open>A number never leaves its binade, except for the power of two that bounds it.\<close>

lemma rnd_pos_in_binade:
  assumes "0 < x"
  shows "2 powi binade x \<le> rnd_pos x" and "rnd_pos x \<le> 2 powi (binade x + 1)"
proof -
  let ?u = "2 powi (binade x - 52) :: rat"
  have u: "0 < ?u" by simp
  have lo: "2 powi binade x = of_int (2 ^ 52) * ?u" and hi: "2 powi (binade x + 1) = of_int (2 ^ 53) * ?u"
    by (simp_all add: power_int_diff power_int_add)
  note b = binade_bounds [OF assms]
  have "of_int (2 ^ 52) \<le> x / ?u" and "x / ?u \<le> of_int (2 ^ 53)"
    using b u by (simp_all only: lo hi pos_le_divide_eq pos_divide_le_eq less_imp_le)
  then have "2 ^ 52 \<le> round_even (x / ?u)" and "round_even (x / ?u) \<le> 2 ^ 53"
    using round_even_mono round_even_of_int by metis+
  then have "of_int (2 ^ 52) \<le> (of_int (round_even (x / ?u)) :: rat)"
    and "(of_int (round_even (x / ?u)) :: rat) \<le> of_int (2 ^ 53)"
    by (simp_all only: of_int_le_iff)
  with u show "2 powi binade x \<le> rnd_pos x" and "rnd_pos x \<le> 2 powi (binade x + 1)"
    by (simp_all only: rnd_pos_def Let_def lo hi mult_le_cancel_right_pos)
qed

lemma rnd_pos_mono:
  assumes "0 < x" and "x \<le> y"
  shows "rnd_pos x \<le> rnd_pos y"
proof (cases "binade x = binade y")
  case True
  have "round_even (x / 2 powi (binade y - 52)) \<le> round_even (y / 2 powi (binade y - 52))"
    using assms(2) by (intro round_even_mono) (simp add: divide_right_mono)
  with True show ?thesis by (simp add: rnd_pos_def Let_def mult_right_mono)
next
  case False
  with binade_mono [OF assms] have "binade x + 1 \<le> binade y" by simp
  then have "(2::rat) powi (binade x + 1) \<le> 2 powi binade y" by (simp add: two_powi_le_iff)
  with rnd_pos_in_binade(2) [OF assms(1)] rnd_pos_in_binade(1) [of y] assms show ?thesis by linarith
qed

lemma rnd_pos_gt_0: "0 < x \<Longrightarrow> 0 < rnd_pos x"
  using rnd_pos_in_binade(1) [of x] zero_less_power_int [of "2::rat" "binade x"] by linarith

lemma rnd_0 [simp]: "rnd 0 = 0"
  by (simp add: rnd_def)

lemma rnd_minus: "rnd (- x) = - rnd x"
  by (auto simp: rnd_def)

lemma rnd_mono: "x \<le> y \<Longrightarrow> rnd x \<le> rnd y"
  using rnd_pos_mono [of x y] rnd_pos_mono [of "- y" "- x"] rnd_pos_gt_0 [of y] rnd_pos_gt_0 [of "- x"]
  by (auto simp: rnd_def)

lemma rnd_nonneg: "0 \<le> x \<Longrightarrow> 0 \<le> rnd x"
  using rnd_mono [of 0 x] by simp

lemma rnd_pos_iff [simp]: "0 < rnd x \<longleftrightarrow> 0 < x"
  using rnd_pos_gt_0 [of x] rnd_pos_gt_0 [of "- x"] by (auto simp: rnd_def)

text \<open>The error is at most the \<open>2 ^ (-53)\<close> part.\<close>

lemma rnd_error: "0 \<le> x \<Longrightarrow> \<bar>rnd x - x\<bar> \<le> x / 2 ^ 53"
proof (cases "x = 0")
  case True
  then show ?thesis by simp
next
  case False
  moreover assume "0 \<le> x"
  ultimately have pos: "0 < x" by simp
  let ?u = "2 powi (binade x - 52) :: rat"
  have u: "0 < ?u" by simp
  have "\<bar>of_int (round_even (x / ?u)) - x / ?u\<bar> * ?u \<le> 1 / 2 * ?u"
    using round_even_error u by (intro mult_right_mono) auto
  moreover have "\<bar>of_int (round_even (x / ?u)) - x / ?u\<bar> * ?u = \<bar>rnd x - x\<bar>"
    using u pos by (simp add: rnd_def rnd_pos_def Let_def abs_mult_pos left_diff_distrib)
  moreover have "1 / 2 * ?u \<le> x / 2 ^ 53"
    using binade_bounds(1) [OF pos] by (simp add: power_int_diff)
  ultimately show ?thesis by linarith
qed

lemma rnd_le_within: "0 \<le> x \<Longrightarrow> x \<le> m \<Longrightarrow> rnd x \<le> x + m / 2 ^ 53"
proof -
  assume x: "0 \<le> x" and "x \<le> m"
  then have "x / 2 ^ 53 \<le> m / 2 ^ 53" by (intro divide_right_mono) simp_all
  with rnd_error [OF x] show ?thesis by linarith
qed

text \<open>Integers of up to 53 bits are exact.\<close>

lemma rnd_pos_of_int:
  assumes "0 < n" and "n < 2 ^ 53"
  shows "rnd_pos (of_int n) = of_int n"
proof -
  have "(of_int n :: rat) < of_int (2 ^ 53)" using assms(2) by (simp only: of_int_less_iff)
  then have "(2::rat) powi binade (of_int n) < 2 powi 53"
    using binade_bounds(1) [of "of_int n"] assms(1) by simp
  then have "binade (of_int n) \<le> 52" by (simp only: two_powi_less_iff)
  then have "(of_int n :: rat) / 2 powi (binade (of_int n) - 52) = of_int (n * 2 ^ nat (52 - binade (of_int n)))"
    using two_powi_nat [of "52 - binade (of_int n)"]
    by (simp add: power_int_diff field_simps)
  then show ?thesis by (simp only: rnd_pos_def Let_def round_even_of_int) (simp add: field_simps)
qed

lemma rnd_of_int:
  assumes "\<bar>n\<bar> \<le> 2 ^ 53"
  shows "rnd (of_int n) = of_int n"
proof (cases "\<bar>n\<bar> = 2 ^ 53")
  case True
  then have "n = 2 ^ 53 \<or> n = - (2 ^ 53)" by linarith
  then show ?thesis using rnd_pos_powi [of 53] by (auto simp: rnd_def)
next
  case False
  with assms have "\<bar>n\<bar> < 2 ^ 53" by simp
  then show ?thesis
    using rnd_pos_of_int [of n] rnd_pos_of_int [of "- n"]
    by (cases n "0::int" rule: linorder_cases) (auto simp: rnd_def)
qed

lemma rnd_numeral [simp]: "numeral w \<le> (2::int) ^ 53 \<Longrightarrow> rnd (numeral w) = numeral w"
  using rnd_of_int [of "numeral w"] by simp

lemma rnd_1 [simp]: "rnd 1 = 1"
  using rnd_of_int [of 1] by simp

text \<open>Scaling by a power of two commutes with rounding, so short binary fractions are exact too.\<close>

lemma binade_scale:
  assumes "0 < x"
  shows "binade (x * 2 powi k) = binade x + k"
proof (rule binade_unique)
  note b = binade_bounds [OF assms]
  show "2 powi (binade x + k) \<le> x * 2 powi k"
    using mult_right_mono [OF b(1), of "2 powi k"] by (simp add: power_int_add)
  show "x * 2 powi k < 2 powi (binade x + k + 1)"
    using mult_strict_right_mono [OF b(2), of "2 powi k"] by (simp add: power_int_add mult_ac)
qed

lemma rnd_scale: "rnd (x * 2 powi k) = rnd x * 2 powi k"
proof -
  have pos: "rnd_pos (y * 2 powi k) = rnd_pos y * 2 powi k" if "0 < y" for y
  proof -
    have u: "(2::rat) powi (binade y + k - 52) = 2 powi (binade y - 52) * 2 powi k"
      by (simp flip: power_int_add add: algebra_simps)
    then show ?thesis
      by (simp add: rnd_pos_def binade_scale [OF that] Let_def)
  qed
  moreover have "\<not> (2::rat) powi k < 0"
    by (simp add: not_less)
  ultimately show ?thesis
    using pos [of "- x"] by (auto simp: rnd_def mult_less_0_iff)
qed

lemma rnd_fraction: "\<bar>n\<bar> \<le> 2 ^ 53 \<Longrightarrow> rnd (of_int n * 2 powi k) = of_int n * 2 powi k"
  by (simp add: rnd_scale rnd_of_int)

text \<open>Rounding a rounded number changes nothing.\<close>

lemma rnd_pos_shape:
  assumes "0 < x"
  shows "\<exists>n k. \<bar>n\<bar> \<le> 2 ^ 53 \<and> rnd_pos x = of_int n * 2 powi k"
proof (intro exI conjI)
  let ?k = "binade x - 52"
  have u: "(0::rat) < 2 powi ?k" by simp
  have "(2::rat) ^ 53 * 2 powi ?k = 2 powi (binade x + 1)"
    using power_int_add [of "2::rat" 53 ?k] by (simp add: add.commute)
  then have "x < 2 ^ 53 * 2 powi ?k" using binade_bounds(2) [OF assms] by simp
  then have "x / 2 powi ?k < of_int (2 ^ 53)" using u by (simp add: divide_less_eq)
  then have "\<lfloor>x / 2 powi ?k\<rfloor> < 2 ^ 53" by (simp only: floor_less_iff)
  moreover have "0 \<le> \<lfloor>x / 2 powi ?k\<rfloor>" using assms u by simp
  ultimately show "\<bar>round_even (x / 2 powi ?k)\<bar> \<le> 2 ^ 53"
    using round_even_between [of "x / 2 powi ?k"] by linarith
  show "rnd_pos x = of_int (round_even (x / 2 powi ?k)) * 2 powi ?k"
    by (simp add: rnd_pos_def Let_def)
qed

lemma rnd_idem [simp]: "rnd (rnd x) = rnd x"
proof -
  have pos: "rnd (rnd_pos y) = rnd_pos y" if "0 < y" for y
    using rnd_pos_shape [OF that] rnd_fraction by auto
  show ?thesis
    using pos [of x] pos [of "- x"] rnd_minus [of "rnd_pos (- x)"]
    by (cases x "0::rat" rule: linorder_cases) (simp_all add: rnd_def [of x])
qed

lemma rnd_le_int: "x \<le> of_int n \<Longrightarrow> \<bar>n\<bar> \<le> 2 ^ 53 \<Longrightarrow> rnd x \<le> of_int n"
  using rnd_mono [of x "of_int n"] by (simp add: rnd_of_int)

lemma rnd_ge_int: "of_int n \<le> x \<Longrightarrow> \<bar>n\<bar> \<le> 2 ^ 53 \<Longrightarrow> of_int n \<le> rnd x"
  using rnd_mono [of "of_int n" x] by (simp add: rnd_of_int)

subsection \<open>Operations\<close>

definition fadd :: "f64 \<Rightarrow> f64 \<Rightarrow> f64" where "fadd x y = rnd (x + y)"
definition fsub :: "f64 \<Rightarrow> f64 \<Rightarrow> f64" where "fsub x y = rnd (x - y)"
definition fmul :: "f64 \<Rightarrow> f64 \<Rightarrow> f64" where "fmul x y = rnd (x * y)"
definition fdiv :: "f64 \<Rightarrow> f64 \<Rightarrow> f64" where "fdiv x y = rnd (x / y)"
definition f_of_int :: "int \<Rightarrow> f64" where "f_of_int n = rnd (of_int n)"

text \<open>Integer division of Go: the quotient is truncated towards zero.\<close>

definition go_quot :: "int \<Rightarrow> int \<Rightarrow> int" where
  "go_quot a b = sgn a * sgn b * (\<bar>a\<bar> div \<bar>b\<bar>)"

definition go_rem :: "int \<Rightarrow> int \<Rightarrow> int" where
  "go_rem a b = a - go_quot a b * b"

lemma go_quot_nonneg: "0 \<le> a \<Longrightarrow> 0 < b \<Longrightarrow> go_quot a b = a div b"
  by (cases "a = 0") (auto simp: go_quot_def sgn_if)

lemma go_rem_nonneg: "0 \<le> a \<Longrightarrow> 0 < b \<Longrightarrow> go_rem a b = a mod b"
  by (simp add: go_rem_def go_quot_nonneg minus_div_mult_eq_mod)

lemma go_quot_minus: "go_quot (- a) b = - go_quot a b"
  by (simp add: go_quot_def sgn_if)

lemma go_rem_minus: "go_rem (- a) b = - go_rem a b"
  by (simp add: go_rem_def go_quot_minus)

text \<open>\<open>Duration.Seconds\<close>.\<close>

definition duration_seconds :: "duration \<Rightarrow> f64" where
  "duration_seconds d =
     fadd (f_of_int (go_quot d second)) (fdiv (f_of_int (go_rem d second)) (f_of_int second))"

text \<open>\<open>float64\<close> to \<open>uint32\<close>: truncation, then the low 32 bits.\<close>

definition f_trunc :: "f64 \<Rightarrow> int" where
  "f_trunc x = (if x < 0 then - \<lfloor>- x\<rfloor> else \<lfloor>x\<rfloor>)"

definition f_to_u32 :: "f64 \<Rightarrow> 32 word" where
  "f_to_u32 x = word_of_int (f_trunc x)"

text \<open>\<open>math.Round\<close>: to the nearest integer, halves away from zero.\<close>

definition f_round :: "f64 \<Rightarrow> int" where
  "f_round x = (if x < 0 then - \<lfloor>- x + 1 / 2\<rfloor> else \<lfloor>x + 1 / 2\<rfloor>)"

subsection \<open>Seconds of a duration\<close>

lemma nsec_part:
  assumes "0 \<le> r" and "r < second"
  shows "fdiv (f_of_int r) (f_of_int second) = rnd (of_int r / of_int second)"
  using assms by (simp add: fdiv_def f_of_int_def second_def rnd_of_int)

lemma sec_bound: "0 \<le> d \<Longrightarrow> d \<le> max_int64 \<Longrightarrow> d div second \<le> 2 ^ 34"
  by (simp add: second_def max_int64_def)

lemma duration_seconds_nonneg_eq:
  assumes "0 \<le> d" and "d \<le> max_int64"
  shows "duration_seconds d =
     rnd (of_int (d div second) + rnd (of_int (d mod second) / of_int second))"
proof -
  have s: "0 < second" by (simp add: second_def)
  have "0 \<le> d div second" using assms(1) s by (simp add: pos_imp_zdiv_nonneg_iff)
  with sec_bound [OF assms] have "f_of_int (d div second) = of_int (d div second)"
    by (simp add: f_of_int_def rnd_of_int)
  moreover have "fdiv (f_of_int (d mod second)) (f_of_int second) = rnd (of_int (d mod second) / of_int second)"
    using s by (intro nsec_part) simp_all
  ultimately show ?thesis
    using assms(1) s by (simp add: duration_seconds_def fadd_def go_quot_nonneg go_rem_nonneg)
qed

lemma duration_seconds_minus: "duration_seconds (- d) = - duration_seconds d"
proof -
  have m: "f_of_int (- n) = - f_of_int n" for n
    by (simp add: f_of_int_def rnd_minus)
  have "fdiv (- x) y = - fdiv x y" and "fadd (- x) (- y) = - fadd x y" for x y
    using rnd_minus [of "x / y"] rnd_minus [of "x + y"] by (simp_all add: fdiv_def fadd_def)
  then show ?thesis
    by (simp add: duration_seconds_def go_quot_minus go_rem_minus m)
qed

lemma duration_seconds_0 [simp]: "duration_seconds 0 = 0"
  by (simp add: duration_seconds_def go_quot_def go_rem_def f_of_int_def fadd_def fdiv_def)

lemma nsec_unit: "0 \<le> of_int (d mod second) / (of_int second :: rat)"
    "of_int (d mod second) / (of_int second :: rat) \<le> 1"
proof -
  have "0 \<le> d mod second" and "d mod second < second"
    using pos_mod_bound [of second d] by (simp_all add: second_def)
  then show "0 \<le> of_int (d mod second) / (of_int second :: rat)"
    and "of_int (d mod second) / (of_int second :: rat) \<le> 1"
    by (simp_all add: second_def divide_le_eq)
qed

text \<open>It lies between the whole seconds below and above.\<close>

lemma duration_seconds_bounds:
  assumes "0 \<le> d" and "d \<le> max_int64"
  shows "of_int (d div second) \<le> duration_seconds d"
    and "duration_seconds d \<le> of_int (d div second + 1)"
proof -
  have n: "0 \<le> d div second" using assms(1) by (simp add: second_def)
  have f: "0 \<le> rnd (of_int (d mod second) / of_int second)"
    "rnd (of_int (d mod second) / of_int second) \<le> 1"
    using nsec_unit rnd_nonneg rnd_le_int [of _ 1] by (blast, simp)
  show "of_int (d div second) \<le> duration_seconds d"
    unfolding duration_seconds_nonneg_eq [OF assms]
    using f n sec_bound [OF assms] by (intro rnd_ge_int) auto
  show "duration_seconds d \<le> of_int (d div second + 1)"
    unfolding duration_seconds_nonneg_eq [OF assms]
    using f n sec_bound [OF assms] by (intro rnd_le_int) auto
qed

lemma duration_seconds_pos_iff:
  assumes "min_int64 < d" and "d \<le> max_int64"
  shows "0 < duration_seconds d \<longleftrightarrow> 0 < d"
proof (cases "0 < d")
  case True
  then have d: "0 \<le> d" by simp
  have "0 < of_int (d div second) + (rnd (of_int (d mod second) / of_int second))"
  proof (cases "d div second = 0")
    case True
    with \<open>0 < d\<close> have "0 < d mod second"
      by (metis add_0 div_mult_mod_eq mult_zero_left)
    then have "0 < rnd (of_int (d mod second) / (of_int second))"
      by (simp add: second_def)
    with True show ?thesis by simp
  next
    case False
    with d have "0 < d div second" by (simp add: second_def order_less_le pos_imp_zdiv_nonneg_iff)
    then have "(1::rat) \<le> of_int (d div second)" by simp
    with rnd_nonneg [OF nsec_unit(1) [of d]] show ?thesis by linarith
  qed
  with True d assms(2) show ?thesis by (simp add: duration_seconds_nonneg_eq)
next
  case False
  then have "0 \<le> - d" and "- d \<le> max_int64"
    using assms by (simp_all add: min_int64_def max_int64_def)
  then have "0 \<le> duration_seconds (- d)"
    using duration_seconds_bounds(1) [of "- d"]
    by (metis div_int_pos_iff of_int_0_le_iff order_trans second_def zero_le_numeral)
  with False show ?thesis by (simp add: duration_seconds_minus)
qed

text \<open>Truncating it gives the whole seconds, exactly so for less than \<open>2 ^ 23\<close> seconds.\<close>

lemma f_trunc_seconds:
  assumes "0 \<le> d" and "d \<le> max_int64"
  shows "d div second \<le> f_trunc (duration_seconds d)"
    and "f_trunc (duration_seconds d) \<le> d div second + 1"
proof -
  note b = duration_seconds_bounds [OF assms]
  have n: "0 \<le> d div second" using assms(1) by (simp add: second_def)
  then have "(0::rat) \<le> of_int (d div second)" by simp
  with b(1) have "\<not> duration_seconds d < 0" by linarith
  with b show "d div second \<le> f_trunc (duration_seconds d)"
    and "f_trunc (duration_seconds d) \<le> d div second + 1"
    by (simp_all add: f_trunc_def le_floor_iff floor_le_iff)
qed

lemma f_trunc_seconds_exact:
  assumes "0 \<le> d" and "d div second < 2 ^ 23"
  shows "f_trunc (duration_seconds d) = d div second"
proof -
  let ?q = "d div second" and ?r = "d mod second"
  let ?top = "(1::rat) - 1 / 2 ^ 30"
  have m: "d \<le> max_int64" using assms by (simp add: second_def max_int64_def)
  have q: "0 \<le> ?q" using assms(1) by (simp add: second_def)
  have "?r < second" by (simp add: second_def)
  then have "of_int ?r \<le> (of_int (second - 1) :: rat)" by (simp only: of_int_le_iff)
  then have "of_int ?r / of_int second \<le> ?top" by (simp add: second_def)
  then have "rnd (of_int ?r / of_int second) \<le> rnd ?top" by (rule rnd_mono)
  also have "rnd ?top = ?top"
    using rnd_fraction [of "2 ^ 30 - 1" "- 30"] by (simp add: power_int_minus field_simps)
  finally have "of_int ?q + rnd (of_int ?r / of_int second) \<le> of_int ?q + ?top" by simp
  then have "duration_seconds d \<le> rnd (of_int ?q + ?top)"
    unfolding duration_seconds_nonneg_eq [OF assms(1) m] by (rule rnd_mono)
  also have "rnd (of_int ?q + ?top) = of_int ?q + ?top"
    using rnd_fraction [of "(?q + 1) * 2 ^ 30 - 1" "- 30"] q assms(2)
    by (simp add: power_int_minus field_simps)
  finally have "duration_seconds d < of_int (?q + 1)" by simp
  moreover have "of_int ?q \<le> duration_seconds d" by (rule duration_seconds_bounds(1) [OF assms(1) m])
  moreover have "(0::rat) \<le> of_int ?q" using q by simp
  ultimately show ?thesis by (simp add: f_trunc_def floor_eq_iff)
qed

text \<open>The rounding of a product with it is within the \<open>2 ^ (-51)\<close> part.\<close>

definition rnd_factor :: rat where
  "rnd_factor = 1 + 1 / 2 ^ 53"

lemma rnd_factor_ge_1: "1 \<le> rnd_factor"
  by (simp add: rnd_factor_def)

lemma rnd_le_factor: "0 \<le> x \<Longrightarrow> rnd x \<le> x * rnd_factor"
proof -
  assume "0 \<le> x"
  then have "rnd x \<le> x + x / 2 ^ 53" using rnd_error [of x] by linarith
  then show ?thesis by (simp add: rnd_factor_def distrib_left)
qed

lemma duration_seconds_le:
  assumes "0 \<le> d" and "d \<le> max_int64"
  shows "duration_seconds d \<le> of_int d / of_int second * rnd_factor ^ 2"
proof -
  let ?q = "of_int (d div second) :: rat" and ?f = "of_int (d mod second) / of_int second :: rat"
  let ?e = rnd_factor
  have q: "0 \<le> ?q" using assms(1) by (simp add: second_def)
  note f = nsec_unit(1) [of d]
  have split: "of_int d / of_int second = ?q + ?f"
  proof -
    have "(of_int d :: rat) = of_int (d div second * second + d mod second)" by simp
    then show ?thesis by (simp only: of_int_add of_int_mult) (simp add: second_def)
  qed
  have "?q + rnd ?f \<le> ?q * ?e + ?f * ?e"
    using rnd_le_factor [OF f] mult_left_mono [OF rnd_factor_ge_1 q] by simp
  then have "?q + rnd ?f \<le> (?q + ?f) * ?e" by (simp add: distrib_right)
  then have "rnd (?q + rnd ?f) \<le> rnd ((?q + ?f) * ?e)" by (rule rnd_mono)
  also have "\<dots> \<le> (?q + ?f) * ?e * ?e"
    using q f rnd_factor_ge_1 by (intro rnd_le_factor) simp
  finally show ?thesis
    unfolding duration_seconds_nonneg_eq [OF assms] split by (simp add: power2_eq_square mult.assoc)
qed

lemma fmul_seconds_le:
  assumes "0 \<le> d" and "d \<le> max_int64" and "0 \<le> r"
  shows "fmul (duration_seconds d) r \<le> of_int d / of_int second * r * (1 + 1 / 2 ^ 51)"
proof -
  let ?e = rnd_factor and ?s = "of_int d / of_int second :: rat"
  have s: "0 \<le> ?s" using assms(1) by (simp add: second_def)
  have "duration_seconds d * r \<le> ?s * ?e ^ 2 * r"
    by (rule mult_right_mono [OF duration_seconds_le [OF assms(1,2)] assms(3)])
  then have "fmul (duration_seconds d) r \<le> rnd (?s * ?e ^ 2 * r)"
    unfolding fmul_def by (rule rnd_mono)
  also have "\<dots> \<le> ?s * ?e ^ 2 * r * ?e"
    using s assms(3) by (intro rnd_le_factor mult_nonneg_nonneg) simp_all
  also have "\<dots> = ?s * r * ?e ^ 3" by (simp add: power2_eq_square power3_eq_cube mult_ac)
  also have "\<dots> \<le> ?s * r * (1 + 1 / 2 ^ 51)"
    by (intro mult_left_mono mult_nonneg_nonneg s assms(3)) (simp add: power3_eq_cube rnd_factor_def)
  finally show ?thesis .
qed

end
