(* ===== verification/ResponseCache.thy ===== *)
theory ResponseCache
  imports DnsMsg GoFloat
begin

section \<open>The response cache of the proxy\<close>

text \<open>
  \<open>pkg/proxy/cache.go\<close>.  The cache maps a key made of the question to the answer, the
  instant it was stored and the instant it expires.  An expired answer stays for
  \<open>staleTTL\<close> more, to be served when the engine does not answer.  A nil cache is \<open>None\<close>.
  The mutex makes each operation atomic; each is one function here.
\<close>

subsection \<open>The model\<close>

definition defaultStaleTTL :: duration where
  "defaultStaleTTL = 5 * minute"

record cachedResponse =
  message :: dns_msg
  storedAt :: time
  expiresAt :: time

record responseCache =
  entries :: "(string, cachedResponse) go_map"
  maxEntries :: int
  defaultTTL :: duration
  staleTTL :: duration

definition newResponseCache :: "int \<Rightarrow> duration \<Rightarrow> responseCache option" where
  "newResponseCache maxE ttl =
     (if maxE \<le> 0 then None
      else
        let ttl' = (if ttl \<le> 0 then 30 * second else ttl)
        in Some \<lparr>entries = [], maxEntries = maxE, defaultTTL = ttl', staleTTL = defaultStaleTTL\<rparr>)"

definition cacheKey :: "dns_msg option \<Rightarrow> string option" where
  "cacheKey request =
     (case request of
        None \<Rightarrow> None
      | Some r \<Rightarrow>
          (case questions r of
             [] \<Rightarrow> None
           | q # _ \<Rightarrow>
               Some (to_lower (qname q) @ ''|'' @ itoa (uint (qtype q)) @ ''|'' @ itoa (uint (qclass q)))))"

definition isCacheableResponse :: "dns_msg option \<Rightarrow> bool" where
  "isCacheableResponse response =
     (case response of
        None \<Rightarrow> False
      | Some r \<Rightarrow>
          if rcode r \<noteq> RcodeSuccess then False
          else if truncated r then False
          else True)"

text \<open>One iteration of the loop over the records: the least TTL so far and whether any was seen.\<close>

fun min_ttl_step :: "32 word \<times> bool \<Rightarrow> rr \<Rightarrow> 32 word \<times> bool" where
  "min_ttl_step (minTTL, seen) record =
     (case header record of
        None \<Rightarrow> (minTTL, seen)
      | Some h \<Rightarrow>
          if rr_ttl h = 0 then (minTTL, seen)
          else if \<not> seen \<or> rr_ttl h < minTTL then (rr_ttl h, True)
          else (minTTL, seen))"

definition minResponseTTL :: "dns_msg option \<Rightarrow> duration" where
  "minResponseTTL response =
     (case response of
        None \<Rightarrow> 0
      | Some r \<Rightarrow>
          (let (minTTL, seen) = foldl min_ttl_step (0, False) (all_records r)
           in if \<not> seen then 0 else wrap64 (uint minTTL * second)))"

definition cacheEntryTTL :: "dns_msg option \<Rightarrow> duration \<Rightarrow> duration" where
  "cacheEntryTTL response fallback =
     (let minTTL = minResponseTTL response in if minTTL > 0 then minTTL else fallback)"

definition set_id :: "dns_msg option \<Rightarrow> dns_msg \<Rightarrow> dns_msg" where
  "set_id request response =
     (case request of None \<Rightarrow> response | Some r \<Rightarrow> response\<lparr>msg_id := msg_id r\<rparr>)"

definition age_record :: "32 word \<Rightarrow> rr \<Rightarrow> rr" where
  "age_record elapsed record =
     (case header record of
        None \<Rightarrow> record
      | Some h \<Rightarrow>
          if rr_ttl h = 0 then record
          else if elapsed \<ge> rr_ttl h then record\<lparr>header := Some (h\<lparr>rr_ttl := 0\<rparr>)\<rparr>
          else record\<lparr>header := Some (h\<lparr>rr_ttl := rr_ttl h - elapsed\<rparr>)\<rparr>)"

definition cloneCachedResponse :: "cachedResponse \<Rightarrow> dns_msg option \<Rightarrow> time \<Rightarrow> dns_msg" where
  "cloneCachedResponse entry request now =
     (let response = set_id request (message entry);
          elapsedSeconds = f_to_u32 (duration_seconds (time_sub now (storedAt entry)))
      in if elapsedSeconds = 0 then response else map_records (age_record elapsedSeconds) response)"

definition Get :: "responseCache option \<Rightarrow> dns_msg option \<Rightarrow> time \<Rightarrow> dns_msg option" where
  "Get co request now =
     (case co of
        None \<Rightarrow> None
      | Some c \<Rightarrow>
          (case cacheKey request of
             None \<Rightarrow> None
           | Some key \<Rightarrow>
               (case map_get (entries c) key of
                  None \<Rightarrow> None
                | Some entry \<Rightarrow>
                    if \<not> (expiresAt entry > now) then None
                    else Some (cloneCachedResponse entry request now))))"

definition stale_record :: "rr \<Rightarrow> rr" where
  "stale_record record =
     (case header record of
        None \<Rightarrow> record
      | Some h \<Rightarrow> record\<lparr>header := Some (h\<lparr>rr_ttl := 1\<rparr>)\<rparr>)"

definition GetStale :: "responseCache option \<Rightarrow> dns_msg option \<Rightarrow> time \<Rightarrow> dns_msg option" where
  "GetStale co request now =
     (case co of
        None \<Rightarrow> None
      | Some c \<Rightarrow>
          (case cacheKey request of
             None \<Rightarrow> None
           | Some key \<Rightarrow>
               (case map_get (entries c) key of
                  None \<Rightarrow> None
                | Some entry \<Rightarrow>
                    if expiresAt entry > now then Some (cloneCachedResponse entry request now)
                    else if time_sub now (expiresAt entry) > staleTTL c then None
                    else Some (map_records stale_record (set_id request (message entry))))))"

definition evictExpiredLocked :: "responseCache \<Rightarrow> time \<Rightarrow> responseCache" where
  "evictExpiredLocked c now =
     c\<lparr>entries := map_keep (\<lambda>_ entry. \<not> (time_sub now (expiresAt entry) > staleTTL c)) (entries c)\<rparr>"

text \<open>The loop that looks for the entry that expires first, over the keys in the order of \<open>rank\<close>.\<close>

definition oldest_step ::
  "(string, cachedResponse) go_map \<Rightarrow> string \<times> time \<Rightarrow> string \<Rightarrow> string \<times> time" where
  "oldest_step m acc key =
     (case acc of (oldestKey, oldestTime) \<Rightarrow>
       (case map_get m key of
          None \<Rightarrow> (oldestKey, oldestTime)
        | Some entry \<Rightarrow>
            if oldestKey = '''' \<or> expiresAt entry < oldestTime then (key, expiresAt entry)
            else (oldestKey, oldestTime)))"

definition evictOldestLocked :: "(string \<Rightarrow> nat) \<Rightarrow> responseCache \<Rightarrow> responseCache" where
  "evictOldestLocked rank c =
     (let (oldestKey, _) = foldl (oldest_step (entries c)) ('''', 0) (map_range rank (entries c))
      in if oldestKey \<noteq> '''' then c\<lparr>entries := map_del oldestKey (entries c)\<rparr> else c)"

definition insert_entry :: "(string \<Rightarrow> nat) \<Rightarrow> string \<Rightarrow> cachedResponse \<Rightarrow> responseCache \<Rightarrow> responseCache" where
  "insert_entry rank key entry c =
     (let c1 = evictExpiredLocked c (storedAt entry);
          c2 = (if int (length (entries c1)) \<ge> maxEntries c1 then evictOldestLocked rank c1 else c1)
      in c2\<lparr>entries := map_put key entry (entries c2)\<rparr>)"

definition Store ::
  "(string \<Rightarrow> nat) \<Rightarrow> responseCache option \<Rightarrow> dns_msg option \<Rightarrow> dns_msg option \<Rightarrow> time
    \<Rightarrow> responseCache option" where
  "Store rank co request response now =
     (case co of
        None \<Rightarrow> None
      | Some c \<Rightarrow>
          (case (cacheKey request, response) of
             (Some key, Some r) \<Rightarrow>
               (if \<not> isCacheableResponse response then Some c
                else
                  let ttl = cacheEntryTTL response (defaultTTL c) in
                  if ttl \<le> 0 then Some c
                  else Some (insert_entry rank key
                         \<lparr>message = r, storedAt = now, expiresAt = now + ttl\<rparr> c))
           | _ \<Rightarrow> Some c))"

subsection \<open>Keys\<close>

lemma itoa_nonneg: "0 \<le> i \<Longrightarrow> itoa i = decimal (nat i)"
  by (simp add: itoa_def)

lemma itoa_uint_inj:
  assumes "itoa (uint x) = itoa (uint y)"
  shows "x = y"
proof -
  have "nat (uint x) = nat (uint y)"
    using assms by (intro decimal_inj) (simp add: itoa_nonneg)
  then have "unat x = unat y" by simp
  then show ?thesis by (rule unsigned_word_eqI)
qed

lemma no_bar_itoa_uint [simp]: "CHR ''|'' \<notin> set (itoa (uint x))"
  by (simp add: itoa_nonneg decimal_no)

lemma cacheKey_nonempty: "cacheKey request = Some key \<Longrightarrow> key \<noteq> ''''"
  by (auto simp: cacheKey_def split: option.splits list.splits)

subsection \<open>The least TTL of an answer\<close>

definition ttl_of :: "rr \<Rightarrow> nat" where
  "ttl_of record = (case header record of None \<Rightarrow> 0 | Some h \<Rightarrow> unat (rr_ttl h))"

lemma min_ttl_loop:
  assumes "foldl min_ttl_step (0, False) rs = (m, seen)"
  shows "(seen \<longleftrightarrow> (\<exists>r \<in> set rs. ttl_of r \<noteq> 0)) \<and>
    (seen \<longrightarrow> 0 < unat m \<and> (\<exists>r \<in> set rs. ttl_of r = unat m) \<and>
      (\<forall>r \<in> set rs. ttl_of r \<noteq> 0 \<longrightarrow> unat m \<le> ttl_of r))"
  using assms
proof (induction rs arbitrary: m seen rule: rev_induct)
  case Nil
  then show ?case by simp
next
  case (snoc r rs)
  obtain m' seen' where f: "foldl min_ttl_step (0, False) rs = (m', seen')"
    by (cases "foldl min_ttl_step (0, False) rs")
  have step: "min_ttl_step (m', seen') r = (m, seen)" using snoc.prems f by simp
  from snoc.IH [OF f] step show ?case
    by (cases "header r")
      (auto simp: ttl_of_def word_less_nat_alt unat_eq_zero word_neq_0_conv split: if_splits)
qed

lemma uint_second_no_wrap: "wrap64 (uint (x :: 32 word) * second) = uint x * second"
proof (rule wrap64_id)
  have "0 \<le> uint x * second" by (simp add: second_def)
  then show "min_int64 \<le> uint x * second"
    by (simp add: min_int64_def)
  show "uint x * second \<le> max_int64"
    using uint_lt2p [of x] by (simp add: max_int64_def second_def)
qed

lemma minResponseTTL_none:
  "(\<And>r. r \<in> set (all_records m) \<Longrightarrow> ttl_of r = 0) \<Longrightarrow> minResponseTTL (Some m) = 0"
  using min_ttl_loop [of "all_records m"]
  by (cases "foldl min_ttl_step (0, False) (all_records m)") (simp add: minResponseTTL_def)

lemma minResponseTTL_le:
  assumes "r \<in> set (all_records m)" and "ttl_of r \<noteq> 0"
  shows "0 < minResponseTTL (Some m)" and "minResponseTTL (Some m) \<le> int (ttl_of r) * second"
proof -
  obtain t seen where f: "foldl min_ttl_step (0, False) (all_records m) = (t, seen)"
    by (cases "foldl min_ttl_step (0, False) (all_records m)")
  from min_ttl_loop [OF f] assms have "seen" and t: "0 < unat t" "unat t \<le> ttl_of r"
    by blast+
  define n where "n = unat t"
  have m: "minResponseTTL (Some m) = int n * second"
    using \<open>seen\<close> by (simp add: minResponseTTL_def f uint_second_no_wrap n_def)
  note t = t [folded n_def]
  show "0 < minResponseTTL (Some m)"
    unfolding m using t(1) by (simp add: second_def)
  show "minResponseTTL (Some m) \<le> int (ttl_of r) * second"
    unfolding m using t(2) by (simp add: second_def)
qed

text \<open>
  How long an answer may be kept: for the least TTL of its records, those of TTL 0 not
  counted, or for the default when there is no other.
\<close>

definition positive_ttls :: "dns_msg \<Rightarrow> nat set" where
  "positive_ttls m = ttl_of ` set (all_records m) - {0}"

definition lifetime :: "duration \<Rightarrow> dns_msg \<Rightarrow> duration" where
  "lifetime dflt m = (if positive_ttls m = {} then dflt else int (Min (positive_ttls m)) * second)"

lemma cacheEntryTTL_lifetime: "cacheEntryTTL (Some m) dflt = lifetime dflt m"
proof -
  obtain t seen where f: "foldl min_ttl_step (0, False) (all_records m) = (t, seen)"
    by (cases "foldl min_ttl_step (0, False) (all_records m)")
  note loop = min_ttl_loop [OF f]
  show ?thesis
  proof (cases seen)
    case False
    with loop have "positive_ttls m = {}" by (auto simp: positive_ttls_def)
    with False f show ?thesis by (simp add: lifetime_def cacheEntryTTL_def minResponseTTL_def)
  next
    case True
    define n where "n = unat t"
    have n: "0 < n" "n \<in> ttl_of ` set (all_records m)"
        "\<forall>r \<in> set (all_records m). ttl_of r \<noteq> 0 \<longrightarrow> n \<le> ttl_of r"
      using loop True unfolding n_def by (auto simp del: unat_gt_0) (metis imageI)
    have "Min (positive_ttls m) = n"
      by (intro Min_eqI) (use n in \<open>auto simp: positive_ttls_def\<close>)
    moreover have "positive_ttls m \<noteq> {}" using n by (auto simp: positive_ttls_def)
    moreover have "minResponseTTL (Some m) = int n * second"
      using True by (simp add: minResponseTTL_def f uint_second_no_wrap n_def)
    ultimately show ?thesis using n(1) by (simp add: lifetime_def cacheEntryTTL_def second_def)
  qed
qed

subsection \<open>The invariant of the cache\<close>

text \<open>
  An entry holds a complete success and lives for its lifetime, which is positive.  The cache
  never exceeds its capacity.
\<close>

definition entry_ok :: "duration \<Rightarrow> cachedResponse \<Rightarrow> bool" where
  "entry_ok ttl e \<longleftrightarrow>
     isCacheableResponse (Some (message e)) \<and>
     expiresAt e = storedAt e + lifetime ttl (message e) \<and>
     storedAt e < expiresAt e"

definition cache_ok :: "responseCache option \<Rightarrow> bool" where
  "cache_ok co \<longleftrightarrow>
     (case co of
        None \<Rightarrow> True
      | Some c \<Rightarrow>
          map_ok (entries c) \<and>
          (\<forall>(k, e) \<in> set (entries c). k \<noteq> '''' \<and> entry_ok (defaultTTL c) e) \<and>
          int (length (entries c)) \<le> maxEntries c \<and> 0 < maxEntries c \<and>
          staleTTL c = defaultStaleTTL)"

lemma newResponseCache_ok: "cache_ok (newResponseCache n ttl)"
  by (simp add: newResponseCache_def cache_ok_def Let_def)

lemma cache_ok_entry:
  "cache_ok (Some c) \<Longrightarrow> map_get (entries c) k = Some e \<Longrightarrow> entry_ok (defaultTTL c) e"
  by (auto simp: cache_ok_def map_get_Some_iff)

lemma evictExpired_ok:
  assumes "cache_ok (Some c)"
  shows "cache_ok (Some (evictExpiredLocked c now))"
  using assms le_trans [OF length_map_keep_le, of "entries c" "nat (maxEntries c)"]
  by (auto simp: cache_ok_def evictExpiredLocked_def set_map_keep le_nat_iff)

subsection \<open>Eviction of the entry that expires first\<close>

text \<open>After any part of the loop the state is the first least entry of the keys met so far.\<close>

definition oldest_among :: "(string, cachedResponse) go_map \<Rightarrow> string list \<Rightarrow> string \<times> time \<Rightarrow> bool" where
  "oldest_among m keys acc \<longleftrightarrow>
     (case acc of (k, t) \<Rightarrow>
       (if keys = [] then k = ''''
        else k \<in> set keys \<and> k \<noteq> '''' \<and>
             (\<exists>e. map_get m k = Some e \<and> expiresAt e = t) \<and>
             (\<forall>k' e'. k' \<in> set keys \<longrightarrow> map_get m k' = Some e' \<longrightarrow> t \<le> expiresAt e')))"

lemma oldest_step_among:
  assumes "oldest_among m keys acc" and "k \<noteq> ''''" and "map_get m k = Some e"
  shows "oldest_among m (keys @ [k]) (oldest_step m acc k)"
proof (cases acc)
  case (Pair k0 t0)
  show ?thesis
  proof (cases "keys = []")
    case True
    with assms Pair show ?thesis by (simp add: oldest_among_def oldest_step_def)
  next
    case False
    with assms Pair show ?thesis
      by (auto simp: oldest_among_def oldest_step_def intro: order_trans less_imp_le)
  qed
qed

lemma oldest_loop:
  assumes "\<And>k. k \<in> set keys \<Longrightarrow> k \<noteq> '''' \<and> map_get m k \<noteq> None"
  shows "oldest_among m keys (foldl (oldest_step m) ('''', 0) keys)"
  using assms
proof (induction keys rule: rev_induct)
  case Nil
  then show ?case by (simp add: oldest_among_def)
next
  case (snoc k keys)
  then obtain e where "map_get m k = Some e" by auto
  with snoc show ?case by (simp add: oldest_step_among)
qed

lemma evictOldest_cases:
  assumes ok: "map_ok (entries c)" and ne: "\<forall>k \<in> fst ` set (entries c). k \<noteq> ''''"
  shows "entries c = [] \<and> evictOldestLocked rank c = c \<or>
    (\<exists>k e. map_get (entries c) k = Some e \<and>
       evictOldestLocked rank c = c\<lparr>entries := map_del k (entries c)\<rparr> \<and>
       (\<forall>k' e'. map_get (entries c) k' = Some e' \<longrightarrow> expiresAt e \<le> expiresAt e'))"
proof -
  let ?m = "entries c" and ?ks = "map_range rank (entries c)"
  obtain k t where acc: "foldl (oldest_step ?m) ('''', 0) ?ks = (k, t)"
    by (cases "foldl (oldest_step ?m) ('''', 0) ?ks")
  have "oldest_among ?m ?ks (k, t)"
    unfolding acc [symmetric]
    by (rule oldest_loop) (use ne in \<open>auto simp: map_get_None_iff\<close>)
  moreover have "k' \<in> set ?ks" if "map_get ?m k' = Some e'" for k' e'
    using that by (metis map_get_None_iff option.distinct(1) set_map_range)
  moreover have "?ks = [] \<longleftrightarrow> ?m = []"
    by (metis image_is_empty set_empty set_map_range)
  ultimately have least: "k \<noteq> '''' \<and> (\<exists>e. map_get ?m k = Some e \<and>
      (\<forall>k' e'. map_get ?m k' = Some e' \<longrightarrow> expiresAt e \<le> expiresAt e'))" if "?m \<noteq> []"
    using that by (simp add: oldest_among_def del: set_map_range) blast
  show ?thesis
  proof (cases "?m = []")
    case True
    then show ?thesis by (simp add: evictOldestLocked_def map_range_def)
  next
    case False
    from least [OF False] show ?thesis by (auto simp: evictOldestLocked_def acc)
  qed
qed

lemma evictOldest_ok:
  assumes "cache_ok (Some c)"
  shows "cache_ok (Some (evictOldestLocked rank c))"
proof -
  have "map_ok (entries c)" and "\<forall>k \<in> fst ` set (entries c). k \<noteq> ''''"
    using assms by (auto simp: cache_ok_def)
  from evictOldest_cases [OF this, of rank] show ?thesis
  proof (elim disjE exE conjE)
    assume "evictOldestLocked rank c = c"
    with assms show ?thesis by simp
  next
    fix k e
    assume "evictOldestLocked rank c = c\<lparr>entries := map_del k (entries c)\<rparr>"
    with assms length_map_del_le [of k "entries c"] show ?thesis
      by (auto simp: cache_ok_def) (auto simp: map_del_def)
  qed
qed

lemma evictOldest_room:
  assumes "cache_ok (Some c)"
  shows "int (length (entries (evictOldestLocked rank c))) < maxEntries c"
proof -
  have ok: "map_ok (entries c)" and "\<forall>k \<in> fst ` set (entries c). k \<noteq> ''''"
    using assms by (auto simp: cache_ok_def)
  from evictOldest_cases [OF this, of rank] show ?thesis
  proof (elim disjE exE conjE)
    assume "entries c = []" and "evictOldestLocked rank c = c"
    with assms show ?thesis by (simp add: cache_ok_def)
  next
    fix k e
    assume "map_get (entries c) k = Some e"
      and "evictOldestLocked rank c = c\<lparr>entries := map_del k (entries c)\<rparr>"
    with assms length_map_del [OF ok, of k] show ?thesis by (simp add: cache_ok_def)
  qed
qed

subsection \<open>Storing\<close>

lemma evict_fields [simp]:
  "maxEntries (evictExpiredLocked c now) = maxEntries c"
  "defaultTTL (evictExpiredLocked c now) = defaultTTL c"
  "staleTTL (evictExpiredLocked c now) = staleTTL c"
  "maxEntries (evictOldestLocked rank c) = maxEntries c"
  "defaultTTL (evictOldestLocked rank c) = defaultTTL c"
  "staleTTL (evictOldestLocked rank c) = staleTTL c"
  by (simp_all add: evictExpiredLocked_def evictOldestLocked_def split: prod.splits)

lemma insert_entry_max [simp]:
  "maxEntries (insert_entry rank key e c) = maxEntries c"
  "defaultTTL (insert_entry rank key e c) = defaultTTL c"
  "staleTTL (insert_entry rank key e c) = staleTTL c"
  by (simp_all add: insert_entry_def Let_def)

lemma insert_entry_ok:
  assumes ok: "cache_ok (Some c)" and key: "key \<noteq> ''''" and e: "entry_ok (defaultTTL c) e"
  shows "cache_ok (Some (insert_entry rank key e c))"
proof -
  let ?c1 = "evictExpiredLocked c (storedAt e)"
  let ?c2 = "if int (length (entries ?c1)) \<ge> maxEntries ?c1 then evictOldestLocked rank ?c1 else ?c1"
  have ok1: "cache_ok (Some ?c1)" by (rule evictExpired_ok [OF ok])
  have ok2: "cache_ok (Some ?c2)" using ok1 evictOldest_ok [OF ok1, of rank] by simp
  have same: "maxEntries ?c2 = maxEntries c" "defaultTTL ?c2 = defaultTTL c"
    by simp_all
  have "int (length (entries ?c2)) < maxEntries ?c2"
    using evictOldest_room [OF ok1, of rank] by simp
  then have room: "length (entries ?c2) < nat (maxEntries ?c2)" by simp
  have "map_ok (entries ?c2)" using ok2 by (simp add: cache_ok_def del: if_split)
  then have "length (map_put key e (entries ?c2)) \<le> nat (maxEntries ?c2)"
    using room by (intro go_map.insert_bounded) simp_all
  moreover have "set (map_put key e (entries ?c2)) \<subseteq> insert (key, e) (set (entries ?c2))"
    by (auto simp: map_put_def map_del_def)
  moreover have "insert_entry rank key e c = ?c2\<lparr>entries := map_put key e (entries ?c2)\<rparr>"
    by (simp add: insert_entry_def Let_def)
  ultimately show ?thesis
    using ok2 key e unfolding same(2) [symmetric]
    by (auto simp: cache_ok_def le_nat_iff simp del: if_split split del: if_split)
qed

lemma insert_entry_get [simp]: "map_get (entries (insert_entry rank key e c)) key = Some e"
  by (simp add: insert_entry_def Let_def go_map_simps)

lemma Store_Some:
  "Store rank (Some c) request response now =
     (case cacheKey request of
        None \<Rightarrow> Some c
      | Some key \<Rightarrow>
          if isCacheableResponse response \<and> 0 < cacheEntryTTL response (defaultTTL c)
          then Some (insert_entry rank key
            \<lparr>message = the response, storedAt = now,
             expiresAt = now + cacheEntryTTL response (defaultTTL c)\<rparr> c)
          else Some c)"
  by (simp add: Store_def isCacheableResponse_def Let_def split: option.splits)

lemma stored_entry_ok:
  assumes "isCacheableResponse (Some r)" and "0 < cacheEntryTTL (Some r) ttl"
  shows "entry_ok ttl \<lparr>message = r, storedAt = now, expiresAt = now + cacheEntryTTL (Some r) ttl\<rparr>"
  using assms by (simp add: entry_ok_def cacheEntryTTL_lifetime)

lemma isCacheable_Some: "isCacheableResponse response \<Longrightarrow> \<exists>r. response = Some r"
  by (cases response) (simp_all add: isCacheableResponse_def)

lemma Store_keeps_ok:
  assumes "cache_ok co"
  shows "cache_ok (Store rank co request response now)"
proof (cases co)
  case None
  then show ?thesis by (simp add: Store_def cache_ok_def)
next
  case (Some c)
  show ?thesis
  proof (cases "isCacheableResponse response \<and> 0 < cacheEntryTTL response (defaultTTL c)")
    case True
    then obtain r where "response = Some r" by (auto dest: isCacheable_Some)
    with True assms Some show ?thesis
      by (auto simp: Store_Some intro!: insert_entry_ok stored_entry_ok cacheKey_nonempty split: option.split)
  next
    case False
    with assms Some show ?thesis by (auto simp: Store_Some split: option.split)
  qed
qed

subsection \<open>Ageing\<close>

text \<open>What is left of a record's TTL after \<open>secs\<close> seconds; a TTL of zero stays zero.\<close>

definition aged_ttl :: "int \<Rightarrow> nat \<Rightarrow> nat" where
  "aged_ttl secs ttl = ttl - nat secs"

lemma ttl_of_age_record: "ttl_of (age_record w r) = ttl_of r - unat w"
  by (auto simp: ttl_of_def age_record_def word_le_nat_alt unat_sub split: option.splits)

lemma ttl_of_stale_record: "ttl_of (stale_record r) = (case header r of None \<Rightarrow> 0 | Some _ \<Rightarrow> 1)"
  by (simp add: ttl_of_def stale_record_def split: option.splits)

lemma all_records_set_request_id [simp]: "all_records (set_id request m) = all_records m"
  by (simp add: set_id_def split: option.splits)

lemma set_id_fields [simp]:
  "rcode (set_id request m) = rcode m" "truncated (set_id request m) = truncated m"
  "questions (set_id request m) = questions m"
  by (simp_all add: set_id_def split: option.splits)

lemma ttls_clone:
  "map ttl_of (all_records (cloneCachedResponse e request now)) =
     map (\<lambda>r. ttl_of r - unat (f_to_u32 (duration_seconds (time_sub now (storedAt e)))))
       (all_records (message e))"
  by (simp add: cloneCachedResponse_def Let_def all_map_records ttl_of_age_record)

lemma extra_set_id [simp]: "extra (set_id request m) = extra m"
  by (simp add: set_id_def split: option.splits)

lemma ttls_clone_extra:
  "map ttl_of (extra (cloneCachedResponse e request now)) =
     map (\<lambda>r. ttl_of r - unat (f_to_u32 (duration_seconds (time_sub now (storedAt e)))))
       (extra (message e))"
  by (simp add: cloneCachedResponse_def Let_def map_records_def ttl_of_age_record)

lemma elapsed_word:
  assumes "0 \<le> d" and "d div second < 2 ^ 23"
  shows "unat (f_to_u32 (duration_seconds d)) = nat (d div second)"
proof -
  have "0 \<le> d div second" using assms(1) by (simp add: second_def)
  then show ?thesis
    using assms by (simp add: f_to_u32_def f_trunc_seconds_exact unsigned_of_int take_bit_int_eq_self)
qed

lemma clone_servable:
  "isCacheableResponse (Some (message e)) \<Longrightarrow> isCacheableResponse (Some (cloneCachedResponse e request now))"
  by (simp add: isCacheableResponse_def cloneCachedResponse_def Let_def split: if_splits)

lemma clone_id [simp]: "msg_id (cloneCachedResponse e (Some q) now) = msg_id q"
  by (simp add: cloneCachedResponse_def Let_def set_id_def)

text \<open>
  An answer as it is served: with the identifier of the question, every TTL in all three
  sections changed by \<open>f\<close>, and nothing else changed.
\<close>

definition with_ttl :: "(nat \<Rightarrow> nat) \<Rightarrow> rr \<Rightarrow> rr" where
  "with_ttl f r = r\<lparr>header := map_option (\<lambda>h. h\<lparr>rr_ttl := of_nat (f (unat (rr_ttl h)))\<rparr>) (header r)\<rparr>"

definition answer_with :: "(nat \<Rightarrow> nat) \<Rightarrow> dns_msg \<Rightarrow> dns_msg \<Rightarrow> dns_msg" where
  "answer_with f q m =
     m\<lparr>msg_id := msg_id q, answer := map (with_ttl f) (answer m), ns := map (with_ttl f) (ns m),
       extra := map (with_ttl f) (extra m)\<rparr>"

lemma with_ttl_same: "(\<And>h. header r = Some h \<Longrightarrow> of_nat (f (unat (rr_ttl h))) = rr_ttl h) \<Longrightarrow> with_ttl f r = r"
  by (cases r; cases "header r") (simp_all add: with_ttl_def)

lemma age_record_with_ttl: "age_record w = with_ttl (\<lambda>ttl. ttl - unat w)"
proof
  fix r
  show "age_record w r = with_ttl (\<lambda>ttl. ttl - unat w) r"
  proof (cases "header r")
    case None
    then show ?thesis by (simp add: age_record_def with_ttl_def)
  next
    case (Some h)
    have left: "rr_ttl h - w = of_nat (unat (rr_ttl h) - unat w)" if "w < rr_ttl h"
    proof -
      have "unat (rr_ttl h) < 2 ^ 32" using unsigned_less [of "rr_ttl h"] by simp
      then have "unat (rr_ttl h) - unat w < 2 ^ 32" by simp
      then have "unat (of_nat (unat (rr_ttl h) - unat w) :: 32 word) = unat (rr_ttl h) - unat w"
        by (simp only: unsigned_of_nat) (simp add: take_bit_nat_eq_self)
      with that show ?thesis by (simp add: word_unat_eq_iff unat_sub)
    qed
    show ?thesis
    proof (cases "rr_ttl h = 0")
      case True
      with Some have "with_ttl (\<lambda>ttl. ttl - unat w) r = r" by (intro with_ttl_same) simp
      with Some True show ?thesis by (simp add: age_record_def)
    next
      case False
      with Some left show ?thesis
        by (auto simp: age_record_def with_ttl_def not_le word_le_nat_alt)
    qed
  qed
qed

lemma stale_record_with_ttl: "stale_record = with_ttl (\<lambda>_. 1)"
  by (rule ext) (simp add: stale_record_def with_ttl_def split: option.split)

lemma map_records_answer: "map_records (with_ttl f) (set_id (Some q) m) = answer_with f q m"
  by (simp add: map_records_def set_id_def answer_with_def)

lemma answer_with_id: "m\<lparr>msg_id := msg_id q\<rparr> = answer_with (\<lambda>ttl. ttl) q m"
proof -
  have "with_ttl (\<lambda>ttl. ttl) r = r" for r by (rule with_ttl_same) simp
  then have "with_ttl (\<lambda>ttl. ttl) = (\<lambda>r. r)" by (rule ext)
  then show ?thesis by (simp add: answer_with_def)
qed

lemma clone_answer:
  assumes "storedAt e \<le> now" and "now < storedAt e + 2 ^ 23 * second"
  shows "cloneCachedResponse e (Some q) now =
    answer_with (\<lambda>ttl. ttl - nat ((now - storedAt e) div second)) q (message e)"
proof -
  let ?d = "now - storedAt e"
  have d: "0 \<le> ?d" "?d div second < 2 ^ 23" using assms by (simp_all add: second_def)
  have "time_sub now (storedAt e) = ?d"
    using assms by (intro time_sub_exact) (simp_all add: min_int64_def max_int64_def second_def)
  with elapsed_word [OF d] have
    w: "unat (f_to_u32 (duration_seconds (time_sub now (storedAt e)))) = nat (?d div second)" by simp
  show ?thesis
  proof (cases "f_to_u32 (duration_seconds (time_sub now (storedAt e))) = 0")
    case True
    then have "nat (?d div second) = 0" using w by simp
    then show ?thesis using True by (simp add: cloneCachedResponse_def set_id_def answer_with_id)
  next
    case False
    then show ?thesis by (simp add: cloneCachedResponse_def Let_def age_record_with_ttl map_records_answer w)
  qed
qed

subsection \<open>Lookups\<close>

lemma Get_SomeD:
  assumes "Get (Some c) request now = Some m"
  obtains key e where "cacheKey request = Some key" and "map_get (entries c) key = Some e"
    and "now < expiresAt e" and "m = cloneCachedResponse e request now"
  using assms that by (auto simp: Get_def split: option.splits if_splits)

lemma GetStale_SomeD:
  assumes "GetStale (Some c) request now = Some m"
  obtains key e where "cacheKey request = Some key" and "map_get (entries c) key = Some e"
    and "time_sub now (expiresAt e) \<le> staleTTL c \<or> now < expiresAt e"
    and "m = (if now < expiresAt e then cloneCachedResponse e request now
              else map_records stale_record (set_id request (message e)))"
  using assms that by (auto simp: GetStale_def not_less split: option.splits if_splits)

lemma Get_servable:
  assumes "cache_ok co" and "Get co request now = Some m"
  shows "isCacheableResponse (Some m)"
proof -
  obtain c where c: "co = Some c" using assms(2) by (cases co) (simp_all add: Get_def)
  from assms(2) [unfolded c] obtain key e where "map_get (entries c) key = Some e"
    and m: "m = cloneCachedResponse e request now" by (rule Get_SomeD)
  with assms(1) c have "entry_ok (defaultTTL c) e" by (blast dest: cache_ok_entry)
  with m show ?thesis by (simp add: entry_ok_def clone_servable)
qed

lemma GetStale_servable:
  assumes "cache_ok co" and "GetStale co request now = Some m"
  shows "isCacheableResponse (Some m)"
proof -
  obtain c where c: "co = Some c" using assms(2) by (cases co) (simp_all add: GetStale_def)
  from assms(2) [unfolded c] obtain key e where "map_get (entries c) key = Some e"
    and m: "m = (if now < expiresAt e then cloneCachedResponse e request now
              else map_records stale_record (set_id request (message e)))"
    by (rule GetStale_SomeD)
  with assms(1) c have ok: "entry_ok (defaultTTL c) e" by (blast dest: cache_ok_entry)
  then have "isCacheableResponse (Some (message e))" by (simp add: entry_ok_def)
  with m show ?thesis
    by (auto simp: clone_servable) (simp add: isCacheableResponse_def split: if_splits)
qed

lemma stale_expired_iff:
  "staleTTL c = defaultStaleTTL \<Longrightarrow> staleTTL c < time_sub now t \<longleftrightarrow> t + defaultStaleTTL < now"
  by (simp add: time_sub_gt_iff defaultStaleTTL_def minute_def max_int64_def) linarith

text \<open>
  The contract of a cache of answers, as the proxy sees it: saving keeps it in order, and
  whatever it hands out, fresh or stale, is a complete success.
\<close>

locale answer_cache =
  fixes fetch :: "'c \<Rightarrow> dns_msg option \<Rightarrow> time \<Rightarrow> dns_msg option"
    and fetch_stale :: "'c \<Rightarrow> dns_msg option \<Rightarrow> time \<Rightarrow> dns_msg option"
    and save :: "'c \<Rightarrow> dns_msg option \<Rightarrow> dns_msg option \<Rightarrow> time \<Rightarrow> 'c"
    and in_order :: "'c \<Rightarrow> bool"
    and servable :: "dns_msg \<Rightarrow> bool"
  assumes save_in_order: "in_order c \<Longrightarrow> in_order (save c q r t)"
    and fetch_servable: "in_order c \<Longrightarrow> fetch c q t = Some m \<Longrightarrow> servable m"
    and fetch_stale_servable: "in_order c \<Longrightarrow> fetch_stale c q t = Some m \<Longrightarrow> servable m"
begin

definition saves :: "(dns_msg option \<times> dns_msg option \<times> time) list \<Rightarrow> 'c \<Rightarrow> 'c" where
  "saves ops c = foldl (\<lambda>c (q, r, t). save c q r t) c ops"

lemma saves_in_order: "in_order c \<Longrightarrow> in_order (saves ops c)"
  unfolding saves_def by (induction ops arbitrary: c) (auto simp: save_in_order)

lemma served_after_saves:
  "in_order c \<Longrightarrow> fetch (saves ops c) q t = Some m \<or> fetch_stale (saves ops c) q t = Some m \<Longrightarrow> servable m"
  using saves_in_order fetch_servable fetch_stale_servable by blast

end

interpretation proxy_cache: answer_cache Get GetStale "Store rank" cache_ok "\<lambda>m. isCacheableResponse (Some m)"
  for rank
  by unfold_locales (auto intro: Store_keeps_ok Get_servable GetStale_servable)

lemma lookup_after_store:
  fixes rank :: "string \<Rightarrow> nat" and now :: time
  assumes "cache_ok (Some c)" and "cacheKey request = Some key" and "cacheKey request' = Some key"
    and "isCacheableResponse (Some r)" and "0 < cacheEntryTTL (Some r) (defaultTTL c)"
  defines "stored \<equiv> Store rank (Some c) request (Some r) now"
    and "expiry \<equiv> now + cacheEntryTTL (Some r) (defaultTTL c)"
    and "entry \<equiv> \<lparr>message = r, storedAt = now, expiresAt = now + cacheEntryTTL (Some r) (defaultTTL c)\<rparr>"
  shows "Get stored request' t =
      (if t < expiry then Some (cloneCachedResponse entry request' t) else None) \<and>
    GetStale stored request' t =
      (if t < expiry then Some (cloneCachedResponse entry request' t)
       else if t \<le> expiry + defaultStaleTTL then Some (map_records stale_record (set_id request' r))
       else None)"
proof -
  have stored: "stored = Some (insert_entry rank key entry c)"
    using assms(2,4,5) by (simp add: stored_def Store_Some entry_def)
  have fields: "expiresAt entry = expiry" "message entry = r"
    by (simp_all add: entry_def expiry_def)
  have "staleTTL c = defaultStaleTTL"
    using assms(1) by (simp add: cache_ok_def)
  note stale = stale_expired_iff [OF this]
  show ?thesis
    by (simp add: stored Get_def GetStale_def assms(3) fields stale)
qed

text \<open>
  Storing the answer to another question leaves an entry in its place, as long as it is not past
  the stale window and there is room.
\<close>

lemma Store_keeps_entry:
  assumes "cache_ok (Some c)" and "map_get (entries c) key = Some entry"
    and "int (length (entries c)) < maxEntries c" and "now \<le> expiresAt entry + defaultStaleTTL"
    and "cacheKey request \<noteq> Some key"
  shows "\<exists>c'. Store rank (Some c) request response now = Some c' \<and> map_get (entries c') key = Some entry \<and>
    maxEntries c' = maxEntries c \<and> length (entries c') \<le> Suc (length (entries c))"
proof -
  have ok: "map_ok (entries c)" and st: "staleTTL c = defaultStaleTTL"
    using assms(1) by (simp_all add: cache_ok_def)
  have kept: "\<not> staleTTL c < time_sub now (expiresAt entry)" using assms(4) stale_expired_iff [OF st] by simp
  have few: "length (entries (evictExpiredLocked c now)) \<le> length (entries c)"
    by (simp add: evictExpiredLocked_def length_map_keep_le)
  have put: "map_get (entries (insert_entry rank key' e c)) key = Some entry \<and>
      maxEntries (insert_entry rank key' e c) = maxEntries c \<and>
      length (entries (insert_entry rank key' e c)) \<le> Suc (length (entries c))"
    if "key' \<noteq> key" "storedAt e = now" for key' e
    using that few assms(2,3) kept
      le_trans [OF length_map_put_le [of key' e "entries (evictExpiredLocked c now)"], of "Suc (length (entries c))"]
    by (simp add: insert_entry_def Let_def map_get_put) (simp add: evictExpiredLocked_def map_get_keep [OF ok])
  show ?thesis
    using assms(2,5) put by (auto simp: Store_Some split: option.split)
qed

subsection \<open>Properties\<close>

text \<open>
  Two questions share a cache key exactly when their names agree up to case and their
  types and classes agree: the key joins its fields with bars, and no name, whatever bytes it
  holds, makes it collide with the key of another question.
\<close>

theorem cacheKey_eq_iff:
  "cacheKey (Some (m\<lparr>questions := q # qs\<rparr>)) = cacheKey (Some (m'\<lparr>questions := q' # qs'\<rparr>)) \<longleftrightarrow>
     to_lower (qname q) = to_lower (qname q') \<and> qtype q = qtype q' \<and> qclass q = qclass q'"
proof
  assume "cacheKey (Some (m\<lparr>questions := q # qs\<rparr>)) = cacheKey (Some (m'\<lparr>questions := q' # qs'\<rparr>))"
  then have eq: "(to_lower (qname q) @ ''|'' @ itoa (uint (qtype q))) @ CHR ''|'' # itoa (uint (qclass q)) =
      (to_lower (qname q') @ ''|'' @ itoa (uint (qtype q'))) @ CHR ''|'' # itoa (uint (qclass q'))"
    by (simp add: cacheKey_def)
  from split_at_last [OF eq] have cls: "itoa (uint (qclass q)) = itoa (uint (qclass q'))"
    and front: "to_lower (qname q) @ CHR ''|'' # itoa (uint (qtype q)) =
      to_lower (qname q') @ CHR ''|'' # itoa (uint (qtype q'))"
    by simp_all
  from split_at_last [OF front] have "to_lower (qname q) = to_lower (qname q')"
    and "itoa (uint (qtype q)) = itoa (uint (qtype q'))"
    by simp_all
  with cls show "to_lower (qname q) = to_lower (qname q') \<and> qtype q = qtype q' \<and> qclass q = qclass q'"
    by (simp add: itoa_uint_inj)
qed (simp add: cacheKey_def)

text \<open>
  C28. Storing an answer keeps the cache in order: distinct keys, never more entries than its
  capacity, every entry a complete success that expires after the least positive TTL of its
  records (records of TTL 0 do not count; without any other, after the default), whatever order
  the runtime enumerates the map in when it evicts.
\<close>

theorem Store_preserves_cache_ok:
  assumes "cache_ok co"
  shows "cache_ok (Store rank co request response now)"
  using assms by (rule Store_keeps_ok)

definition sample_msg :: "nat \<Rightarrow> dns_msg" where
  "sample_msg ttl =
     \<lparr>msg_id = 7, rcode = 0, truncated = False,
      questions = [\<lparr>qname = ''A.b.'', qtype = 1, qclass = 1\<rparr>],
      answer = [\<lparr>header = Some \<lparr>rr_name = ''a.b.'', rr_type = 1, rr_ttl = of_nat ttl\<rparr>, rdata = ''x''\<rparr>],
      ns = [], extra = []\<rparr>"

definition sample_cache :: responseCache where
  "sample_cache = \<lparr>entries = [], maxEntries = 1, defaultTTL = 30 * second, staleTTL = defaultStaleTTL\<rparr>"

lemma sample_cache_ok: "cache_ok (Some sample_cache)"
  by (simp add: sample_cache_def cache_ok_def)

theorem Store_preserves_cache_ok_witness:
  "cache_ok (Store (\<lambda>_. 0) (Some sample_cache) (Some (sample_msg 0)) (Some (sample_msg 60)) 0)"
  by (rule Store_preserves_cache_ok [OF sample_cache_ok])

text \<open>
  C27. The life of an answer after it was stored, for any question with the same key.  Until it
  expires, after the least positive TTL of its records or the default, both lookups return it with
  the identifier of the new question and every TTL less by the whole seconds since it was stored,
  down to 0 (for answers kept less than 97 days, where \<open>float64\<close> seconds are exact); for five more
  minutes only the stale lookup returns it, every TTL set to 1; after that it is gone, even if
  nothing evicted it.
\<close>

theorem Store_then_lookup:
  fixes rank :: "string \<Rightarrow> nat" and now :: time
  assumes "cache_ok (Some c)" and "cacheKey request = Some key" and "cacheKey (Some q) = Some key"
    and "isCacheableResponse (Some r)" and "0 < lifetime (defaultTTL c) r" and "now \<le> t"
  defines "stored \<equiv> Store rank (Some c) request (Some r) now"
    and "expiry \<equiv> now + lifetime (defaultTTL c) r"
  shows "(t < expiry \<longrightarrow>
      (\<exists>a. Get stored (Some q) t = Some a \<and> GetStale stored (Some q) t = Some a \<and> msg_id a = msg_id q \<and>
        (t < now + 2 ^ 23 * second \<longrightarrow> a = answer_with (\<lambda>ttl. ttl - nat ((t - now) div second)) q r))) \<and>
    (expiry \<le> t \<longrightarrow>
      Get stored (Some q) t = None \<and>
      GetStale stored (Some q) t = (if t \<le> expiry + 5 * minute then Some (answer_with (\<lambda>_. 1) q r) else None))"
proof -
  let ?e = "\<lparr>message = r, storedAt = now, expiresAt = expiry\<rparr>"
  have "0 < cacheEntryTTL (Some r) (defaultTTL c)" using assms(5) by (simp add: cacheEntryTTL_lifetime)
  note l = lookup_after_store [OF assms(1-4) this, of rank now t, unfolded cacheEntryTTL_lifetime,
      folded stored_def expiry_def]
  have "cloneCachedResponse ?e (Some q) t = answer_with (\<lambda>ttl. ttl - nat ((t - now) div second)) q r"
    if "t < now + 2 ^ 23 * second"
    using clone_answer [of ?e t q] that assms(6) by simp
  then show ?thesis
    using l by (simp add: stale_record_with_ttl map_records_answer defaultStaleTTL_def)
qed

lemma sample_lifetime: "lifetime dflt (sample_msg 60) = 60 * second"
  by (simp add: lifetime_def positive_ttls_def sample_msg_def all_records_def ttl_of_def)

theorem Store_then_lookup_witness:
  "map_option (\<lambda>a. map ttl_of (all_records a))
     (Get (Store (\<lambda>_. 0) (Some sample_cache) (Some (sample_msg 0)) (Some (sample_msg 60)) 0)
        (Some (sample_msg 0)) (59 * second)) = Some [1]"
proof -
  have key: "cacheKey (Some (sample_msg 0)) = Some ''a.b.|1|1''"
    by code_simp
  have cacheable: "isCacheableResponse (Some (sample_msg 60))"
    by (simp add: isCacheableResponse_def sample_msg_def RcodeSuccess_def)
  have "0 < lifetime (defaultTTL sample_cache) (sample_msg 60)" "(0 :: time) \<le> 59 * second"
    by (simp_all add: sample_lifetime second_def)
  from Store_then_lookup [OF sample_cache_ok key key cacheable this, where rank = "\<lambda>_. 0"]
  have "Get (Store (\<lambda>_. 0) (Some sample_cache) (Some (sample_msg 0)) (Some (sample_msg 60)) 0)
      (Some (sample_msg 0)) (59 * second) = Some (answer_with (\<lambda>ttl. ttl - 59) (sample_msg 0) (sample_msg 60))"
    by (auto simp: sample_lifetime second_def)
  then show ?thesis
    by (simp add: answer_with_def all_records_def) (simp add: sample_msg_def with_ttl_def ttl_of_def)
qed

text \<open>
  Serving a fresh answer: when the lifetime of the entry comes from its records and is
  shorter than \<open>2 ^ 23\<close> seconds (97 days), the TTL of each record served is the stored TTL
  less the whole seconds since it was stored, and no TTL that was positive has reached zero;
  the rounding of \<open>float64\<close> seconds never shows.
\<close>

theorem fresh_answer_ttls:
  assumes "entry_ok dflt e" and "storedAt e \<le> now" and "now < expiresAt e"
    and "0 < minResponseTTL (Some (message e))" and "expiresAt e - storedAt e < 2 ^ 23 * second"
  defines "secs \<equiv> (now - storedAt e) div second"
  shows "map ttl_of (all_records (cloneCachedResponse e request now)) =
      map (\<lambda>r. aged_ttl secs (ttl_of r)) (all_records (message e)) \<and>
    (\<forall>r. r \<in> set (all_records (message e)) \<and> ttl_of r \<noteq> 0 \<longrightarrow> 0 < aged_ttl secs (ttl_of r))"
proof -
  let ?d = "now - storedAt e"
  have d: "0 \<le> ?d" and lt: "?d < 2 ^ 23 * second" using assms(2,3,5) by simp_all
  then have sub: "time_sub now (storedAt e) = ?d"
    by (intro time_sub_exact) (simp_all add: min_int64_def max_int64_def second_def)
  have "secs < 2 ^ 23" using lt by (simp add: secs_def second_def)
  then have w: "unat (f_to_u32 (duration_seconds (time_sub now (storedAt e)))) = nat secs"
    using elapsed_word [OF d] by (simp add: sub secs_def)
  have pos: "0 < aged_ttl secs (ttl_of r)" if "r \<in> set (all_records (message e))" "ttl_of r \<noteq> 0" for r
  proof -
    have "?d < minResponseTTL (Some (message e))"
      using assms(1,3,4) by (simp add: entry_ok_def cacheEntryTTL_lifetime [symmetric] cacheEntryTTL_def)
    also have "\<dots> \<le> int (ttl_of r) * second" by (rule minResponseTTL_le(2) [OF that])
    finally have "secs < int (ttl_of r)" by (simp add: secs_def second_def)
    then show ?thesis using d by (simp add: aged_ttl_def secs_def second_def pos_imp_zdiv_nonneg_iff)
  qed
  then show ?thesis by (simp add: ttls_clone w aged_ttl_def)
qed

definition sample_entry :: cachedResponse where
  "sample_entry = \<lparr>message = sample_msg 60, storedAt = 0, expiresAt = 60 * second\<rparr>"

theorem fresh_answer_ttls_witness:
  "map ttl_of (all_records (cloneCachedResponse sample_entry None (59 * second))) = [1]"
proof -
  have m: "minResponseTTL (Some (sample_msg 60)) = 60 * second"
    by (simp add: minResponseTTL_def sample_msg_def all_records_def wrap64_def second_def)
  then have "entry_ok second sample_entry"
    by (simp add: entry_ok_def sample_entry_def isCacheableResponse_def RcodeSuccess_def sample_lifetime)
      (simp add: sample_msg_def second_def)
  from fresh_answer_ttls [OF this, of "59 * second" None] m show ?thesis
    by (simp add: sample_entry_def second_def aged_ttl_def)
      (simp add: sample_msg_def all_records_def ttl_of_def aged_ttl_def)
qed

text \<open>
  When the cache is full the entry evicted is one that expires first, for every order in
  which the runtime enumerates the map; every other entry stays.
\<close>

theorem evictOldest_least:
  assumes "cache_ok (Some c)" and "entries c \<noteq> []"
  shows "\<exists>k e. map_get (entries c) k = Some e \<and>
    (\<forall>k' e'. map_get (entries c) k' = Some e' \<longrightarrow> expiresAt e \<le> expiresAt e') \<and>
    (\<forall>k'. map_get (entries (evictOldestLocked rank c)) k' =
       (if k' = k then None else map_get (entries c) k'))"
proof -
  have "map_ok (entries c)" and "\<forall>k \<in> fst ` set (entries c). k \<noteq> ''''"
    using assms(1) by (auto simp: cache_ok_def)
  from evictOldest_cases [OF this, of rank] assms(2) obtain k e where
    "map_get (entries c) k = Some e" and "evictOldestLocked rank c = c\<lparr>entries := map_del k (entries c)\<rparr>"
    and "\<forall>k' e'. map_get (entries c) k' = Some e' \<longrightarrow> expiresAt e \<le> expiresAt e'"
    by blast
  then show ?thesis by (intro exI [of _ k] exI [of _ e]) (simp add: go_map_simps)
qed

definition full_cache :: responseCache where
  "full_cache = sample_cache\<lparr>entries := [(''k'', sample_entry)]\<rparr>"

lemma sample_min_ttl: "minResponseTTL (Some (sample_msg 60)) = 60 * second"
  by (simp add: minResponseTTL_def sample_msg_def all_records_def wrap64_def second_def)

lemma sample_entry_ok: "entry_ok ttl sample_entry"
  by (simp add: entry_ok_def sample_entry_def isCacheableResponse_def RcodeSuccess_def sample_lifetime)
    (simp add: sample_msg_def second_def)

lemma full_cache_ok: "cache_ok (Some full_cache)"
  by (simp add: cache_ok_def full_cache_def sample_cache_def sample_entry_ok map_ok_def)

theorem evictOldest_least_witness:
  "\<exists>k e. map_get (entries full_cache) k = Some e \<and>
     map_get (entries (evictOldestLocked (\<lambda>_. 0) full_cache)) k = None"
proof -
  have "entries full_cache \<noteq> []" by (simp add: full_cache_def)
  from evictOldest_least [OF full_cache_ok this, of "\<lambda>_. 0"] show ?thesis by force
qed

text \<open>
  Dropping the entries that are past the stale window changes no answer: at that instant
  and ever after, both lookups return what they would have returned without it.
\<close>

theorem evictExpired_invisible:
  assumes "cache_ok (Some c)" and "now \<le> t"
  shows "Get (Some (evictExpiredLocked c now)) request t = Get (Some c) request t \<and>
    GetStale (Some (evictExpiredLocked c now)) request t = GetStale (Some c) request t"
proof (cases "cacheKey request")
  case None
  then show ?thesis by (simp add: Get_def GetStale_def)
next
  case (Some key)
  have ok: "map_ok (entries c)" and st: "staleTTL c = defaultStaleTTL"
    using assms(1) by (simp_all add: cache_ok_def)
  have "0 < defaultStaleTTL" by (simp add: defaultStaleTTL_def minute_def)
  with Some assms(2) show ?thesis
    by (cases "map_get (entries c) key")
      (auto simp: Get_def GetStale_def evictExpiredLocked_def map_get_keep [OF ok]
        stale_expired_iff [OF st])
qed

theorem evictExpired_invisible_witness:
  "Get (Some (evictExpiredLocked full_cache 0)) (Some (sample_msg 0)) second =
     Get (Some full_cache) (Some (sample_msg 0)) second"
  using evictExpired_invisible [OF full_cache_ok, of 0 second "Some (sample_msg 0)"]
  by (simp add: second_def)

text \<open>
  An answer none of whose records may be cached (every TTL is zero) is cached all the
  same and served for the default lifetime.
\<close>

theorem zero_ttl_answer_is_cached:
  assumes "cache_ok (Some c)" and "cacheKey request = Some key" and "isCacheableResponse (Some r)"
    and "\<forall>record \<in> set (all_records r). ttl_of record = 0" and "0 < defaultTTL c"
    and "now \<le> t" and "t < now + defaultTTL c"
  shows "Get (Store rank (Some c) request (Some r) now) request t \<noteq> None"
proof -
  have "minResponseTTL (Some r) = 0" using assms(4) by (intro minResponseTTL_none) blast
  then have ttl: "cacheEntryTTL (Some r) (defaultTTL c) = defaultTTL c" by (simp add: cacheEntryTTL_def)
  then have "0 < cacheEntryTTL (Some r) (defaultTTL c)" using assms(5) by simp
  from lookup_after_store [OF assms(1,2,2,3) this, of rank now t] assms(7) ttl show ?thesis by simp
qed

theorem zero_ttl_answer_is_cached_witness:
  "Get (Store (\<lambda>_. 0) (Some sample_cache) (Some (sample_msg 0)) (Some (sample_msg 0)) 0)
     (Some (sample_msg 0)) (29 * second) \<noteq> None"
proof -
  have key: "cacheKey (Some (sample_msg 0)) = Some ''a.b.|1|1''" by code_simp
  have "isCacheableResponse (Some (sample_msg 0))"
    by (simp add: isCacheableResponse_def sample_msg_def RcodeSuccess_def)
  moreover have "\<forall>record \<in> set (all_records (sample_msg 0)). ttl_of record = 0"
    by (simp add: all_records_def sample_msg_def ttl_of_def)
  ultimately show ?thesis
    by (intro zero_ttl_answer_is_cached [OF sample_cache_ok key])
      (simp_all add: sample_cache_def second_def)
qed

text \<open>
  Ageing does not spare the OPT pseudo record, whose TTL field holds the EDNS flags: a
  cached answer is served with those flags reduced by the seconds it has been cached, and
  with the value 1 when it is stale.
\<close>

theorem OPT_flags_are_aged:
  assumes "extra (message e) = [opt]" and "header opt = Some h" and "rr_type h = TypeOPT"
    and "storedAt e \<le> now" and "(now - storedAt e) div second < 2 ^ 23"
  shows "map ttl_of (extra (cloneCachedResponse e request now)) =
      [unat (rr_ttl h) - nat ((now - storedAt e) div second)] \<and>
    map ttl_of (extra (map_records stale_record (message e))) = [1]"
proof -
  have d: "0 \<le> now - storedAt e" using assms(4) by simp
  have "time_sub now (storedAt e) = now - storedAt e"
    using assms(4,5) by (intro time_sub_exact) (simp_all add: min_int64_def max_int64_def second_def)
  with elapsed_word [OF d assms(5)] have w:
    "unat (f_to_u32 (duration_seconds (time_sub now (storedAt e)))) = nat ((now - storedAt e) div second)"
    by simp
  with assms(1,2) show ?thesis
    by (simp add: ttls_clone_extra map_records_def ttl_of_stale_record) (simp add: ttl_of_def)
qed

definition opt_entry :: cachedResponse where
  "opt_entry = sample_entry\<lparr>message := (sample_msg 60)\<lparr>extra :=
     [\<lparr>header = Some \<lparr>rr_name = ''.'', rr_type = TypeOPT, rr_ttl = 32768\<rparr>, rdata = ''''\<rparr>]\<rparr>\<rparr>"

theorem OPT_flags_are_aged_witness:
  "map ttl_of (extra (cloneCachedResponse opt_entry None second)) = [32767]"
  using OPT_flags_are_aged [of opt_entry _ _ second None]
  by (simp add: opt_entry_def sample_entry_def second_def)

end
