(* ===== verification/ProxyConfig.thy ===== *)
theory ProxyConfig
  imports DnsMsg GoFloat
begin

section \<open>The configuration of the proxy\<close>

text \<open>
  \<open>ProxyConfig\<close> of \<open>pkg/proxy/proxy.go\<close> and the defaults that \<open>New\<close> fills in.  Of the callback
  \<open>OnEventDrop\<close> the model records whether it is set.
\<close>

record ProxyConfig =
  ListenAddr :: string
  EngineAddr :: string
  QueryTimeout :: duration
  EngineConnectionPoolSize :: int
  EventChanSize :: int
  CacheMaxEntries :: int
  CacheDefaultTTL :: duration
  OnEventDrop :: bool
  GlobalRateLimitRPS :: f64
  GlobalRateLimitBurst :: int
  PerSourceRateLimitRPS :: f64
  PerSourceRateLimitBurst :: int
  PerSourceRateLimitStateTTL :: duration
  PerSourceRateLimitMaxSources :: int
  DomainFilterAllow :: "string list"
  DomainFilterDeny :: "string list"
  DomainFilterDenyRcode :: int
  FallbackUpstreams :: "string list"

definition defaultGlobalRateLimitRPS :: f64 where "defaultGlobalRateLimitRPS = 2000"
definition defaultGlobalRateLimitBurst :: int where "defaultGlobalRateLimitBurst = 4000"
definition defaultPerSourceRateLimitRPS :: f64 where "defaultPerSourceRateLimitRPS = 200"
definition defaultPerSourceRateLimitBurst :: int where "defaultPerSourceRateLimitBurst = 400"
definition defaultPerSourceRateLimitStateTTL :: duration where
  "defaultPerSourceRateLimitStateTTL = 5 * minute"
definition defaultPerSourceRateLimitMaxSources :: int where
  "defaultPerSourceRateLimitMaxSources = 10000"
definition defaultEngineConnPoolSize :: int where "defaultEngineConnPoolSize = 64"
definition defaultProxyCacheMaxEntries :: int where "defaultProxyCacheMaxEntries = 10000"
definition defaultProxyCacheTTL :: duration where "defaultProxyCacheTTL = 30 * second"

definition or_default :: "'a::{zero,linorder} \<Rightarrow> 'a \<Rightarrow> 'a" where
  "or_default x d = (if x \<le> 0 then d else x)"

definition withDefaults :: "ProxyConfig \<Rightarrow> ProxyConfig" where
  "withDefaults cfg = cfg\<lparr>
     ListenAddr := (if ListenAddr cfg = '''' then ''0.0.0.0:5353'' else ListenAddr cfg),
     EngineAddr := (if EngineAddr cfg = '''' then ''127.0.0.1:5354'' else EngineAddr cfg),
     QueryTimeout := or_default (QueryTimeout cfg) (2 * second),
     EngineConnectionPoolSize := or_default (EngineConnectionPoolSize cfg) defaultEngineConnPoolSize,
     EventChanSize := or_default (EventChanSize cfg) 10000,
     CacheMaxEntries := or_default (CacheMaxEntries cfg) defaultProxyCacheMaxEntries,
     CacheDefaultTTL := or_default (CacheDefaultTTL cfg) defaultProxyCacheTTL,
     GlobalRateLimitRPS := or_default (GlobalRateLimitRPS cfg) defaultGlobalRateLimitRPS,
     GlobalRateLimitBurst := or_default (GlobalRateLimitBurst cfg) defaultGlobalRateLimitBurst,
     PerSourceRateLimitRPS := or_default (PerSourceRateLimitRPS cfg) defaultPerSourceRateLimitRPS,
     PerSourceRateLimitBurst := or_default (PerSourceRateLimitBurst cfg) defaultPerSourceRateLimitBurst,
     PerSourceRateLimitStateTTL :=
       or_default (PerSourceRateLimitStateTTL cfg) defaultPerSourceRateLimitStateTTL,
     PerSourceRateLimitMaxSources :=
       or_default (PerSourceRateLimitMaxSources cfg) defaultPerSourceRateLimitMaxSources\<rparr>"

lemma or_default_pos: "0 < d \<Longrightarrow> 0 < or_default x d"
  by (simp add: or_default_def not_le)

lemma withDefaults_pos:
  "0 < QueryTimeout (withDefaults cfg)" "0 < EngineConnectionPoolSize (withDefaults cfg)"
  "0 < EventChanSize (withDefaults cfg)" "0 < CacheMaxEntries (withDefaults cfg)"
  "0 < CacheDefaultTTL (withDefaults cfg)" "0 < GlobalRateLimitRPS (withDefaults cfg)"
  "0 < GlobalRateLimitBurst (withDefaults cfg)" "0 < PerSourceRateLimitRPS (withDefaults cfg)"
  "0 < PerSourceRateLimitBurst (withDefaults cfg)" "0 < PerSourceRateLimitStateTTL (withDefaults cfg)"
  "0 < PerSourceRateLimitMaxSources (withDefaults cfg)"
  by (simp_all add: withDefaults_def or_default_pos second_def minute_def
      defaultEngineConnPoolSize_def defaultProxyCacheMaxEntries_def defaultProxyCacheTTL_def
      defaultGlobalRateLimitRPS_def defaultGlobalRateLimitBurst_def defaultPerSourceRateLimitRPS_def
      defaultPerSourceRateLimitBurst_def defaultPerSourceRateLimitStateTTL_def
      defaultPerSourceRateLimitMaxSources_def)

end
