(* ===== verification/RateLimiter.thy ===== *)
theory RateLimiter
  imports ProxyConfig
begin

section \<open>Rate limiting\<close>

text \<open>
  The token buckets and the request limiter of \<open>pkg/proxy/proxy.go\<close>.  A bucket reached through
  a pointer is named by a \<open>bucket_ref\<close>, so that charging it changes the limiter that owns it.
  Each call runs to its end before the next; the code takes the locks of the limiter and of
  the bucket one after the other, so there a cleanup may fall between finding a bucket and
  charging it.  Charging a nil bucket would be a nil dereference; such a call is \<open>None\<close>.
\<close>

subsection \<open>The model\<close>

record tokenBucket =
  rate :: f64
  burst :: f64
  tokens :: f64
  lastRefill :: time

definition newTokenBucket :: "f64 \<Rightarrow> int \<Rightarrow> time \<Rightarrow> tokenBucket option" where
  "newTokenBucket rateLimitRPS b now =
     (if rateLimitRPS \<le> 0 \<or> b \<le> 0 then None
      else
        let burstFloat = f_of_int b
        in Some \<lparr>rate = rateLimitRPS, burst = burstFloat, tokens = burstFloat, lastRefill = now\<rparr>)"

definition refill :: "tokenBucket \<Rightarrow> time \<Rightarrow> tokenBucket" where
  "refill b now =
     (let b1 = (if now < lastRefill b then b\<lparr>lastRefill := now\<rparr> else b);
          elapsedSeconds = duration_seconds (time_sub now (lastRefill b1))
      in if elapsedSeconds > 0
         then
           let t = fadd (tokens b1) (fmul elapsedSeconds (rate b1))
           in b1\<lparr>tokens := (if t > burst b1 then burst b1 else t), lastRefill := now\<rparr>
         else b1)"

definition bucketAllow :: "tokenBucket \<Rightarrow> time \<Rightarrow> bool \<times> tokenBucket" where
  "bucketAllow b now =
     (let b2 = refill b now
      in if tokens b2 < 1 then (False, b2)
         else (True, b2\<lparr>tokens := fsub (tokens b2) 1\<rparr>))"

record perSourceLimiter =
  bucket :: tokenBucket
  lastSeen :: time

record requestLimiter =
  globalBucket :: "tokenBucket option"
  perSourceRate :: f64
  perSourceBurst :: int
  stateTTL :: duration
  maxSources :: int
  overflow :: "tokenBucket option"
  perSource :: "(string, perSourceLimiter) go_map option"
  requestCount :: "64 word"

definition newRequestLimiter :: "ProxyConfig \<Rightarrow> time \<Rightarrow> requestLimiter option" where
  "newRequestLimiter cfg now =
     (let globalLimiter = newTokenBucket (GlobalRateLimitRPS cfg) (GlobalRateLimitBurst cfg) now;
          perSourceOverflow = newTokenBucket (PerSourceRateLimitRPS cfg) (PerSourceRateLimitBurst cfg) now
      in if globalLimiter = None \<and> perSourceOverflow = None then None
         else
           let r = \<lparr>globalBucket = globalLimiter, perSourceRate = 0, perSourceBurst = 0, stateTTL = 0,
                    maxSources = 0, overflow = None, perSource = None, requestCount = 0\<rparr>
           in if perSourceOverflow \<noteq> None
              then Some (r\<lparr>perSourceRate := PerSourceRateLimitRPS cfg,
                perSourceBurst := PerSourceRateLimitBurst cfg,
                stateTTL := PerSourceRateLimitStateTTL cfg,
                maxSources := PerSourceRateLimitMaxSources cfg,
                overflow := perSourceOverflow,
                perSource := Some []\<rparr>)
              else Some r)"

datatype bucket_ref = Overflow | Source string

definition cleanupExpired ::
  "duration \<Rightarrow> time \<Rightarrow> (string, perSourceLimiter) go_map \<Rightarrow> (string, perSourceLimiter) go_map" where
  "cleanupExpired ttl now sources =
     (if ttl \<le> 0 then sources
      else map_keep (\<lambda>_ entry. \<not> (time_sub now (lastSeen entry) > ttl)) sources)"

definition sourceKey :: "string \<Rightarrow> string" where
  "sourceKey source = (if source = '''' then ''unknown'' else source)"

definition lookupPerSourceBucket ::
  "requestLimiter \<Rightarrow> (string, perSourceLimiter) go_map \<Rightarrow> string \<Rightarrow> time \<Rightarrow> bucket_ref \<times> requestLimiter" where
  "lookupPerSourceBucket r sources source now =
     (let key = sourceKey source;
          count = requestCount r + 1;
          s1 = (if count mod 256 = 0 then cleanupExpired (stateTTL r) now sources else sources);
          r1 = r\<lparr>requestCount := count, perSource := Some s1\<rparr>
      in case map_get s1 key of
           Some existing \<Rightarrow>
             (Source key, r1\<lparr>perSource := Some (map_put key (existing\<lparr>lastSeen := now\<rparr>) s1)\<rparr>)
         | None \<Rightarrow>
             (let s2 = (if int (length s1) \<ge> maxSources r then cleanupExpired (stateTTL r) now s1 else s1);
                  r2 = r1\<lparr>perSource := Some s2\<rparr>
              in if int (length s2) \<ge> maxSources r then (Overflow, r2)
                 else case newTokenBucket (perSourceRate r) (perSourceBurst r) now of
                        None \<Rightarrow> (Overflow, r2)
                      | Some b \<Rightarrow>
                          (Source key,
                           r2\<lparr>perSource := Some (map_put key \<lparr>bucket = b, lastSeen = now\<rparr> s2)\<rparr>)))"

definition chargeBucket :: "requestLimiter \<Rightarrow> bucket_ref \<Rightarrow> time \<Rightarrow> (bool \<times> requestLimiter) option" where
  "chargeBucket r ref now =
     (case ref of
        Overflow \<Rightarrow>
          (case overflow r of
             None \<Rightarrow> None
           | Some b \<Rightarrow> (case bucketAllow b now of (ok, b') \<Rightarrow> Some (ok, r\<lparr>overflow := Some b'\<rparr>)))
      | Source key \<Rightarrow>
          (case perSource r of
             None \<Rightarrow> None
           | Some sources \<Rightarrow>
               (case map_get sources key of
                  None \<Rightarrow> None
                | Some entry \<Rightarrow>
                    (case bucketAllow (bucket entry) now of
                       (ok, b') \<Rightarrow>
                         Some (ok, r\<lparr>perSource := Some (map_put key (entry\<lparr>bucket := b'\<rparr>) sources)\<rparr>)))))"

definition perSourceAllow :: "requestLimiter \<Rightarrow> string \<Rightarrow> time \<Rightarrow> (bool \<times> requestLimiter) option" where
  "perSourceAllow r source now =
     (case perSource r of
        None \<Rightarrow> Some (True, r)
      | Some sources \<Rightarrow>
          (case lookupPerSourceBucket r sources source now of (ref, r') \<Rightarrow> chargeBucket r' ref now))"

definition limiterAllow :: "requestLimiter \<Rightarrow> string \<Rightarrow> time \<Rightarrow> (bool \<times> requestLimiter) option" where
  "limiterAllow r source now =
     (case globalBucket r of
        None \<Rightarrow> perSourceAllow r source now
      | Some g \<Rightarrow>
          (case bucketAllow g now of
             (ok, g') \<Rightarrow>
               (let r1 = r\<lparr>globalBucket := Some g'\<rparr>
                in if \<not> ok then Some (False, r1) else perSourceAllow r1 source now)))"

subsection \<open>A bucket keeps between nothing and its burst\<close>

definition bucket_ok :: "tokenBucket \<Rightarrow> bool" where
  "bucket_ok b \<longleftrightarrow>
     0 < rate b \<and> 1 \<le> burst b \<and> rnd (burst b) = burst b \<and> 0 \<le> tokens b \<and> tokens b \<le> burst b"

lemma bucket_okD:
  assumes "bucket_ok b"
  shows "0 < rate b" "1 \<le> burst b" "rnd (burst b) = burst b" "0 \<le> tokens b" "tokens b \<le> burst b"
  using assms by (simp_all add: bucket_ok_def)

lemma newTokenBucket_ok: "newTokenBucket r n now = Some b \<Longrightarrow> bucket_ok b"
  using rnd_ge_int [of 1 "of_int n"]
  by (auto simp: newTokenBucket_def bucket_ok_def f_of_int_def Let_def split: if_splits)

lemma newTokenBucket_None_iff: "newTokenBucket r n now = None \<longleftrightarrow> r \<le> 0 \<or> n \<le> 0"
  by (simp add: newTokenBucket_def Let_def)

lemma time_sub_seconds_pos_iff: "0 < duration_seconds (time_sub t u) \<longleftrightarrow> u < t"
proof (cases "u \<le> t")
  case True
  then have "min_int64 < time_sub t u" and "time_sub t u \<le> max_int64"
    by (auto simp: time_sub_def min_int64_def max_int64_def)
  then show ?thesis by (simp add: duration_seconds_pos_iff time_sub_pos_iff)
next
  case False
  then have "0 \<le> - time_sub t u" by (auto simp: time_sub_def min_int64_def max_int64_def)
  then have "0 \<le> duration_seconds (- time_sub t u)"
    by (simp add: duration_seconds_def fadd_def fdiv_def f_of_int_def go_quot_nonneg go_rem_nonneg
        second_def rnd_nonneg pos_imp_zdiv_nonneg_iff)
  with False show ?thesis by (simp add: duration_seconds_minus)
qed

lemma refill_fields [simp]:
  "rate (refill b now) = rate b" "burst (refill b now) = burst b" "lastRefill (refill b now) = now"
  by (auto simp: refill_def Let_def time_sub_seconds_pos_iff)

lemma refill_same_instant: "\<not> lastRefill b < now \<Longrightarrow> tokens (refill b now) = tokens b"
  by (auto simp: refill_def Let_def time_sub_seconds_pos_iff)

lemma refill_later:
  "lastRefill b < now \<Longrightarrow> tokens (refill b now) =
     min (burst b) (fadd (tokens b) (fmul (duration_seconds (time_sub now (lastRefill b))) (rate b)))"
  by (auto simp: refill_def Let_def time_sub_seconds_pos_iff min_def)

lemma refill_amount_nonneg:
  "lastRefill b < now \<Longrightarrow> 0 < rate b \<Longrightarrow>
     0 \<le> fmul (duration_seconds (time_sub now (lastRefill b))) (rate b)"
  using time_sub_seconds_pos_iff [of now "lastRefill b"]
  by (simp add: fmul_def rnd_nonneg)

lemma refill_ok: "bucket_ok b \<Longrightarrow> bucket_ok (refill b now)"
  using refill_amount_nonneg [of b now]
  by (cases "lastRefill b < now")
    (auto simp: bucket_ok_def refill_later refill_same_instant fadd_def rnd_nonneg)

lemma bucketAllow_fields:
  assumes "bucketAllow b now = (ok, b')"
  shows "rate b' = rate b" "burst b' = burst b" "lastRefill b' = now"
    "ok \<longleftrightarrow> 1 \<le> tokens (refill b now)"
    "tokens b' = (if ok then fsub (tokens (refill b now)) 1 else tokens (refill b now))"
  using assms by (auto simp: bucketAllow_def Let_def split: if_splits)

lemma fsub_one_bounds:
  assumes "1 \<le> t" and "t \<le> m" and "rnd m = m"
  shows "0 \<le> fsub t 1" and "fsub t 1 \<le> m"
  using assms rnd_mono [of "t - 1" m] by (simp_all add: fsub_def rnd_nonneg)

lemma bucketAllow_ok:
  assumes "bucket_ok b" and "bucketAllow b now = (ok, b')"
  shows "bucket_ok b'"
  using refill_ok [OF assms(1), of now] bucketAllow_fields [OF assms(2)]
    fsub_one_bounds [of "tokens (refill b now)" "burst b"]
  by (auto simp: bucket_ok_def)

subsection \<open>The contract of an admission control\<close>

text \<open>
  \<open>admits\<close> puts a sequence of requests through an admission control one after the other and
  collects the answers.  The contract: each admitted request costs one unit of a credit that
  grows at most linearly with the clock, up to a slack per request for rounding.  It bounds
  what is admitted over any run; a single bucket and the whole limiter both provide it.
\<close>

fun admits :: "('s \<Rightarrow> 'i \<Rightarrow> (bool \<times> 's) option) \<Rightarrow> 's \<Rightarrow> 'i list \<Rightarrow> (bool list \<times> 's) option" where
  "admits admit s [] = Some ([], s)"
| "admits admit s (i # is) =
     (case admit s i of
        None \<Rightarrow> None
      | Some (ok, s') \<Rightarrow>
          (case admits admit s' is of
             None \<Rightarrow> None
           | Some (oks, s'') \<Rightarrow> Some (ok # oks, s'')))"

definition admitted :: "bool list \<Rightarrow> nat" where
  "admitted oks = length (filter id oks)"

lemma admitted_simps [simp]:
  "admitted [] = 0" "admitted (ok # oks) = (if ok then Suc (admitted oks) else admitted oks)"
  by (simp_all add: admitted_def)

lemma admits_length: "admits admit s is = Some (oks, s') \<Longrightarrow> length oks = length is"
  by (induction admit s "is" arbitrary: oks s' rule: admits.induct)
    (auto split: option.splits prod.splits)

locale credit_limiter =
  fixes admit :: "'s \<Rightarrow> 'i \<Rightarrow> (bool \<times> 's) option"
    and stamp :: "'i \<Rightarrow> time"
    and credit :: "'s \<Rightarrow> rat"
    and clock :: "'s \<Rightarrow> time"
    and ok :: "'s \<Rightarrow> bool"
    and gain :: rat
    and slack :: rat
  assumes admit_total: "ok s \<Longrightarrow> \<exists>a s'. admit s i = Some (a, s')"
    and admit_ok: "ok s \<Longrightarrow> admit s i = Some (a, s') \<Longrightarrow> ok s'"
    and admit_clock: "ok s \<Longrightarrow> admit s i = Some (a, s') \<Longrightarrow> clock s' = stamp i"
    and credit_nonneg: "ok s \<Longrightarrow> 0 \<le> credit s"
    and admit_credit: "ok s \<Longrightarrow> admit s i = Some (a, s') \<Longrightarrow> clock s \<le> stamp i \<Longrightarrow>
      credit s' + of_bool a \<le> credit s + gain * of_int (stamp i - clock s) + slack"
begin

lemma admits_total: "ok s \<Longrightarrow> \<exists>oks s'. admits admit s is = Some (oks, s') \<and> ok s'"
proof (induction "is" arbitrary: s)
  case Nil
  then show ?case by simp
next
  case (Cons i "is")
  obtain a s1 where a: "admit s i = Some (a, s1)" using admit_total [OF Cons.prems] by blast
  with Cons.IH [OF admit_ok [OF Cons.prems a]] show ?case by auto
qed

text \<open>What a run with a clock that never goes back admits.\<close>

lemma admitted_bound:
  assumes "ok s" and "admits admit s is = Some (oks, s')" and "sorted (clock s # map stamp is)"
  shows "of_nat (admitted oks) + credit s' \<le>
    credit s + gain * of_int (clock s' - clock s) + slack * of_nat (length is)"
  using assms
proof (induction "is" arbitrary: s oks)
  case Nil
  then show ?case by simp
next
  case (Cons i "is")
  obtain a s1 where a: "admit s i = Some (a, s1)" using admit_total [OF Cons.prems(1)] by blast
  from Cons.prems(2) a obtain oks1 where run: "admits admit s1 is = Some (oks1, s')"
    and oks: "oks = a # oks1"
    by (auto split: option.splits)
  have clk: "clock s1 = stamp i" by (rule admit_clock [OF Cons.prems(1) a])
  have step: "credit s1 + of_bool a \<le> credit s + gain * of_int (stamp i - clock s) + slack"
    using Cons.prems by (intro admit_credit [OF _ a]) simp_all
  have rest: "of_nat (admitted oks1) + credit s' \<le>
      credit s1 + gain * of_int (clock s' - stamp i) + slack * of_nat (length is)"
    using Cons.IH [OF admit_ok [OF Cons.prems(1) a] run] Cons.prems(3) clk by simp
  have cnt: "(of_nat (admitted oks) :: rat) = of_nat (admitted oks1) + of_bool a"
    by (simp add: oks)
  have gains: "gain * of_int (clock s' - clock s) =
      gain * of_int (clock s' - stamp i) + gain * of_int (stamp i - clock s)"
    by (simp flip: distrib_left)
  have slacks: "slack * of_nat (length (i # is)) = slack + slack * of_nat (length is)"
    by (simp add: distrib_left)
  show ?case unfolding cnt gains slacks using step rest by linarith
qed

lemma admitted_le:
  assumes "ok s" and "admits admit s is = Some (oks, s')" and "sorted (clock s # map stamp is)"
  shows "of_nat (admitted oks) \<le>
    credit s + gain * of_int (clock s' - clock s) + slack * of_nat (length is)"
proof -
  have "ok s'" using admits_total [OF assms(1), of "is"] assms(2) by auto
  then show ?thesis using admitted_bound [OF assms] credit_nonneg [of s'] by linarith
qed

end

subsection \<open>A bucket provides it\<close>

lemma refill_gain:
  assumes "bucket_ok b" and "lastRefill b \<le> now"
  shows "tokens (refill b now) \<le> tokens b +
    rate b * (1 + 1 / 2 ^ 51) / of_int second * of_int (now - lastRefill b) + burst b / 2 ^ 53"
proof (cases "lastRefill b < now")
  case False
  then show ?thesis
    using assms by (simp add: refill_same_instant bucket_ok_def)
next
  case True
  note ok = bucket_okD [OF assms(1)]
  let ?d = "time_sub now (lastRefill b)"
  let ?x = "fmul (duration_seconds ?d) (rate b)"
  have d: "0 \<le> ?d" "?d \<le> max_int64" "?d \<le> now - lastRefill b"
    using True time_sub_pos_iff [of now "lastRefill b"] time_sub_le [of "lastRefill b" now]
    by (simp_all add: time_sub_def min_int64_def max_int64_def)
  have x0: "0 \<le> ?x" by (rule refill_amount_nonneg [OF True ok(1)])
  have "?x \<le> of_int ?d / of_int second * rate b * (1 + 1 / 2 ^ 51)"
    using fmul_seconds_le [OF d(1,2)] ok(1) by simp
  also have "\<dots> = rate b * (1 + 1 / 2 ^ 51) / of_int second * of_int ?d" by (simp add: mult_ac)
  also have "\<dots> \<le> rate b * (1 + 1 / 2 ^ 51) / of_int second * of_int (now - lastRefill b)"
    using d(3) ok(1) by (intro mult_left_mono) (simp_all add: second_def del: of_int_diff)
  finally have x: "?x \<le> rate b * (1 + 1 / 2 ^ 51) / of_int second * of_int (now - lastRefill b)" .
  have "tokens (refill b now) \<le> tokens b + ?x + burst b / 2 ^ 53"
  proof (cases "tokens b + ?x \<le> burst b")
    case True
    then have "rnd (tokens b + ?x) \<le> tokens b + ?x + burst b / 2 ^ 53"
      using x0 ok(4) by (intro rnd_le_within) simp_all
    then show ?thesis
      unfolding refill_later [OF \<open>lastRefill b < now\<close>] fadd_def by (rule min.coboundedI2)
  next
    case False
    then show ?thesis
      using ok by (simp add: refill_later \<open>lastRefill b < now\<close> min_le_iff_disj)
  qed
  with x show ?thesis by linarith
qed

lemma bucketAllow_credit:
  assumes "bucket_ok b" and "bucketAllow b now = (a, b')" and "lastRefill b \<le> now"
  shows "tokens b' + of_bool a \<le> tokens b +
    rate b * (1 + 1 / 2 ^ 51) / of_int second * of_int (now - lastRefill b) + burst b / 2 ^ 52"
proof -
  let ?t = "tokens (refill b now)"
  note f = bucketAllow_fields [OF assms(2)] and r = bucket_okD [OF refill_ok [OF assms(1), of now]]
  have "tokens b' + of_bool a \<le> ?t + burst b / 2 ^ 53"
  proof (cases a)
    case True
    then have "rnd (?t - 1) \<le> ?t - 1 + burst b / 2 ^ 53"
      using f(4) r(5) by (intro rnd_le_within) simp_all
    with True show ?thesis by (simp add: f(5) fsub_def)
  next
    case False
    then show ?thesis using r by (simp add: f(5))
  qed
  with refill_gain [OF assms(1,3)] show ?thesis by simp
qed

definition bucketStep :: "tokenBucket \<Rightarrow> time \<Rightarrow> (bool \<times> tokenBucket) option" where
  "bucketStep b now = Some (bucketAllow b now)"

interpretation bucket: credit_limiter bucketStep "\<lambda>t. t" tokens lastRefill
  "\<lambda>b. bucket_ok b \<and> rate b = r \<and> burst b = c" "r * (1 + 1 / 2 ^ 51) / of_int second" "c / 2 ^ 52"
  for r c
proof unfold_locales
  fix s :: tokenBucket and i a s'
  assume ok: "bucket_ok s \<and> rate s = r \<and> burst s = c"
  show "\<exists>a s'. bucketStep s i = Some (a, s')"
    by (cases "bucketAllow s i") (simp add: bucketStep_def)
  show "0 \<le> tokens s" using ok by (simp add: bucket_ok_def)
  assume "bucketStep s i = Some (a, s')"
  then have a: "bucketAllow s i = (a, s')" by (simp add: bucketStep_def)
  show "bucket_ok s' \<and> rate s' = r \<and> burst s' = c"
    using ok bucketAllow_ok [OF _ a] bucketAllow_fields [OF a] by auto
  show "lastRefill s' = i" by (rule bucketAllow_fields(3) [OF a])
  assume "lastRefill s \<le> i"
  with ok bucketAllow_credit [OF _ a] show "tokens s' + of_bool a \<le> tokens s +
      r * (1 + 1 / 2 ^ 51) / of_int second * of_int (i - lastRefill s) + c / 2 ^ 52"
    by auto
qed

text \<open>
  The rate of a bucket: over any run of calls with a clock that does not go back, a bucket
  admits at most what it held, plus its rate times the elapsed seconds, up to the rounding of
  float64 (a factor \<open>1 + 2 ^ (-51)\<close> and \<open>2 ^ (-52)\<close> of the burst for each call).
\<close>

theorem bucket_rate_bound:
  assumes "bucket_ok b" and "admits bucketStep b ts = Some (oks, b')"
    and "sorted (lastRefill b # ts)"
  shows "of_nat (admitted oks) \<le>
    tokens b + rate b * (1 + 1 / 2 ^ 51) / of_int second * of_int (lastRefill b' - lastRefill b)
      + burst b / 2 ^ 52 * of_nat (length ts)"
  by (rule bucket.admitted_le) (use assms in simp_all)

lemma bucket_rate_bound_witness:
  "\<exists>oks b'. admits bucketStep \<lparr>rate = 1, burst = 2, tokens = 2, lastRefill = 0\<rparr> [0, 0, 0, second]
       = Some (oks, b') \<and>
     (of_nat (admitted oks) :: rat) \<le> 2 + 1 * (1 + 1 / 2 ^ 51) / of_int second * of_int (lastRefill b' - 0)
       + 2 / 2 ^ 52 * of_nat 4"
proof -
  let ?b = "\<lparr>rate = 1, burst = 2, tokens = 2, lastRefill = 0\<rparr>"
  have ok: "bucket_ok ?b" by (simp add: bucket_ok_def)
  obtain oks b' where run: "admits bucketStep ?b [0, 0, 0, second] = Some (oks, b')"
    using bucket.admits_total [of ?b 1 2 "[0, 0, 0, second]"] ok by auto
  with bucket_rate_bound [OF ok run] show ?thesis by (auto simp: second_def)
qed

subsection \<open>Bursts and recovery\<close>

lemma bucketStep_at_rest:
  assumes "tokens b = of_nat k" and "k \<le> 2 ^ 53" and "lastRefill b = now"
  shows "bucketStep b now = Some (0 < k, b\<lparr>tokens := of_nat (k - 1)\<rparr>)"
proof -
  have r: "refill b now = b"
    using assms(3) by (simp add: refill_def time_sub_seconds_pos_iff)
  show ?thesis
  proof (cases k)
    case 0
    with assms(1) r show ?thesis by (simp add: bucketStep_def bucketAllow_def)
  next
    case (Suc n)
    then have "fsub (of_nat k) 1 = of_nat n"
      using assms(2) rnd_of_int [of "int n"] by (simp add: fsub_def)
    with assms(1) r Suc show ?thesis by (simp add: bucketStep_def bucketAllow_def)
  qed
qed

lemma burst_at_rest:
  assumes "tokens b = of_nat k" and "k \<le> 2 ^ 53" and "lastRefill b = now"
  shows "admits bucketStep b (replicate n now) =
    Some (replicate (min n k) True @ replicate (n - k) False, b\<lparr>tokens := of_nat (k - n)\<rparr>)"
  using assms
proof (induction n arbitrary: b k)
  case 0
  then show ?case by simp
next
  case (Suc n)
  have step: "bucketStep b now = Some (0 < k, b\<lparr>tokens := of_nat (k - 1)\<rparr>)"
    by (rule bucketStep_at_rest [OF Suc.prems])
  have "admits bucketStep (b\<lparr>tokens := of_nat (k - 1)\<rparr>) (replicate n now) =
      Some (replicate (min n (k - 1)) True @ replicate (n - (k - 1)) False,
        b\<lparr>tokens := of_nat (k - 1 - n)\<rparr>)"
    using Suc.IH [of "b\<lparr>tokens := of_nat (k - 1)\<rparr>" "k - 1"] Suc.prems by simp
  with step show ?case by (cases k) simp_all
qed

text \<open>
  The burst of a bucket: a new bucket with a positive rate and a burst of \<open>k\<close> admits
  exactly the first \<open>k\<close> of any number of calls made at the instant of its creation.
\<close>

theorem new_bucket_burst:
  assumes "newTokenBucket r (int k) now = Some b" and "k \<le> 2 ^ 53"
  shows "map_option fst (admits bucketStep b (replicate n now)) =
    Some (replicate (min n k) True @ replicate (n - k) False)"
proof -
  have "tokens b = of_nat k" and "lastRefill b = now"
    using assms rnd_of_int [of "int k"]
    by (auto simp: newTokenBucket_def f_of_int_def Let_def split: if_splits)
  with burst_at_rest [of b k now n] assms(2) show ?thesis by simp
qed

lemma new_bucket_burst_witness:
  "map_option fst (admits bucketStep \<lparr>rate = 1 / 2, burst = 2, tokens = 2, lastRefill = 7\<rparr>
     (replicate 5 7)) = Some (replicate 2 True @ replicate 3 False)"
proof -
  have "newTokenBucket (1 / 2) (int 2) 7 = Some \<lparr>rate = 1 / 2, burst = 2, tokens = 2, lastRefill = 7\<rparr>"
    by (simp add: newTokenBucket_def f_of_int_def)
  from new_bucket_burst [OF this, of 5] show ?thesis by simp
qed

text \<open>
  A drained bucket recovers: after \<open>n\<close> whole seconds, enough for one token at the rate of
  the bucket, the next call is admitted.
\<close>

theorem bucket_recovers:
  assumes "bucket_ok b" and "lastRefill b + int n * second \<le> now" and "1 \<le> of_nat n * rate b"
    and "n < 2 ^ 33"
  shows "fst (bucketAllow b now)"
proof -
  note ok = bucket_okD [OF assms(1)]
  let ?d = "time_sub now (lastRefill b)"
  have n: "0 < n" using assms(3) by (cases n) simp_all
  then have later: "lastRefill b < now" using assms(2) by (simp add: second_def)
  have "int n * second \<le> ?d"
    using assms(2,4) by (simp add: second_def time_sub_ge_iff max_int64_def)
  then have "int n \<le> ?d div second"
    using zdiv_mono1 [of "int n * second" ?d second] by (simp add: second_def)
  moreover have "0 \<le> ?d" and "?d \<le> max_int64"
    using later time_sub_pos_iff [of now "lastRefill b"]
    by (simp_all add: time_sub_def min_int64_def max_int64_def)
  ultimately have "of_int (int n) \<le> duration_seconds ?d"
    using duration_seconds_bounds(1) [of ?d] by (meson of_int_le_iff order_trans)
  then have "of_nat n * rate b \<le> duration_seconds ?d * rate b"
    using ok(1) by (intro mult_right_mono) simp_all
  then have "1 \<le> fmul (duration_seconds ?d) (rate b)"
    using rnd_ge_int [of 1 "duration_seconds ?d * rate b"] assms(3) by (simp add: fmul_def)
  then have "1 \<le> fadd (tokens b) (fmul (duration_seconds ?d) (rate b))"
    using rnd_ge_int [of 1 "tokens b + fmul (duration_seconds ?d) (rate b)"] ok(4)
    by (simp add: fadd_def)
  then have "1 \<le> tokens (refill b now)" using ok(2) by (simp add: refill_later [OF later])
  then show ?thesis by (simp add: bucketAllow_def Let_def)
qed

lemma bucket_recovers_witness:
  "fst (bucketAllow \<lparr>rate = 1 / 4, burst = 3, tokens = 0, lastRefill = 10\<rparr> 4000000010)"
  by (rule bucket_recovers [where n = 4]) (simp_all add: bucket_ok_def second_def)

subsection \<open>The table of sources\<close>

definition sources_ok :: "requestLimiter \<Rightarrow> (string, perSourceLimiter) go_map \<Rightarrow> bool" where
  "sources_ok r m \<longleftrightarrow>
     map_ok m \<and> int (length m) \<le> max 0 (maxSources r) \<and> (\<forall>e \<in> snd ` set m. bucket_ok (bucket e))"

definition limiter_ok :: "requestLimiter \<Rightarrow> bool" where
  "limiter_ok r \<longleftrightarrow>
     (\<forall>g. globalBucket r = Some g \<longrightarrow> bucket_ok g) \<and>
     (\<forall>m. perSource r = Some m \<longrightarrow> sources_ok r m \<and> (\<exists>v. overflow r = Some v \<and> bucket_ok v))"

definition entry_expired :: "requestLimiter \<Rightarrow> time \<Rightarrow> perSourceLimiter \<Rightarrow> bool" where
  "entry_expired r now e \<longleftrightarrow> 0 < stateTTL r \<and> stateTTL r < time_sub now (lastSeen e)"

text \<open>The entry of \<open>m'\<close> at \<open>k\<close> is that of \<open>m\<close>, or is gone because that one had expired.\<close>

definition kept_or_expired ::
  "requestLimiter \<Rightarrow> time \<Rightarrow> (string, perSourceLimiter) go_map \<Rightarrow> (string, perSourceLimiter) go_map \<Rightarrow> string \<Rightarrow> bool"
  where "kept_or_expired r now m m' k \<longleftrightarrow>
     map_get m' k = map_get m k \<or>
     map_get m' k = None \<and> (\<exists>e. map_get m k = Some e \<and> entry_expired r now e)"

lemma kept_or_expired_trans:
  "kept_or_expired r now m m1 k \<Longrightarrow> kept_or_expired r now m1 m2 k \<Longrightarrow> kept_or_expired r now m m2 k"
  unfolding kept_or_expired_def by metis

lemma kept_or_expired_refl [simp]: "kept_or_expired r now m m k"
  by (simp add: kept_or_expired_def)

lemma cleanupExpired_kept:
  "map_ok m \<Longrightarrow> kept_or_expired r now m (cleanupExpired (stateTTL r) now m) k"
  by (auto simp: kept_or_expired_def cleanupExpired_def go_map_simps entry_expired_def
      split: option.splits)

lemma cleanupExpired_get:
  "map_ok m \<Longrightarrow> map_get (cleanupExpired (stateTTL r) now m) k =
     (case map_get m k of None \<Rightarrow> None
      | Some e \<Rightarrow> if entry_expired r now e then None else Some e)"
  by (auto simp: cleanupExpired_def go_map_simps entry_expired_def split: option.splits)

lemma cleanupExpired_ok: "sources_ok r m \<Longrightarrow> sources_ok r (cleanupExpired (stateTTL r) now m)"
  using length_map_keep_le [of "\<lambda>_ entry. \<not> (time_sub now (lastSeen entry) > stateTTL r)" m]
  by (auto simp: sources_ok_def cleanupExpired_def set_map_keep image_iff)

lemma length_cleanupExpired: "length (cleanupExpired ttl now m) \<le> length m"
  by (simp add: cleanupExpired_def length_map_keep_le)

lemma sources_ok_get: "sources_ok r m \<Longrightarrow> map_get m k = Some e \<Longrightarrow> bucket_ok (bucket e)"
  by (force simp: sources_ok_def map_get_Some_iff)

lemma set_map_put: "set (map_put k v m) \<subseteq> insert (k, v) (set m)"
  by (auto simp: map_put_def map_del_def)

lemma sources_ok_put:
  assumes "sources_ok r m" and "bucket_ok (bucket e)"
    and "map_get m k \<noteq> None \<or> int (length m) < maxSources r"
  shows "sources_ok r (map_put k e m)"
proof -
  have "length (map_put k e m) \<le> nat (max 0 (maxSources r))"
    using assms(1,3) by (intro go_map.insert_bounded) (auto simp: sources_ok_def)
  then show ?thesis
    using assms(1,2) set_map_put [of k e m] by (force simp: sources_ok_def)
qed

definition same_policy :: "requestLimiter \<Rightarrow> requestLimiter \<Rightarrow> bool" where
  "same_policy r r' \<longleftrightarrow>
     perSourceRate r' = perSourceRate r \<and> perSourceBurst r' = perSourceBurst r \<and>
     stateTTL r' = stateTTL r \<and> maxSources r' = maxSources r"

lemma sources_ok_policy: "same_policy r r' \<Longrightarrow> sources_ok r' m \<longleftrightarrow> sources_ok r m"
  by (simp add: sources_ok_def same_policy_def)

text \<open>What finding the bucket of a source does to the table.\<close>

lemma lookupPerSourceBucket_spec:
  assumes "sources_ok r m" and "lookupPerSourceBucket r m source now = (ref, r')"
  shows "\<exists>m'. perSource r' = Some m' \<and> sources_ok r m' \<and> same_policy r r' \<and>
     globalBucket r' = globalBucket r \<and> overflow r' = overflow r \<and>
     (\<forall>k. k \<noteq> sourceKey source \<longrightarrow> kept_or_expired r now m m' k) \<and>
     (ref = Overflow \<or> ref = Source (sourceKey source) \<and> map_get m' (sourceKey source) \<noteq> None)"
proof -
  let ?key = "sourceKey source"
  let ?c = "cleanupExpired (stateTTL r) now"
  define m1 where "m1 = (if (requestCount r + 1) mod 256 = 0 then ?c m else m)"
  define m2 where "m2 = (if int (length m1) \<ge> maxSources r then ?c m1 else m1)"
  have mok: "map_ok m" using assms(1) by (simp add: sources_ok_def)
  have ok1: "sources_ok r m1" using assms(1) cleanupExpired_ok by (simp add: m1_def)
  have k1: "kept_or_expired r now m m1 k" for k
    using cleanupExpired_kept [OF mok] by (simp add: m1_def)
  have mok1: "map_ok m1" using ok1 by (simp add: sources_ok_def)
  have ok2: "sources_ok r m2" using ok1 cleanupExpired_ok by (simp add: m2_def)
  have k2: "kept_or_expired r now m m2 k" for k
    using kept_or_expired_trans [OF k1 cleanupExpired_kept [OF mok1]] k1 by (simp add: m2_def)
  have put: "kept_or_expired r now m (map_put ?key e n) k"
    if "k \<noteq> ?key" and "kept_or_expired r now m n k" for k e n
    using that by (simp add: kept_or_expired_def go_map_simps)
  note def = assms(2) [unfolded lookupPerSourceBucket_def Let_def, folded m1_def, simplified, folded m2_def]
  show ?thesis
  proof (cases "map_get m1 ?key")
    case (Some e)
    have "sources_ok r (map_put ?key (e\<lparr>lastSeen := now\<rparr>) m1)"
      using ok1 Some by (intro sources_ok_put) (auto dest: sources_ok_get)
    with def Some show ?thesis
      by (auto simp: same_policy_def go_map_simps intro!: put k1)
  next
    case None
    show ?thesis
    proof (cases "int (length m2) < maxSources r")
      case False
      with def None ok2 k2 show ?thesis by (auto simp: same_policy_def)
    next
      case True
      show ?thesis
      proof (cases "newTokenBucket (perSourceRate r) (perSourceBurst r) now")
        case N: None
        with def None ok2 k2 True show ?thesis by (auto simp: same_policy_def)
      next
        case (Some b)
        have "sources_ok r (map_put ?key \<lparr>bucket = b, lastSeen = now\<rparr> m2)"
          using ok2 True newTokenBucket_ok [OF Some] by (intro sources_ok_put) simp_all
        with def None Some True show ?thesis
          by (auto simp: same_policy_def go_map_simps intro!: put k2)
      qed
    qed
  qed
qed

subsection \<open>The limiter\<close>

lemma chargeBucket_spec:
  assumes "perSource r = Some m" and "sources_ok r m" and "overflow r = Some v" and "bucket_ok v"
    and "ref = Overflow \<or> ref = Source key \<and> map_get m key \<noteq> None"
  shows "\<exists>a r' m' v'. chargeBucket r ref now = Some (a, r') \<and> perSource r' = Some m' \<and>
     sources_ok r m' \<and> same_policy r r' \<and> globalBucket r' = globalBucket r \<and>
     overflow r' = Some v' \<and> bucket_ok v' \<and> (\<forall>k. k \<noteq> key \<longrightarrow> map_get m' k = map_get m k)"
proof (cases "ref = Overflow")
  case True
  obtain a v' where a: "bucketAllow v now = (a, v')" by (cases "bucketAllow v now")
  with True assms show ?thesis
    using bucketAllow_ok [OF assms(4) a] by (simp add: chargeBucket_def same_policy_def)
next
  case False
  with assms(5) obtain e where ref: "ref = Source key" and e: "map_get m key = Some e" by auto
  obtain a b where a: "bucketAllow (bucket e) now = (a, b)" by (cases "bucketAllow (bucket e) now")
  have "sources_ok r (map_put key (e\<lparr>bucket := b\<rparr>) m)"
    using assms(2) e bucketAllow_ok [OF sources_ok_get [OF assms(2) e] a]
    by (intro sources_ok_put) auto
  with a e ref assms show ?thesis
    by (simp add: chargeBucket_def same_policy_def go_map_simps)
qed

lemma perSourceAllow_spec:
  assumes "limiter_ok r"
  shows "\<exists>a r'. perSourceAllow r source now = Some (a, r') \<and> limiter_ok r' \<and> same_policy r r' \<and>
     globalBucket r' = globalBucket r \<and>
     (\<forall>m k. perSource r = Some m \<longrightarrow> k \<noteq> sourceKey source \<longrightarrow>
        (\<exists>m'. perSource r' = Some m' \<and> kept_or_expired r now m m' k))"
proof (cases "perSource r")
  case None
  with assms show ?thesis by (auto simp: perSourceAllow_def same_policy_def)
next
  case (Some m)
  with assms obtain v where m: "sources_ok r m" and v: "overflow r = Some v" "bucket_ok v"
    by (auto simp: limiter_ok_def)
  obtain ref r1 where l: "lookupPerSourceBucket r m source now = (ref, r1)"
    by (cases "lookupPerSourceBucket r m source now")
  from lookupPerSourceBucket_spec [OF m l] obtain m1 where
    1: "perSource r1 = Some m1" "sources_ok r m1" "same_policy r r1" "globalBucket r1 = globalBucket r"
      "overflow r1 = overflow r" "\<forall>k. k \<noteq> sourceKey source \<longrightarrow> kept_or_expired r now m m1 k"
      "ref = Overflow \<or> ref = Source (sourceKey source) \<and> map_get m1 (sourceKey source) \<noteq> None"
    by auto
  have "sources_ok r1 m1" using 1(2,3) by (simp add: sources_ok_policy)
  from chargeBucket_spec [OF 1(1) this _ v(2) 1(7), of now] 1(5) v(1) obtain a r2 m2 v2 where
    2: "chargeBucket r1 ref now = Some (a, r2)" "perSource r2 = Some m2" "sources_ok r1 m2"
      "same_policy r1 r2" "globalBucket r2 = globalBucket r1" "overflow r2 = Some v2" "bucket_ok v2"
      "\<forall>k. k \<noteq> sourceKey source \<longrightarrow> map_get m2 k = map_get m1 k"
    by auto
  have "same_policy r r2" using 1(3) 2(4) by (simp add: same_policy_def)
  moreover have "limiter_ok r2"
    using assms 1 2 by (auto simp: limiter_ok_def sources_ok_policy)
  moreover have "kept_or_expired r now m m2 k" if "k \<noteq> sourceKey source" for k
    using 1(6) 2(8) that by (simp add: kept_or_expired_def)
  ultimately show ?thesis using Some l 1(4) 2(1,2,5) by (simp add: perSourceAllow_def)
qed

lemma limiter_ok_global:
  "limiter_ok r \<Longrightarrow> bucket_ok g \<Longrightarrow> limiter_ok (r\<lparr>globalBucket := Some g\<rparr>)"
  by (simp add: limiter_ok_def sources_ok_def)

text \<open>What one request does to the limiter, by what the global bucket says.\<close>

lemma limiterAllow_cases:
  assumes "limiter_ok r"
  obtains (refused) g g' where "globalBucket r = Some g" "bucketAllow g now = (False, g')"
      "limiterAllow r source now = Some (False, r\<lparr>globalBucket := Some g'\<rparr>)"
  | (passed) g g' where "globalBucket r = Some g" "bucketAllow g now = (True, g')"
      "limiterAllow r source now = perSourceAllow (r\<lparr>globalBucket := Some g'\<rparr>) source now"
      "limiter_ok (r\<lparr>globalBucket := Some g'\<rparr>)"
  | (no_global) "globalBucket r = None" "limiterAllow r source now = perSourceAllow r source now"
proof (cases "globalBucket r")
  case None
  then show ?thesis by (intro no_global) (simp_all add: limiterAllow_def)
next
  case (Some g)
  obtain a g' where a: "bucketAllow g now = (a, g')" by (cases "bucketAllow g now")
  have "bucket_ok g" using assms Some by (simp add: limiter_ok_def)
  then have "limiter_ok (r\<lparr>globalBucket := Some g'\<rparr>)"
    using bucketAllow_ok [OF _ a] limiter_ok_global [OF assms] by blast
  with Some a show ?thesis
    by (cases a) (auto simp: limiterAllow_def intro: refused passed)
qed

lemma limiterAllow_spec:
  assumes "limiter_ok r"
  shows "\<exists>a r'. limiterAllow r source now = Some (a, r') \<and> limiter_ok r' \<and> same_policy r r' \<and>
     (\<forall>m k. perSource r = Some m \<longrightarrow> k \<noteq> sourceKey source \<longrightarrow>
        (\<exists>m'. perSource r' = Some m' \<and> kept_or_expired r now m m' k))"
  using assms
proof (cases rule: limiterAllow_cases [where source = source and now = now])
  case (refused g g')
  have "bucket_ok g'"
    using assms refused(1) bucketAllow_ok [OF _ refused(2)] by (simp add: limiter_ok_def)
  with refused(3) show ?thesis
    using limiter_ok_global [OF assms] by (auto simp: same_policy_def)
next
  case (passed g g')
  have k: "kept_or_expired (r\<lparr>globalBucket := Some g'\<rparr>) now m m' k = kept_or_expired r now m m' k" for m m' k
    by (simp add: kept_or_expired_def entry_expired_def)
  from perSourceAllow_spec [OF passed(4), of source now] passed(3) show ?thesis
    by (auto simp: same_policy_def k)
next
  case no_global
  with perSourceAllow_spec [OF assms, of source now] show ?thesis by metis
qed

lemma newRequestLimiter_ok: "newRequestLimiter cfg now = Some r \<Longrightarrow> limiter_ok r"
  using newTokenBucket_ok
  by (auto simp: newRequestLimiter_def limiter_ok_def sources_ok_def Let_def split: if_splits)

definition limiterStep :: "requestLimiter \<Rightarrow> string \<times> time \<Rightarrow> (bool \<times> requestLimiter) option" where
  "limiterStep r q = limiterAllow r (fst q) (snd q)"

subsection \<open>The limiter provides the contract, with the credit of its global bucket\<close>

definition global_tokens :: "requestLimiter \<Rightarrow> rat" where
  "global_tokens r = (case globalBucket r of None \<Rightarrow> 0 | Some g \<Rightarrow> tokens g)"

definition global_clock :: "requestLimiter \<Rightarrow> time" where
  "global_clock r = (case globalBucket r of None \<Rightarrow> 0 | Some g \<Rightarrow> lastRefill g)"

definition globally_limited :: "rat \<Rightarrow> rat \<Rightarrow> requestLimiter \<Rightarrow> bool" where
  "globally_limited x c r \<longleftrightarrow>
     limiter_ok r \<and> (\<exists>g. globalBucket r = Some g \<and> rate g = x \<and> burst g = c)"

lemma perSourceAllow_global:
  assumes "limiter_ok r" and "perSourceAllow r source now = Some (a, r')"
  shows "globalBucket r' = globalBucket r" and "limiter_ok r'"
  using perSourceAllow_spec [OF assms(1), of source now] assms(2) by auto

text \<open>The global bucket is charged as if it were alone, whatever the sources answer.\<close>

lemma limiterAllow_global:
  assumes "limiter_ok r" and "globalBucket r = Some g" and "bucketAllow g now = (ga, g')"
    and "limiterAllow r source now = Some (a, r')"
  shows "globalBucket r' = Some g' \<and> (a \<longrightarrow> ga)"
  using assms(1)
proof (cases rule: limiterAllow_cases [where source = source and now = now])
  case (passed g1 g2)
  with assms perSourceAllow_global [OF passed(4), of source now a r'] show ?thesis by auto
qed (use assms in auto)

interpretation limiter: credit_limiter limiterStep snd global_tokens global_clock
  "globally_limited x c" "x * (1 + 1 / 2 ^ 51) / of_int second" "c / 2 ^ 52"
  for x c
proof unfold_locales
  fix r r' and i :: "string \<times> time" and a
  assume ok: "globally_limited x c r"
  then obtain g where r: "limiter_ok r" and g: "globalBucket r = Some g" "rate g = x" "burst g = c"
    by (auto simp: globally_limited_def)
  have b: "bucket_ok g" using r g(1) by (simp add: limiter_ok_def)
  obtain ga g' where ga: "bucketAllow g (snd i) = (ga, g')" by (cases "bucketAllow g (snd i)")
  show "\<exists>a r'. limiterStep r i = Some (a, r')"
    using limiterAllow_spec [OF r, of "fst i" "snd i"] by (auto simp: limiterStep_def)
  show "0 \<le> global_tokens r" using b g(1) by (simp add: global_tokens_def bucket_ok_def)
  assume "limiterStep r i = Some (a, r')"
  then have st: "limiterAllow r (fst i) (snd i) = Some (a, r')" by (simp add: limiterStep_def)
  note gl = limiterAllow_global [OF r g(1) ga st] and f = bucketAllow_fields [OF ga]
  have "limiter_ok r'" using limiterAllow_spec [OF r, of "fst i" "snd i"] st by auto
  then show "globally_limited x c r'" using gl f(1,2) g by (simp add: globally_limited_def)
  show "global_clock r' = snd i" using gl f(3) by (simp add: global_clock_def)
  assume "global_clock r \<le> snd i"
  then have le: "lastRefill g \<le> snd i" using g(1) by (simp add: global_clock_def)
  have "global_tokens r' + of_bool a \<le> tokens g' + of_bool ga"
    using gl by (cases a) (auto simp: global_tokens_def)
  also have "\<dots> \<le> tokens g + rate g * (1 + 1 / 2 ^ 51) / of_int second * of_int (snd i - lastRefill g)
      + burst g / 2 ^ 52"
    by (rule bucketAllow_credit [OF b ga le])
  finally show "global_tokens r' + of_bool a \<le> global_tokens r +
      x * (1 + 1 / 2 ^ 51) / of_int second * of_int (snd i - global_clock r) + c / 2 ^ 52"
    using g by (simp add: global_tokens_def global_clock_def)
qed

text \<open>
  No request makes the limiter fail: from the limiter the proxy creates, any sequence of
  requests is answered (no nil bucket is ever charged), the table of sources never grows
  beyond its maximum, and every bucket in it stays between nothing and its burst.
\<close>

theorem limiter_runs:
  assumes "newRequestLimiter cfg now = Some r"
  shows "\<exists>oks r'. admits limiterStep r reqs = Some (oks, r') \<and> length oks = length reqs \<and>
     (\<forall>m. perSource r' = Some m \<longrightarrow>
        int (length m) \<le> max 0 (PerSourceRateLimitMaxSources cfg) \<and>
        (\<forall>k e. map_get m k = Some e \<longrightarrow>
           0 \<le> tokens (bucket e) \<and> tokens (bucket e) \<le> burst (bucket e)))"
proof -
  have run: "\<exists>oks r'. admits limiterStep s reqs = Some (oks, r') \<and> limiter_ok r' \<and> same_policy s r'"
    if "limiter_ok s" for s
    using that
  proof (induction reqs arbitrary: s)
    case Nil
    then show ?case by (simp add: same_policy_def)
  next
    case (Cons q reqs)
    obtain a s1 where 1: "limiterStep s q = Some (a, s1)" "limiter_ok s1" "same_policy s s1"
      using limiterAllow_spec [OF Cons.prems, of "fst q" "snd q"] by (auto simp: limiterStep_def)
    with Cons.IH [OF 1(2)] show ?case by (fastforce simp: same_policy_def)
  qed
  obtain oks r' where r': "admits limiterStep r reqs = Some (oks, r')" "limiter_ok r'" "same_policy r r'"
    using run [OF newRequestLimiter_ok [OF assms]] by blast
  have "maxSources r = PerSourceRateLimitMaxSources cfg \<or> maxSources r = 0"
    using assms by (auto simp: newRequestLimiter_def Let_def split: if_splits)
  with r'(3) have mx: "max 0 (maxSources r') \<le> max 0 (PerSourceRateLimitMaxSources cfg)"
    by (auto simp: same_policy_def)
  have "int (length m) \<le> max 0 (PerSourceRateLimitMaxSources cfg) \<and>
      (\<forall>k e. map_get m k = Some e \<longrightarrow> 0 \<le> tokens (bucket e) \<and> tokens (bucket e) \<le> burst (bucket e))"
    if m: "perSource r' = Some m" for m
  proof
    have ok: "sources_ok r' m" using r'(2) m by (simp add: limiter_ok_def)
    then show "int (length m) \<le> max 0 (PerSourceRateLimitMaxSources cfg)"
      using mx by (auto simp: sources_ok_def)
    show "\<forall>k e. map_get m k = Some e \<longrightarrow> 0 \<le> tokens (bucket e) \<and> tokens (bucket e) \<le> burst (bucket e)"
      using sources_ok_get [OF ok] bucket_okD(4,5) by blast
  qed
  with r'(1) admits_length [OF r'(1)] show ?thesis by blast
qed

definition sample_limits :: "int \<Rightarrow> ProxyConfig" where
  "sample_limits n = \<lparr>ListenAddr = '''', EngineAddr = '''', QueryTimeout = 0,
     EngineConnectionPoolSize = 0, EventChanSize = 0, CacheMaxEntries = 0, CacheDefaultTTL = 0,
     OnEventDrop = False, GlobalRateLimitRPS = 1, GlobalRateLimitBurst = 8,
     PerSourceRateLimitRPS = 1, PerSourceRateLimitBurst = 2, PerSourceRateLimitStateTTL = minute,
     PerSourceRateLimitMaxSources = n, DomainFilterAllow = [], DomainFilterDeny = [],
     DomainFilterDenyRcode = 0, FallbackUpstreams = []\<rparr>"

definition sample_limiter :: "int \<Rightarrow> requestLimiter" where
  "sample_limiter n = \<lparr>globalBucket = Some \<lparr>rate = 1, burst = 8, tokens = 8, lastRefill = 0\<rparr>,
     perSourceRate = 1, perSourceBurst = 2, stateTTL = minute, maxSources = n,
     overflow = Some \<lparr>rate = 1, burst = 2, tokens = 2, lastRefill = 0\<rparr>,
     perSource = Some [], requestCount = 0\<rparr>"

lemma sample_limiter_created: "newRequestLimiter (sample_limits n) 0 = Some (sample_limiter n)"
  by (simp add: newRequestLimiter_def sample_limits_def sample_limiter_def newTokenBucket_def
      f_of_int_def)

lemma sample_limiter_ok: "globally_limited 1 8 (sample_limiter n)"
  using newRequestLimiter_ok [OF sample_limiter_created]
  by (simp add: globally_limited_def sample_limiter_def)

lemma limiter_runs_witness:
  "\<exists>oks r'. admits limiterStep (sample_limiter 1) [(''10.0.0.1'', 5), (''10.0.0.2'', 3)] = Some (oks, r') \<and>
     length oks = 2"
  using limiter_runs [OF sample_limiter_created, of 1 "[(''10.0.0.1'', 5), (''10.0.0.2'', 3)]"]
  by auto

text \<open>
  C13.  The global rate: over any run of requests from any sources with a clock that does not go
  back, the limiter lets through at most what its global bucket held plus the global rate times
  the elapsed seconds, up to the rounding of float64.
\<close>

theorem limiter_rate_bound:
  assumes "limiter_ok r" and "globalBucket r = Some g" and "admits limiterStep r reqs = Some (oks, r')"
    and "sorted (lastRefill g # map snd reqs)"
  shows "of_nat (admitted oks) \<le>
    tokens g + rate g * (1 + 1 / 2 ^ 51) / of_int second * of_int (global_clock r' - lastRefill g)
      + burst g / 2 ^ 52 * of_nat (length reqs)"
proof -
  have "globally_limited (rate g) (burst g) r" using assms(1,2) by (simp add: globally_limited_def)
  from limiter.admitted_le [OF this assms(3)] assms(2,4) show ?thesis
    by (simp add: global_clock_def global_tokens_def)
qed

lemma limiter_rate_bound_witness:
  "\<exists>oks r'. admits limiterStep (sample_limiter 1) [(''10.0.0.1'', 0), (''10.0.0.2'', second)]
       = Some (oks, r') \<and>
     (of_nat (admitted oks) :: rat) \<le> 8 + 1 * (1 + 1 / 2 ^ 51) / of_int second * of_int (global_clock r')
       + 8 / 2 ^ 52 * of_nat 2"
proof -
  let ?g = "\<lparr>rate = 1, burst = 8, tokens = 8, lastRefill = 0\<rparr>"
  let ?q = "[(''10.0.0.1'', 0), (''10.0.0.2'', second)]"
  have ok: "limiter_ok (sample_limiter 1)" and g: "globalBucket (sample_limiter 1) = Some ?g"
    using sample_limiter_ok [of 1] by (simp_all add: globally_limited_def sample_limiter_def)
  obtain oks r' where run: "admits limiterStep (sample_limiter 1) ?q = Some (oks, r')"
    using limiter.admits_total [OF sample_limiter_ok, of 1 ?q] by auto
  with limiter_rate_bound [OF ok g run] show ?thesis by (auto simp: second_def)
qed

text \<open>
  Sources are isolated: a request leaves the entry of every other source as it was, or drops
  it when that source had been idle for longer than the state TTL.
\<close>

theorem other_sources_kept:
  assumes "limiter_ok r" and "limiterAllow r source now = Some (a, r')"
    and "perSource r = Some m" and "k \<noteq> sourceKey source"
  shows "\<exists>m'. perSource r' = Some m' \<and>
     (map_get m' k = map_get m k \<or>
      map_get m' k = None \<and>
        (\<exists>e. map_get m k = Some e \<and> 0 < stateTTL r \<and> stateTTL r < time_sub now (lastSeen e)))"
  using limiterAllow_spec [OF assms(1), of source now] assms(2-4)
  by (auto simp: kept_or_expired_def entry_expired_def)

lemma other_sources_kept_witness:
  "\<exists>a r' m'. limiterAllow (sample_limiter 1) ''10.0.0.1'' 4 = Some (a, r') \<and>
     perSource r' = Some m' \<and> map_get m' ''10.0.0.2'' = None"
proof -
  have ok: "limiter_ok (sample_limiter 1)" using sample_limiter_ok by (simp add: globally_limited_def)
  obtain a r' where st: "limiterAllow (sample_limiter 1) ''10.0.0.1'' 4 = Some (a, r')"
    using limiterAllow_spec [OF ok] by blast
  from other_sources_kept [OF ok st, of "[]" "''10.0.0.2''"] st show ?thesis
    by (auto simp: sample_limiter_def sourceKey_def)
qed

text \<open>
  The global bucket is charged first and never refunded: a request that its own source
  bucket refuses has still taken a token from the bucket that all sources share.
\<close>

theorem refused_source_drains_global:
  assumes "limiter_ok r" and "globalBucket r = Some g" and "1 \<le> tokens (refill g now)"
    and "limiterAllow r source now = Some (False, r')"
  shows "\<exists>g'. globalBucket r' = Some g' \<and> tokens g' = fsub (tokens (refill g now)) 1"
proof -
  obtain ga g' where ga: "bucketAllow g now = (ga, g')" by (cases "bucketAllow g now")
  note f = bucketAllow_fields [OF ga]
  from limiterAllow_global [OF assms(1,2) ga assms(4)] f(4,5) assms(3) show ?thesis by simp
qed

lemma refused_source_drains_global_witness:
  "\<exists>r' g'. limiterAllow (sample_limiter 1\<lparr>perSource := Some [(''10.0.0.1'',
       \<lparr>bucket = \<lparr>rate = 1, burst = 2, tokens = 0, lastRefill = 0\<rparr>, lastSeen = 0\<rparr>)]\<rparr>) ''10.0.0.1'' 0
       = Some (False, r') \<and> globalBucket r' = Some g' \<and> tokens g' = 7"
proof -
  let ?b = "\<lparr>rate = 1, burst = 2, tokens = 0, lastRefill = 0\<rparr>"
  let ?r = "sample_limiter 1\<lparr>perSource := Some [(''10.0.0.1'', \<lparr>bucket = ?b, lastSeen = 0\<rparr>)]\<rparr>"
  let ?g = "\<lparr>rate = 1, burst = 8, tokens = 8, lastRefill = 0\<rparr>"
  have ok: "limiter_ok ?r" by (simp add: limiter_ok_def sources_ok_def bucket_ok_def
        sample_limiter_def map_ok_def)
  have g: "globalBucket ?r = Some ?g" by (simp add: sample_limiter_def)
  have t: "tokens (refill ?g 0) = 8" by (simp add: refill_same_instant)
  have st: "\<exists>r'. limiterAllow ?r ''10.0.0.1'' 0 = Some (False, r')"
    by (simp add: limiterAllow_def perSourceAllow_def lookupPerSourceBucket_def chargeBucket_def
        bucketAllow_def refill_def sample_limiter_def sourceKey_def map_get_def map_put_def Let_def)
  have t1: "1 \<le> tokens (refill ?g 0)" by (simp add: t)
  from st obtain r' where r': "limiterAllow ?r ''10.0.0.1'' 0 = Some (False, r')" by blast
  from refused_source_drains_global [OF ok g t1 r'] r' show ?thesis
    by (auto simp: t fsub_def)
qed

lemma cleanupExpired_idem [simp]: "cleanupExpired ttl now (cleanupExpired ttl now m) = cleanupExpired ttl now m"
  by (simp add: cleanupExpired_def map_keep_def)

lemma fresh_bucket_admits:
  "newTokenBucket x n now = Some b \<Longrightarrow> \<exists>b'. bucketAllow b now = (True, b')"
  using rnd_ge_int [of 1 "of_int n"]
  by (auto simp: newTokenBucket_def f_of_int_def bucketAllow_def refill_same_instant Let_def
      split: if_splits)

text \<open>
  What a source without a bucket gets: while fewer than the maximum of sources are still
  alive (the idle ones are dropped first) it gets a full bucket of its own and is admitted;
  otherwise the overflow bucket, which all such sources share, decides.
\<close>

theorem unknown_source_answer:
  assumes "perSource r = Some m" and "map_ok m" and "map_get m (sourceKey source) = None"
    and "overflow r = Some v" and "0 < perSourceRate r" and "0 < perSourceBurst r"
  shows "map_option fst (perSourceAllow r source now) =
    Some (if int (length (cleanupExpired (stateTTL r) now m)) < maxSources r then True
          else fst (bucketAllow v now))"
proof -
  let ?key = "sourceKey source"
  let ?c = "cleanupExpired (stateTTL r) now"
  obtain b where b: "newTokenBucket (perSourceRate r) (perSourceBurst r) now = Some b"
    using assms(5,6) newTokenBucket_None_iff [of "perSourceRate r" "perSourceBurst r" now]
    by (cases "newTokenBucket (perSourceRate r) (perSourceBurst r) now") auto
  obtain b1 where b1: "bucketAllow b now = (True, b1)" using fresh_bucket_admits [OF b] by blast
  have gone: "map_get (?c m) ?key = None" using assms(2,3) by (simp add: cleanupExpired_get)
  have le: "length (?c m) \<le> length m" by (rule length_cleanupExpired)
  obtain va v' where v: "bucketAllow v now = (va, v')" by (cases "bucketAllow v now")
  show ?thesis
    using assms(1,3,4) gone b b1 v le
    by (auto simp: perSourceAllow_def lookupPerSourceBucket_def Let_def chargeBucket_def go_map_simps)
qed

lemma unknown_source_answer_witness:
  "map_option fst (perSourceAllow (sample_limiter 1) ''10.0.0.1'' 9) = Some True"
  using unknown_source_answer [of "sample_limiter 1" "[]" "''10.0.0.1''"
      "\<lparr>rate = 1, burst = 2, tokens = 2, lastRefill = 0\<rparr>" 9]
  by (simp add: sample_limiter_def cleanupExpired_def map_keep_def)

end
