(* ===== verification/ConnPool.thy ===== *)
theory ConnPool
  imports DnsMsg "HOL-Library.Multiset"
begin

section \<open>The engine connection pool\<close>

text \<open>
  \<open>pkg/proxy/connpool.go\<close>.  A connection (\<open>*dns.Conn\<close>) is named by a number; closing one is an
  effect, returned as the list of connections an operation closes.  \<open>borrow\<close> takes a pooled
  connection or says that one must be dialled, which the code does after it has dropped the
  lock.  Dialling and the exchange on a connection are the DNS library's and the
  network's: their outcomes are arguments.

  \<open>Exchange\<close> is the whole call, run alone.  \<open>pool_step\<close> is the pool under any number of
  concurrent calls and a \<open>Close\<close>, each locked section one step; \<open>Exchange\<close> is one of its runs.
\<close>

subsection \<open>The model\<close>

type_synonym conn = nat

record engineConnPool =
  pool_addr :: string
  pool_timeout :: duration
  maxPerNetwork :: int
  pool_closed :: bool
  conns :: "(string, conn list) go_map"

definition newEngineConnPool :: "string \<Rightarrow> duration \<Rightarrow> int \<Rightarrow> engineConnPool" where
  "newEngineConnPool a t m =
     \<lparr>pool_addr = a,
      pool_timeout = (if t \<le> 0 then 2 * second else t),
      maxPerNetwork = (if m \<le> 0 then 1 else m),
      pool_closed = False,
      conns = [(''udp'', []), (''tcp'', [])]\<rparr>"

definition normalizeEngineNetwork :: "string \<Rightarrow> string" where
  "normalizeEngineNetwork network = (if network = ''tcp'' then ''tcp'' else ''udp'')"

text \<open>Reading a slice out of a map: a missing key gives the empty slice.\<close>

definition pooled :: "engineConnPool \<Rightarrow> string \<Rightarrow> conn list" where
  "pooled p network = (case map_get (conns p) network of None \<Rightarrow> [] | Some cs \<Rightarrow> cs)"

datatype borrowed = PoolClosed | Pooled conn | MustDial

definition borrow :: "engineConnPool \<Rightarrow> string \<Rightarrow> borrowed \<times> engineConnPool" where
  "borrow p network =
     (if pool_closed p then (PoolClosed, p)
      else
        let pool = pooled p network
        in if length pool > 0
           then (Pooled (last pool), p\<lparr>conns := map_put network (butlast pool) (conns p)\<rparr>)
           else (MustDial, p))"

definition release :: "engineConnPool \<Rightarrow> string \<Rightarrow> conn option \<Rightarrow> engineConnPool \<times> conn list" where
  "release p network co =
     (case co of
        None \<Rightarrow> (p, [])
      | Some c \<Rightarrow>
          if pool_closed p then (p, [c])
          else
            let pool = pooled p network
            in if int (length pool) \<ge> maxPerNetwork p then (p, [c])
               else (p\<lparr>conns := map_put network (pool @ [c]) (conns p)\<rparr>, []))"

definition drain :: "engineConnPool \<Rightarrow> engineConnPool \<times> conn list" where
  "drain p =
     (p\<lparr>pool_closed := True, conns := map (\<lambda>(network, _). (network, [])) (conns p)\<rparr>,
      concat (map snd (conns p)))"

definition Close :: "engineConnPool option \<Rightarrow> engineConnPool option \<times> conn list" where
  "Close po =
     (case po of
        None \<Rightarrow> (None, [])
      | Some p \<Rightarrow> (case drain p of (p', cs) \<Rightarrow> (Some p', cs)))"

record exchange_result =
  reply :: "string + dns_msg option"
  pool_after :: "engineConnPool option"
  closed_conns :: "conn list"

definition exchangeOn ::
  "(string \<Rightarrow> duration \<Rightarrow> time \<Rightarrow> dns_msg \<Rightarrow> conn \<Rightarrow> string + dns_msg option) \<Rightarrow>
   engineConnPool \<Rightarrow> time option \<Rightarrow> time \<Rightarrow> string \<Rightarrow> dns_msg \<Rightarrow> conn \<Rightarrow> exchange_result" where
  "exchangeOn exchangeWithConn p deadline now network request c =
     (let until = (case deadline of Some d \<Rightarrow> d | None \<Rightarrow> now + pool_timeout p)
      in case exchangeWithConn network (pool_timeout p) until request c of
           Inl err \<Rightarrow> \<lparr>reply = Inl err, pool_after = Some p, closed_conns = [c]\<rparr>
         | Inr response \<Rightarrow>
             (case release p network (Some c) of
                (p', cs) \<Rightarrow> \<lparr>reply = Inr response, pool_after = Some p', closed_conns = cs\<rparr>))"

definition Exchange ::
  "(string \<Rightarrow> string \<Rightarrow> duration \<Rightarrow> string + conn) \<Rightarrow>
   (string \<Rightarrow> duration \<Rightarrow> time \<Rightarrow> dns_msg \<Rightarrow> conn \<Rightarrow> string + dns_msg option) \<Rightarrow>
   engineConnPool option \<Rightarrow> time option \<Rightarrow> time \<Rightarrow> string \<Rightarrow> dns_msg option \<Rightarrow> exchange_result" where
  "Exchange dial exchangeWithConn po deadline now network request =
     (case po of
        None \<Rightarrow> \<lparr>reply = Inl ''engine connection pool is not initialized'', pool_after = None, closed_conns = []\<rparr>
      | Some p \<Rightarrow>
     (case request of
        None \<Rightarrow> \<lparr>reply = Inl ''dns request is required'', pool_after = Some p, closed_conns = []\<rparr>
      | Some q \<Rightarrow>
          (let net = normalizeEngineNetwork network
           in case borrow p net of
                (PoolClosed, p1) \<Rightarrow>
                  \<lparr>reply = Inl ''engine connection pool is closed'', pool_after = Some p1, closed_conns = []\<rparr>
              | (Pooled c, p1) \<Rightarrow> exchangeOn exchangeWithConn p1 deadline now net q c
              | (MustDial, p1) \<Rightarrow>
                  (case dial net (pool_addr p1) (pool_timeout p1) of
                     Inl err \<Rightarrow> \<lparr>reply = Inl err, pool_after = Some p1, closed_conns = []\<rparr>
                   | Inr c \<Rightarrow> exchangeOn exchangeWithConn p1 deadline now net q c))))"

text \<open>
  The pool among concurrent callers: the calls that are dialling, the connections in use, those
  closed so far, and how many have been opened (a dialled connection is a new number).
\<close>

record pool_sys =
  pool :: engineConnPool
  dialling :: "string list"
  in_use :: "(string \<times> conn) list"
  shut :: "conn list"
  opened :: nat

definition pool_start :: "engineConnPool \<Rightarrow> pool_sys" where
  "pool_start p = \<lparr>pool = p, dialling = [], in_use = [], shut = [], opened = 0\<rparr>"

inductive pool_step :: "pool_sys \<Rightarrow> pool_sys \<Rightarrow> bool" where
  take_pooled:
    "borrow (pool s) net = (Pooled c, p) \<Longrightarrow>
     pool_step s (s\<lparr>pool := p, in_use := (net, c) # in_use s\<rparr>)"
| start_dial:
    "borrow (pool s) net = (MustDial, p) \<Longrightarrow>
     pool_step s (s\<lparr>pool := p, dialling := net # dialling s\<rparr>)"
| dialled:
    "net \<in> set (dialling s) \<Longrightarrow>
     pool_step s (s\<lparr>dialling := remove1 net (dialling s), in_use := (net, opened s) # in_use s,
       opened := Suc (opened s)\<rparr>)"
| dial_failed:
    "net \<in> set (dialling s) \<Longrightarrow> pool_step s (s\<lparr>dialling := remove1 net (dialling s)\<rparr>)"
| exchange_failed:
    "(net, c) \<in> set (in_use s) \<Longrightarrow>
     pool_step s (s\<lparr>in_use := remove1 (net, c) (in_use s), shut := c # shut s\<rparr>)"
| give_back:
    "(net, c) \<in> set (in_use s) \<Longrightarrow> release (pool s) net (Some c) = (p, cs) \<Longrightarrow>
     pool_step s (s\<lparr>pool := p, in_use := remove1 (net, c) (in_use s), shut := cs @ shut s\<rparr>)"
| close_pool:
    "Close (Some (pool s)) = (Some p, cs) \<Longrightarrow> pool_step s (s\<lparr>pool := p, shut := cs @ shut s\<rparr>)"

inductive_simps pool_step_iff: "pool_step s s'"

abbreviation pool_run :: "pool_sys \<Rightarrow> pool_sys \<Rightarrow> bool" where
  "pool_run \<equiv> pool_step\<^sup>*\<^sup>*"

subsection \<open>The contract of a resource pool\<close>

text \<open>
  A pool owns what it holds: taking moves one resource to the caller, giving one back moves it
  to the pool or has it closed, stopping closes all the pool holds.  No operation makes or
  loses one.
\<close>

locale resource_pool =
  fixes take_from :: "'p \<Rightarrow> 'n \<Rightarrow> 'r option \<times> 'p"
    and give_to :: "'p \<Rightarrow> 'n \<Rightarrow> 'r \<Rightarrow> 'p \<times> 'r list"
    and stop :: "'p \<Rightarrow> 'p \<times> 'r list"
    and held :: "'p \<Rightarrow> 'r multiset"
    and ok :: "'p \<Rightarrow> bool"
    and stopped :: "'p \<Rightarrow> bool"
  assumes take_ok: "ok p \<Longrightarrow> take_from p n = (ro, p') \<Longrightarrow> ok p' \<and> stopped p' = stopped p"
    and give_ok: "ok p \<Longrightarrow> give_to p n r = (p', cs) \<Longrightarrow> ok p' \<and> stopped p' = stopped p"
    and stop_ok: "ok p \<Longrightarrow> stop p = (p', cs) \<Longrightarrow> ok p' \<and> stopped p'"
    and take_held: "ok p \<Longrightarrow> take_from p n = (ro, p') \<Longrightarrow>
      held p = (case ro of None \<Rightarrow> held p' | Some r \<Rightarrow> add_mset r (held p'))"
    and give_held: "ok p \<Longrightarrow> give_to p n r = (p', cs) \<Longrightarrow> held p' + mset cs = add_mset r (held p)"
    and stop_held: "ok p \<Longrightarrow> stop p = (p', cs) \<Longrightarrow> held p' + mset cs = held p"
    and stopped_holds_none: "ok p \<Longrightarrow> stopped p \<Longrightarrow> held p = {#}"
begin

text \<open>Every resource that exists: in the pool, in use or closed.\<close>

definition account :: "'p \<Rightarrow> 'r list \<Rightarrow> 'r list \<Rightarrow> 'r multiset" where
  "account p used gone = held p + mset used + mset gone"

lemma account_take:
  "ok p \<Longrightarrow> take_from p n = (Some r, p') \<Longrightarrow> account p' (r # used) gone = account p used gone"
  using take_held [of p n "Some r" p'] by (simp add: account_def)

lemma account_give:
  "ok p \<Longrightarrow> give_to p n r = (p', cs) \<Longrightarrow>
     account p' used (cs @ gone) = account p (r # used) gone"
  using give_held [of p n r p' cs] by (simp add: account_def union_ac)

lemma account_stop:
  "ok p \<Longrightarrow> stop p = (p', cs) \<Longrightarrow> account p' used (cs @ gone) = account p used gone"
  using stop_held [of p p' cs] by (simp add: account_def union_ac)

lemma account_stopped:
  "ok p \<Longrightarrow> stopped p \<Longrightarrow> account p [] gone = mset gone"
  by (simp add: account_def stopped_holds_none)

end

subsection \<open>The engine pool provides it\<close>

definition pool_ok :: "engineConnPool \<Rightarrow> bool" where
  "pool_ok p \<longleftrightarrow>
     map_ok (conns p) \<and> 1 \<le> maxPerNetwork p \<and>
     (\<forall>cs \<in> snd ` set (conns p). int (length cs) \<le> maxPerNetwork p \<and> (pool_closed p \<longrightarrow> cs = []))"

definition pool_held :: "engineConnPool \<Rightarrow> conn multiset" where
  "pool_held p = mset (concat (map snd (conns p)))"

definition take_conn :: "engineConnPool \<Rightarrow> string \<Rightarrow> conn option \<times> engineConnPool" where
  "take_conn p network =
     (case borrow p network of
        (Pooled c, p') \<Rightarrow> (Some c, p') | (PoolClosed, p') \<Rightarrow> (None, p') | (MustDial, p') \<Rightarrow> (None, p'))"

lemma newEngineConnPool_ok: "pool_ok (newEngineConnPool a t m)"
  by (auto simp: newEngineConnPool_def pool_ok_def map_ok_def)

lemma newEngineConnPool_fields:
  "pool_held (newEngineConnPool a t m) = {#}" "\<not> pool_closed (newEngineConnPool a t m)"
  by (auto simp: newEngineConnPool_def pool_held_def)

lemma mset_map_del:
  "map_ok m \<Longrightarrow> mset (concat (map snd m)) =
     mset (case map_get m k of None \<Rightarrow> [] | Some cs \<Rightarrow> cs) + mset (concat (map snd (map_del k m)))"
proof (induction m)
  case Nil
  then show ?case by (simp add: map_del_def)
next
  case (Cons a m)
  then have m: "map_ok m" and "fst a \<notin> fst ` set m" by (simp_all add: map_ok_def)
  then have "map_get m (fst a) = None" by (simp add: map_get_None_iff)
  with Cons.IH [OF m] map_del_absent [of m k] show ?case
    by (cases a) (auto simp: map_del_def map_get_def split: option.splits)
qed

lemma held_put:
  "map_ok (conns p) \<Longrightarrow>
     pool_held (p\<lparr>conns := map_put n cs (conns p)\<rparr>) + mset (pooled p n) = pool_held p + mset cs"
  using mset_map_del [of "conns p" n] by (simp add: pool_held_def pooled_def map_put_def union_ac)

lemma pooled_within: "pool_ok p \<Longrightarrow> int (length (pooled p n)) \<le> maxPerNetwork p"
  by (force simp: pool_ok_def pooled_def map_get_Some_iff split: option.splits)

lemma pool_ok_put:
  assumes "pool_ok p" and "int (length cs) \<le> maxPerNetwork p" and "\<not> pool_closed p"
  shows "pool_ok (p\<lparr>conns := map_put n cs (conns p)\<rparr>)"
  using assms by (auto simp: pool_ok_def map_put_def map_del_def map_ok_put [unfolded map_put_def map_del_def])

lemma borrow_cases:
  obtains (closed) "pool_closed p" "borrow p n = (PoolClosed, p)"
  | (must_dial) "\<not> pool_closed p" "pooled p n = []" "borrow p n = (MustDial, p)"
  | (some) cs c where "\<not> pool_closed p" "pooled p n = cs @ [c]"
      "borrow p n = (Pooled c, p\<lparr>conns := map_put n cs (conns p)\<rparr>)"
proof (cases "pool_closed p")
  case True
  then show ?thesis by (intro closed) (simp_all add: borrow_def)
next
  case False
  then show ?thesis
    by (cases "pooled p n" rule: rev_cases) (auto simp: borrow_def intro: must_dial some)
qed

lemma pool_ok_map: "pool_ok p \<Longrightarrow> map_ok (conns p)"
  by (simp add: pool_ok_def)

lemma drain_simp: "map_ok (conns p) \<Longrightarrow> map_ok (map (\<lambda>(n, _). (n, [])) (conns p))"
  by (simp add: map_ok_def comp_def case_prod_beta')

interpretation engine_pool: resource_pool take_conn "\<lambda>p n c. release p n (Some c)" drain
  pool_held pool_ok pool_closed
proof unfold_locales
  fix p p' :: engineConnPool and n :: string and r :: conn and ro cs
  assume ok: "pool_ok p"
  note mok = pool_ok_map [OF ok]
  show "pool_held p = {#}" if "pool_closed p"
    using ok that by (force simp: pool_ok_def pool_held_def)
  { assume t: "take_conn p n = (ro, p')"
    show "pool_ok p' \<and> pool_closed p' = pool_closed p"
      by (cases rule: borrow_cases [of p n])
        (use ok t pooled_within [OF ok, of n] in \<open>auto simp: take_conn_def intro!: pool_ok_put\<close>)
    show "pool_held p = (case ro of None \<Rightarrow> pool_held p' | Some r \<Rightarrow> add_mset r (pool_held p'))"
      by (cases rule: borrow_cases [of p n])
        (use t held_put [OF mok, of n "butlast (pooled p n)"] in \<open>auto simp: take_conn_def\<close>) }
  { assume g: "release p n (Some r) = (p', cs)"
    show "pool_ok p' \<and> pool_closed p' = pool_closed p"
      using ok g by (auto simp: release_def Let_def split: if_splits intro!: pool_ok_put)
    show "pool_held p' + mset cs = add_mset r (pool_held p)"
      using g held_put [OF mok, of n "pooled p n @ [r]"]
      by (auto simp: release_def Let_def split: if_splits) }
  { assume d: "drain p = (p', cs)"
    show "pool_ok p' \<and> pool_closed p'"
      using ok d drain_simp [OF mok] by (auto simp: drain_def pool_ok_def)
    show "pool_held p' + mset cs = pool_held p"
      using d by (auto simp: drain_def pool_held_def comp_def case_prod_beta') }
qed

lemma borrow_ok: "pool_ok p \<Longrightarrow> borrow p n = (b, p') \<Longrightarrow> pool_ok p'"
  using engine_pool.take_ok [of p n _ p']
  by (cases b) (auto simp: take_conn_def)

lemma exchangeOn_ok:
  "pool_ok p \<Longrightarrow> pool_after (exchangeOn f p deadline now n q c) = Some p' \<Longrightarrow> pool_ok p'"
  using engine_pool.give_ok [of p n c]
  by (auto simp: exchangeOn_def Let_def split: sum.splits prod.splits)

lemma Exchange_ok:
  assumes "\<forall>p. po = Some p \<longrightarrow> pool_ok p"
    and "pool_after (Exchange d f po deadline now network request) = Some p'"
  shows "pool_ok p'"
proof (cases po)
  case None
  with assms(2) show ?thesis by (simp add: Exchange_def)
next
  case (Some p)
  with assms(1) have ok: "pool_ok p" by simp
  show ?thesis
  proof (cases request)
    case None
    with Some assms(2) ok show ?thesis by (simp add: Exchange_def)
  next
    case R: (Some q)
    obtain b p1 where b: "borrow p (normalizeEngineNetwork network) = (b, p1)"
      by (cases "borrow p (normalizeEngineNetwork network)")
    have ok1: "pool_ok p1" by (rule borrow_ok [OF ok b])
    have "pool_after (exchangeOn f p1 deadline now n q c) = Some p' \<Longrightarrow> pool_ok p'" for n c
      by (rule exchangeOn_ok [OF ok1])
    with Some R b ok1 assms(2) show ?thesis
      by (cases b) (auto simp: Exchange_def Let_def split: sum.splits)
  qed
qed

subsection \<open>No connection is lost, shared or kept open\<close>

definition sys_ok :: "pool_sys \<Rightarrow> bool" where
  "sys_ok s \<longleftrightarrow> pool_ok (pool s) \<and>
     engine_pool.account (pool s) (map snd (in_use s)) (shut s) = mset [0..<opened s]"

lemma sys_ok_start: "sys_ok (pool_start (newEngineConnPool a t m))"
  by (simp add: sys_ok_def pool_start_def newEngineConnPool_ok engine_pool.account_def
      newEngineConnPool_fields)

lemma mset_remove1_snd:
  assumes "(n, c) \<in> set xs"
  shows "mset (map snd xs) = add_mset c (mset (map snd (remove1 (n, c) xs)))"
proof -
  have "mset xs = add_mset (n, c) (mset (remove1 (n, c) xs))" using assms by simp
  then have "mset xs = add_mset (n, c) (mset (remove1 (n, c) xs))" by simp
  then have "image_mset snd (mset xs) = add_mset c (image_mset snd (mset (remove1 (n, c) xs)))"
    by (metis image_mset_add_mset snd_conv)
  then show ?thesis by (simp only: mset_map)
qed

lemma account_cong: "mset used = mset used' \<Longrightarrow>
    engine_pool.account p used gone = engine_pool.account p used' gone"
  by (simp add: engine_pool.account_def)

lemma account_use1:
  assumes "(n, c) \<in> set xs"
  shows "engine_pool.account p (map snd xs) gone =
     engine_pool.account p (c # map snd (remove1 (n, c) xs)) gone"
  by (rule account_cong, rule trans [OF mset_remove1_snd [OF assms]]) simp

lemma borrow_MustDial: "borrow p n = (MustDial, p') \<Longrightarrow> p' = p"
  by (cases rule: borrow_cases [of p n]) auto

lemma pool_step_ok: "pool_step s s' \<Longrightarrow> sys_ok s \<Longrightarrow> sys_ok s'"
proof (induction rule: pool_step.induct)
  case (take_pooled s net c p)
  then have t: "take_conn (pool s) net = (Some c, p)" by (simp add: take_conn_def)
  with take_pooled.prems show ?case
    using engine_pool.take_ok [OF _ t] engine_pool.account_take [OF _ t]
    by (simp add: sys_ok_def)
next
  case (start_dial s net p)
  then show ?case using borrow_MustDial [OF start_dial.hyps] by (simp add: sys_ok_def)
next
  case (dialled net s)
  then show ?case by (simp add: sys_ok_def engine_pool.account_def)
next
  case (dial_failed net s)
  then show ?case by (simp add: sys_ok_def)
next
  case (exchange_failed net c s)
  then show ?case
    using account_use1 [OF exchange_failed.hyps] by (simp add: sys_ok_def engine_pool.account_def)
next
  case (give_back net c s p cs)
  then show ?case
    using engine_pool.give_ok [OF _ give_back.hyps(2)] engine_pool.account_give [OF _ give_back.hyps(2)]
      account_use1 [OF give_back.hyps(1)]
    by (simp add: sys_ok_def)
next
  case (close_pool s p cs)
  then have d: "drain (pool s) = (p, cs)" by (simp add: Close_def split: prod.splits)
  from close_pool.prems show ?case
    using engine_pool.stop_ok [OF _ d] engine_pool.account_stop [OF _ d] by (simp add: sys_ok_def)
qed

lemma pool_run_ok: "pool_run s s' \<Longrightarrow> sys_ok s \<Longrightarrow> sys_ok s'"
  by (induction rule: rtranclp_induct) (auto intro: pool_step_ok)

lemma closed_step: "pool_step s s' \<Longrightarrow> sys_ok s \<Longrightarrow> pool_closed (pool s) \<Longrightarrow> pool_closed (pool s')"
  by (auto simp: pool_step_iff borrow_def release_def Close_def drain_def Let_def split: if_splits)

lemma sample_run:
  "pool_run (pool_start (newEngineConnPool ''e'' 0 1))
     \<lparr>pool = newEngineConnPool ''e'' 0 1, dialling = [], in_use = [(''udp'', 0)], shut = [], opened = 1\<rparr>"
proof -
  let ?p = "newEngineConnPool ''e'' 0 1"
  have b: "borrow ?p ''udp'' = (MustDial, ?p)"
    by (simp add: borrow_def newEngineConnPool_def pooled_def map_get_def)
  have "pool_step (pool_start ?p) ((pool_start ?p)\<lparr>pool := ?p, dialling := ''udp'' # dialling (pool_start ?p)\<rparr>)"
    using b by (intro start_dial) (simp add: pool_start_def)
  then have 1: "pool_step (pool_start ?p)
      \<lparr>pool = ?p, dialling = [''udp''], in_use = [], shut = [], opened = 0\<rparr>"
    by (simp add: pool_start_def)
  have 2: "pool_step \<lparr>pool = ?p, dialling = [''udp''], in_use = [], shut = [], opened = 0\<rparr>
      \<lparr>pool = ?p, dialling = [], in_use = [(''udp'', 0)], shut = [], opened = 1\<rparr>"
    using dialled [of "''udp''" "\<lparr>pool = ?p, dialling = [''udp''], in_use = [], shut = [], opened = 0\<rparr>"]
    by simp
  from 1 2 show ?thesis by (rule converse_rtranclp_into_rtranclp [OF _ r_into_rtranclp])
qed

text \<open>
  C14.  Under any interleaving of concurrent exchanges, dials and a close, from a new pool: a
  connection is at any time in exactly one place (idle in the pool, in use by one caller, or
  closed) and none that was opened is forgotten.
\<close>

theorem connections_conserved:
  assumes "pool_run (pool_start (newEngineConnPool a t m)) s"
  shows "distinct (concat (map snd (conns (pool s))) @ map snd (in_use s) @ shut s) \<and>
    set (concat (map snd (conns (pool s)))) \<union> snd ` set (in_use s) \<union> set (shut s) = {0..<opened s}"
proof -
  have "sys_ok s" by (rule pool_run_ok [OF assms sys_ok_start])
  then have m: "mset (concat (map snd (conns (pool s))) @ map snd (in_use s) @ shut s) = mset [0..<opened s]"
    by (simp add: sys_ok_def engine_pool.account_def pool_held_def union_assoc)
  then have "distinct (concat (map snd (conns (pool s))) @ map snd (in_use s) @ shut s)"
    using mset_eq_imp_distinct_iff [OF m] by simp
  moreover have "set (concat (map snd (conns (pool s))) @ map snd (in_use s) @ shut s) = set [0..<opened s]"
    by (rule mset_eq_setD [OF m])
  ultimately show ?thesis by auto
qed

lemma connections_conserved_witness:
  "\<exists>s. pool_run (pool_start (newEngineConnPool ''e'' 0 1)) s \<and> in_use s = [(''udp'', 0)] \<and>
     set (concat (map snd (conns (pool s)))) \<union> snd ` set (in_use s) \<union> set (shut s) = {0..<1}"
  using connections_conserved [OF sample_run] sample_run
  by (intro exI conjI) (assumption | simp)+

text \<open>
  C29.  A bounded pool: it never keeps more idle connections for a network than its maximum,
  and once it is closed it keeps none, so that when the last caller is done every connection
  ever opened has been closed.
\<close>

theorem pool_bounded_and_drained:
  assumes "pool_run (pool_start (newEngineConnPool a t m)) s"
  shows "int (length (pooled (pool s) net)) \<le> maxPerNetwork (pool s) \<and>
    (pool_closed (pool s) \<longrightarrow> pooled (pool s) net = [] \<and>
      (in_use s = [] \<longrightarrow> set (shut s) = {0..<opened s}))"
proof -
  have ok: "sys_ok s" by (rule pool_run_ok [OF assms sys_ok_start])
  then have p: "pool_ok (pool s)" by (simp add: sys_ok_def)
  have "pooled (pool s) net = []" if "pool_closed (pool s)"
    using p that by (force simp: pool_ok_def pooled_def map_get_Some_iff split: option.splits)
  moreover have "set (shut s) = {0..<opened s}" if "pool_closed (pool s)" "in_use s = []"
  proof -
    have "mset (shut s) = mset [0..<opened s]"
      using ok that engine_pool.account_stopped [OF p] by (simp add: sys_ok_def)
    then show ?thesis using mset_eq_setD by fastforce
  qed
  ultimately show ?thesis using pooled_within [OF p] by blast
qed


lemma pool_bounded_and_drained_witness:
  "\<exists>s. pool_run (pool_start (newEngineConnPool ''e'' 0 1)) s \<and> in_use s = [(''udp'', 0)] \<and>
     int (length (pooled (pool s) ''udp'')) \<le> 1"
  using pool_bounded_and_drained [OF sample_run, of "''udp''"] sample_run
  by (intro exI conjI) (assumption | simp add: newEngineConnPool_def)+

lemma exchangeOn_finishes:
  assumes "exchangeOn exchangeWithConn (pool s) deadline now n q c = r" and "in_use s = (n, c) # rest"
  shows "\<exists>s'. pool_run s s' \<and> pool_after r = Some (pool s') \<and> in_use s' = rest \<and>
    dialling s' = dialling s \<and> shut s' = closed_conns r @ shut s"
proof (cases "exchangeWithConn n (pool_timeout (pool s))
    (case deadline of Some d \<Rightarrow> d | None \<Rightarrow> now + pool_timeout (pool s)) q c")
  case (Inl err)
  let ?s' = "s\<lparr>in_use := remove1 (n, c) (in_use s), shut := c # shut s\<rparr>"
  have "pool_run s ?s'" using assms(2) by (intro r_into_rtranclp exchange_failed) simp
  moreover have "pool_after r = Some (pool ?s')" "shut ?s' = closed_conns r @ shut s"
    using Inl assms(1) by (auto simp: exchangeOn_def)
  ultimately show ?thesis using assms(2) by (intro exI [of _ ?s']) simp
next
  case (Inr response)
  obtain p' cs where rel: "release (pool s) n (Some c) = (p', cs)"
    by (cases "release (pool s) n (Some c)")
  let ?s' = "s\<lparr>pool := p', in_use := remove1 (n, c) (in_use s), shut := cs @ shut s\<rparr>"
  have "pool_run s ?s'" using assms(2) rel by (intro r_into_rtranclp give_back) simp_all
  moreover have "pool_after r = Some (pool ?s')" "shut ?s' = closed_conns r @ shut s"
    using Inr rel assms(1) by (auto simp: exchangeOn_def)
  ultimately show ?thesis using assms(2) by (intro exI [of _ ?s']) simp
qed

text \<open>
  \<open>Exchange\<close> implements the steps: a call that runs alone, with a dial that opens a new
  connection, is a run of the concurrent pool that ends with no connection left in use and no
  dial pending; what it reports closed is what the run closed.
\<close>

theorem Exchange_is_a_run:
  assumes "Exchange dial exchangeWithConn (Some (pool s)) deadline now network request = r"
    and "\<And>n a t c. dial n a t = Inr c \<Longrightarrow> c = opened s"
  shows "\<exists>s'. pool_run s s' \<and> pool_after r = Some (pool s') \<and> in_use s' = in_use s \<and>
    dialling s' = dialling s \<and> shut s' = closed_conns r @ shut s"
proof (cases request)
  case None
  with assms(1) show ?thesis by (intro exI [of _ s]) (auto simp: Exchange_def Let_def)
next
  case (Some q)
  let ?n = "normalizeEngineNetwork network"
  show ?thesis
  proof (cases rule: borrow_cases [of "pool s" ?n])
    case closed
    with assms(1) Some show ?thesis by (intro exI [of _ s]) (auto simp: Exchange_def Let_def)
  next
    case (some cs c)
    let ?s1 = "s\<lparr>pool := (pool s)\<lparr>conns := map_put ?n cs (conns (pool s))\<rparr>, in_use := (?n, c) # in_use s\<rparr>"
    have 1: "pool_step s ?s1" by (rule take_pooled [OF some(3)])
    have "exchangeOn exchangeWithConn (pool ?s1) deadline now ?n q c = r"
      using assms(1) Some some(3) by (simp add: Exchange_def Let_def)
    from exchangeOn_finishes [OF this, of "in_use s"] 1 show ?thesis
      by (auto intro: converse_rtranclp_into_rtranclp)
  next
    case must_dial
    let ?s1 = "s\<lparr>dialling := ?n # dialling s\<rparr>"
    have "pool_step s (s\<lparr>pool := pool s, dialling := ?n # dialling s\<rparr>)"
      by (rule start_dial [OF must_dial(3)])
    then have 1: "pool_step s ?s1" by simp
    show ?thesis
    proof (cases "dial ?n (pool_addr (pool s)) (pool_timeout (pool s))")
      case (Inl err)
      have "pool_step ?s1 (?s1\<lparr>dialling := remove1 ?n (dialling ?s1)\<rparr>)" by (rule dial_failed) simp
      then have "pool_step ?s1 s" by simp
      with 1 have "pool_run s s" by simp
      with Inl assms(1) Some must_dial show ?thesis by (intro exI [of _ s]) (auto simp: Exchange_def Let_def)
    next
      case (Inr c)
      then have c: "c = opened s" by (rule assms(2))
      let ?s2 = "s\<lparr>in_use := (?n, c) # in_use s, opened := Suc (opened s)\<rparr>"
      have "pool_step ?s1 (?s1\<lparr>dialling := remove1 ?n (dialling ?s1),
          in_use := (?n, opened ?s1) # in_use ?s1, opened := Suc (opened ?s1)\<rparr>)"
        by (rule dialled) simp
      then have 2: "pool_step ?s1 ?s2" by (simp add: c)
      have "exchangeOn exchangeWithConn (pool ?s2) deadline now ?n q c = r"
        using assms(1) Some must_dial(3) Inr by (simp add: Exchange_def Let_def)
      from exchangeOn_finishes [OF this, of "in_use s"] 1 2 show ?thesis
        by (auto intro: converse_rtranclp_into_rtranclp)
    qed
  qed
qed

definition sample_query :: dns_msg where
  "sample_query = \<lparr>msg_id = 1, rcode = 0, truncated = False,
     questions = [\<lparr>qname = ''a.'', qtype = 1, qclass = 1\<rparr>], answer = [], ns = [], extra = []\<rparr>"

lemma Exchange_is_a_run_witness:
  "\<exists>s'. pool_run (pool_start (newEngineConnPool ''e'' 0 1)) s' \<and> in_use s' = [] \<and> dialling s' = [] \<and>
     shut s' = []"
proof -
  let ?s = "pool_start (newEngineConnPool ''e'' 0 1)"
  let ?r = "Exchange (\<lambda>_ _ _. Inr 0) (\<lambda>_ _ _ q _. Inr (Some q)) (Some (pool ?s)) None 0 ''tcp'' (Some sample_query)"
  have "closed_conns ?r = []"
    by (simp add: Exchange_def exchangeOn_def release_def borrow_def pooled_def map_get_def
        normalizeEngineNetwork_def newEngineConnPool_def pool_start_def Let_def)
  with Exchange_is_a_run [of "\<lambda>_ _ _. Inr 0" _ ?s None 0 "''tcp''" "Some sample_query" ?r]
  show ?thesis by (auto simp: pool_start_def)
qed

text \<open>
  What a call leaves behind: a connection on which the exchange failed is closed and not
  pooled, and the one on which it succeeded is the next that is lent for that network, unless
  the pool is closed or full.
\<close>

theorem exchange_outcome:
  assumes "borrow p (normalizeEngineNetwork network) = (Pooled c, p1)"
    and "r = Exchange dial exchangeWithConn (Some p) deadline now network (Some q)"
  shows "(\<forall>err. reply r = Inl err \<longrightarrow> closed_conns r = [c] \<and> pool_after r = Some p1) \<and>
    (\<forall>m. reply r = Inr m \<longrightarrow> pool_ok p \<longrightarrow> closed_conns r = [] \<and>
       (\<exists>p2 p3. pool_after r = Some p2 \<and> borrow p2 (normalizeEngineNetwork network) = (Pooled c, p3)))"
proof -
  let ?n = "normalizeEngineNetwork network"
  have r: "r = exchangeOn exchangeWithConn p1 deadline now ?n q c"
    using assms by (simp add: Exchange_def Let_def)
  obtain cs where open': "\<not> pool_closed p" and cs: "pooled p ?n = cs @ [c]"
    and p1: "p1 = p\<lparr>conns := map_put ?n cs (conns p)\<rparr>"
    using assms(1) by (cases rule: borrow_cases [of p ?n]) auto
  have "closed_conns r = [c] \<and> pool_after r = Some p1" if "reply r = Inl err" for err
    using that r by (auto simp: exchangeOn_def Let_def split: sum.splits prod.splits)
  moreover have "closed_conns r = [] \<and>
      (\<exists>p2 p3. pool_after r = Some p2 \<and> borrow p2 ?n = (Pooled c, p3))"
    if m: "reply r = Inr m" and ok: "pool_ok p" for m
  proof -
    have room: "int (length cs) < maxPerNetwork p" using pooled_within [OF ok, of ?n] cs by simp
    have "pooled p1 ?n = cs" by (simp add: p1 pooled_def go_map_simps)
    then have rel: "release p1 ?n (Some c) = (p1\<lparr>conns := map_put ?n (cs @ [c]) (conns p1)\<rparr>, [])"
      using open' room p1 by (simp add: release_def)
    with m r have "closed_conns r = []"
      and after: "pool_after r = Some (p1\<lparr>conns := map_put ?n (cs @ [c]) (conns p1)\<rparr>)"
      by (auto simp: exchangeOn_def Let_def split: sum.splits)
    moreover have "fst (borrow (p1\<lparr>conns := map_put ?n (cs @ [c]) (conns p1)\<rparr>) ?n) = Pooled c"
      using open' p1 by (simp add: borrow_def pooled_def go_map_simps)
    ultimately show ?thesis by (metis prod.collapse)
  qed
  ultimately show ?thesis by blast
qed

lemma exchange_outcome_witness:
  "closed_conns (Exchange (\<lambda>_ _ _. Inr 7) (\<lambda>_ _ _ _ _. Inl ''timeout'')
     (Some (newEngineConnPool ''e'' 0 1\<lparr>conns := [(''udp'', [4])]\<rparr>)) None 0 ''udp'' (Some sample_query)) = [4]"
proof -
  let ?p = "newEngineConnPool ''e'' 0 1\<lparr>conns := [(''udp'', [4])]\<rparr>"
  have b: "borrow ?p (normalizeEngineNetwork ''udp'') = (Pooled 4, ?p\<lparr>conns := map_put ''udp'' [] [(''udp'', [4])]\<rparr>)"
    by (simp add: borrow_def pooled_def map_get_def normalizeEngineNetwork_def newEngineConnPool_def)
  let ?r = "Exchange (\<lambda>_ _ _. Inr 7) (\<lambda>_ _ _ _ _. Inl ''timeout'') (Some ?p) None 0 ''udp'' (Some sample_query)"
  have "reply ?r = Inl ''timeout''"
    using b by (simp add: Exchange_def exchangeOn_def)
  with exchange_outcome [OF b refl, of "\<lambda>_ _ _. Inr 7" "\<lambda>_ _ _ _ _. Inl ''timeout''" None 0 sample_query]
  show ?thesis by blast
qed

end
