(* ===== verification/Channel.thy ===== *)
theory Channel
  imports Prelude
begin

section \<open>Buffered channels\<close>

text \<open>
  A buffered Go channel: its capacity, what waits in it and whether it has been closed.  The
  agent only sends in a \<open>select\<close> with a \<open>default\<close> branch (\<open>trySend\<close>), which takes the
  default when the buffer is full; sending on a closed channel panics (\<open>None\<close>).
\<close>

record 'a chan =
  capacity :: int
  buffer :: "'a list"
  chan_closed :: bool

definition make_chan :: "int \<Rightarrow> 'a chan" where
  "make_chan n = \<lparr>capacity = n, buffer = [], chan_closed = False\<rparr>"

definition trySend :: "'a chan \<Rightarrow> 'a \<Rightarrow> (bool \<times> 'a chan) option" where
  "trySend c x =
     (if chan_closed c then None
      else if int (length (buffer c)) < capacity c then Some (True, c\<lparr>buffer := buffer c @ [x]\<rparr>)
      else Some (False, c))"

datatype 'a received = Got 'a | ClosedChan | WouldBlock

definition recv :: "'a chan \<Rightarrow> 'a received \<times> 'a chan" where
  "recv c =
     (case buffer c of
        x # xs \<Rightarrow> (Got x, c\<lparr>buffer := xs\<rparr>)
      | [] \<Rightarrow> (if chan_closed c then ClosedChan else WouldBlock, c))"

text \<open>A sequence of sends, none of which waits.\<close>

fun offer :: "('q \<Rightarrow> 'a \<Rightarrow> (bool \<times> 'q) option) \<Rightarrow> 'q \<Rightarrow> 'a list \<Rightarrow> (bool list \<times> 'q) option" where
  "offer send q [] = Some ([], q)"
| "offer send q (x # xs) =
     (case send q x of
        None \<Rightarrow> None
      | Some (ok, q') \<Rightarrow>
          (case offer send q' xs of
             None \<Rightarrow> None
           | Some (oks, q'') \<Rightarrow> Some (ok # oks, q'')))"

text \<open>
  The contract of a lossy queue: a send keeps the order and never loses what is already there;
  when there is no room it is the new element that is dropped.
\<close>

locale lossy_queue =
  fixes send :: "'q \<Rightarrow> 'a \<Rightarrow> (bool \<times> 'q) option"
    and contents :: "'q \<Rightarrow> 'a list"
    and room :: "'q \<Rightarrow> nat"
    and ok :: "'q \<Rightarrow> bool"
  assumes send_room: "ok q \<Longrightarrow> 0 < room q \<Longrightarrow>
      \<exists>q'. send q x = Some (True, q') \<and> ok q' \<and> contents q' = contents q @ [x] \<and> Suc (room q') = room q"
    and send_full: "ok q \<Longrightarrow> room q = 0 \<Longrightarrow>
      \<exists>q'. send q x = Some (False, q') \<and> ok q' \<and> contents q' = contents q \<and> room q' = 0"
begin

lemma send_cases:
  assumes "ok q"
  obtains (sent) q' where "0 < room q" "send q x = Some (True, q')" "ok q'"
      "contents q' = contents q @ [x]" "Suc (room q') = room q"
  | (lost) q' where "room q = 0" "send q x = Some (False, q')" "ok q'" "contents q' = contents q"
      "room q' = 0"
  using send_room [OF assms] send_full [OF assms] by blast

text \<open>The first elements for which there is room are kept in order, the rest is dropped.\<close>

lemma offer_keeps_prefix:
  assumes "ok q"
  shows "\<exists>q'. offer send q xs =
      Some (replicate (min (length xs) (room q)) True @ replicate (length xs - room q) False, q') \<and>
    ok q' \<and> contents q' = contents q @ take (room q) xs"
  using assms
proof (induction xs arbitrary: q)
  case Nil
  then show ?case by simp
next
  case (Cons x xs)
  from Cons.prems show ?case
  proof (cases rule: send_cases [where x = x])
    case (sent q1)
    from Cons.IH [OF sent(3)] sent show ?thesis by (cases "room q") auto
  next
    case (lost q1)
    from Cons.IH [OF lost(3)] lost show ?thesis by auto
  qed
qed

end

definition chan_room :: "'a chan \<Rightarrow> nat" where
  "chan_room c = nat (capacity c - int (length (buffer c)))"

interpretation channel: lossy_queue trySend buffer chan_room "\<lambda>c. \<not> chan_closed c"
  by unfold_locales (auto simp: trySend_def chan_room_def)

lemma trySend_fields:
  assumes "trySend c x = Some (ok, c')"
  shows "capacity c' = capacity c" "chan_closed c' = chan_closed c"
    "buffer c' = (if ok then buffer c @ [x] else buffer c)"
    "ok \<longleftrightarrow> int (length (buffer c)) < capacity c"
  using assms by (auto simp: trySend_def split: if_splits)

lemma trySend_None_iff [simp]: "trySend c x = None \<longleftrightarrow> chan_closed c"
  by (auto simp: trySend_def)

end
