(* ===== verification/GoNet.thy ===== *)
theory GoNet
  imports GoStrings
begin

section \<open>Host and port\<close>

text \<open>
  \<open>net.SplitHostPort\<close> and \<open>net.JoinHostPort\<close> of Go's standard library, and the addresses of
  peers (\<open>net.Addr\<close>): whether one is a \<open>*net.TCPAddr\<close> and the text its \<open>String\<close> returns.
  An error of \<open>SplitHostPort\<close> is \<open>None\<close>; its callers only test for it.
\<close>

definition last_colon :: "string \<Rightarrow> (string \<times> string) option" where
  "last_colon s =
     (let suf = takeWhile (\<lambda>c. c \<noteq> CHR '':'') (rev s) in
      if length suf = length s then None
      else Some (take (length s - Suc (length suf)) s, rev suf))"

definition splitHostPort :: "string \<Rightarrow> (string \<times> string) option" where
  "splitHostPort hostport =
     (case last_colon hostport of
        None \<Rightarrow> None
      | Some (front, port) \<Rightarrow>
          if take 1 hostport = ''['' then
            (let host = takeWhile (\<lambda>c. c \<noteq> CHR '']'') (drop 1 hostport);
                 close = Suc (length host)
             in if \<not> front = ''['' @ host @ '']'' then None
                else if CHR ''['' \<in> set (drop 1 hostport) then None
                else if CHR '']'' \<in> set (drop (Suc close) hostport) then None
                else Some (host, port))
          else
            if CHR '':'' \<in> set front then None
            else if CHR ''['' \<in> set hostport then None
            else if CHR '']'' \<in> set hostport then None
            else Some (front, port))"

definition joinHostPort :: "string \<Rightarrow> string \<Rightarrow> string" where
  "joinHostPort host port =
     (if CHR '':'' \<in> set host then ''['' @ host @ '']:'' @ port else host @ '':'' @ port)"

lemma last_colon_append:
  assumes "CHR '':'' \<notin> set port"
  shows "last_colon (front @ CHR '':'' # port) = Some (front, port)"
proof -
  have "takeWhile (\<lambda>c. c \<noteq> CHR '':'') (rev (front @ CHR '':'' # port)) = rev port"
    using assms by (simp add: takeWhile_append takeWhile_eq_all_conv takeWhile_tail)
  then show ?thesis by (simp add: last_colon_def)
qed

text \<open>Joining and splitting again gives host and port back.\<close>

lemma split_join_host_port:
  assumes "CHR ''['' \<notin> set host" and "CHR '']'' \<notin> set host"
    and "CHR '':'' \<notin> set port" and "CHR ''['' \<notin> set port" and "CHR '']'' \<notin> set port"
  shows "splitHostPort (joinHostPort host port) = Some (host, port)"
proof (cases "CHR '':'' \<in> set host")
  case False
  then have "take 1 (host @ CHR '':'' # port) \<noteq> ''[''"
    using assms(1) by (cases host) auto
  with False assms show ?thesis
    by (simp add: joinHostPort_def splitHostPort_def last_colon_append)
next
  case True
  have "last_colon (joinHostPort host port) = Some (''['' @ host @ '']'', port)"
    using last_colon_append [OF assms(3), of "''['' @ host @ '']''"] True by (simp add: joinHostPort_def)
  moreover have "takeWhile (\<lambda>c. c \<noteq> CHR '']'') (host @ CHR '']'' # CHR '':'' # port) = host"
    using assms(2) by (simp add: takeWhile_append takeWhile_eq_all_conv)
  ultimately show ?thesis
    using True assms by (simp add: joinHostPort_def splitHostPort_def Let_def)
qed

subsection \<open>IP addresses\<close>

text \<open>
  Whether \<open>netip.ParseAddr\<close> accepts a string: dotted IPv4 with four fields without leading zeros,
  IPv6 with at most one ellipsis, a trailing dotted part and a zone.
\<close>

fun split_on :: "char \<Rightarrow> string \<Rightarrow> string list" where
  "split_on sep [] = [[]]"
| "split_on sep (c # cs) =
     (if c = sep then [] # split_on sep cs
      else case split_on sep cs of [] \<Rightarrow> [[c]] | f # fs \<Rightarrow> (c # f) # fs)"

definition ipv4_field :: "string \<Rightarrow> bool" where
  "ipv4_field f \<longleftrightarrow>
     f \<noteq> '''' \<and> list_all digit_char f \<and> (length f = 1 \<or> take 1 f \<noteq> ''0'') \<and> decimal_value f \<le> 255"

definition parseIPv4 :: "string \<Rightarrow> bool" where
  "parseIPv4 s \<longleftrightarrow> (let fs = split_on CHR ''.'' s in length fs = 4 \<and> list_all ipv4_field fs)"

definition hex_char :: "char \<Rightarrow> bool" where
  "hex_char c \<longleftrightarrow> digit_char c \<or> (97 \<le> byte c \<and> byte c \<le> 102) \<or> (65 \<le> byte c \<and> byte c \<le> 70)"

definition ipv6_end :: "nat \<Rightarrow> bool \<Rightarrow> string \<Rightarrow> bool" where
  "ipv6_end i ellipsis s \<longleftrightarrow> s = '''' \<and> (if i < 16 then ellipsis else \<not> ellipsis)"

text \<open>The loop over the groups: \<open>i\<close> bytes are done, an ellipsis has been seen or not.\<close>

function ipv6_groups :: "nat \<Rightarrow> bool \<Rightarrow> string \<Rightarrow> bool" where
  "ipv6_groups i ellipsis s =
     (if \<not> i < 16 then ipv6_end i ellipsis s
      else
        let off = length (takeWhile hex_char s); rest = drop off s in
        if off = 0 \<or> 4 < off then False
        else if take 1 rest = ''.'' then
          (if \<not> ellipsis \<and> i \<noteq> 12 then False
           else if i + 4 > 16 then False
           else parseIPv4 s \<and> ipv6_end (i + 4) ellipsis '''')
        else
          (case rest of
             [] \<Rightarrow> ipv6_end (i + 2) ellipsis ''''
           | c # s1 \<Rightarrow>
               if c \<noteq> CHR '':'' then False
               else
                 (case s1 of
                    [] \<Rightarrow> False
                  | d # s2 \<Rightarrow>
                      if d = CHR '':'' then
                        (if ellipsis then False
                         else if s2 = '''' then ipv6_end (i + 2) True ''''
                         else ipv6_groups (i + 2) True s2)
                      else ipv6_groups (i + 2) ellipsis s1)))"
  by pat_completeness auto

termination ipv6_groups
  by (relation "measure (\<lambda>(i, _, _). 16 - i)") auto

declare ipv6_groups.simps [simp del]

definition parseIPv6 :: "string \<Rightarrow> bool" where
  "parseIPv6 whole =
     (let s = takeWhile (\<lambda>c. c \<noteq> CHR ''%'') whole in
      if length s < length whole \<and> Suc (length s) = length whole then False
      else if take 2 s = ''::'' then (if drop 2 s = '''' then True else ipv6_groups 0 True (drop 2 s))
      else ipv6_groups 0 False s)"

definition parseAddr :: "string \<Rightarrow> bool" where
  "parseAddr s =
     (case dropWhile (\<lambda>c. c \<notin> {CHR ''.'', CHR '':'', CHR ''%''}) s of
        [] \<Rightarrow> False
      | c # _ \<Rightarrow>
          if c = CHR ''.'' then parseIPv4 s
          else if c = CHR '':'' then parseIPv6 s
          else False)"

subsection \<open>Addresses of peers\<close>

record remote_addr =
  is_tcp :: bool
  addr_text :: string

definition sourceIP :: "remote_addr option \<Rightarrow> string" where
  "sourceIP remote =
     (case remote of
        None \<Rightarrow> ''''
      | Some a \<Rightarrow>
          (case splitHostPort (addr_text a) of
             None \<Rightarrow> addr_text a
           | Some (host, _) \<Rightarrow> host))"

definition networkForRemoteAddr :: "remote_addr option \<Rightarrow> string" where
  "networkForRemoteAddr remote =
     (case remote of
        None \<Rightarrow> ''udp''
      | Some a \<Rightarrow> if is_tcp a then ''tcp'' else ''udp'')"

lemma not_digit_punct [simp]:
  "\<not> digit_char CHR '':''" "\<not> digit_char CHR ''[''" "\<not> digit_char CHR '']''"
  by (simp_all add: digit_char_def byte_def)

lemma sourceIP_peer:
  assumes "CHR ''['' \<notin> set ip" and "CHR '']'' \<notin> set ip"
  shows "sourceIP (Some \<lparr>is_tcp = t, addr_text = joinHostPort ip (decimal n)\<rparr>) = ip"
  using split_join_host_port [OF assms, of "decimal n"] by (simp add: sourceIP_def decimal_no)

end
