(* ===== verification/QueryEvents.thy ===== *)
theory QueryEvents
  imports GoStrings GoFloat
begin

section \<open>Query events\<close>

text \<open>
  What the proxy reports of a query (\<open>pkg/proxy/types.go\<close>); the metrics collector and the query
  logger read it.
\<close>

record QueryEvent =
  Timestamp :: time
  SourceIP :: string
  Domain :: string
  QueryType :: string
  ResponseCode :: string
  Upstream :: string
  LatencyMs :: f64
  CacheHitKnown :: bool
  CacheHit :: bool
  Denied :: bool

end
