(* ===== verification/Proxy.thy ===== *)
theory Proxy
  imports DomainFilter ResponseCache RateLimiter ConnPool Channel GoNet QueryEvents
begin

section \<open>The DNS proxy\<close>

text \<open>
  \<open>pkg/proxy/proxy.go\<close>: the proxy's state, the handling of one query from the rate limiter to
  the event it emits, and starting and stopping.  \<open>handleQuery\<close> is one call run alone; what
  it gets from outside (the peer's address, the clock, the outcome of dialling and talking
  to the engine and of asking a fallback server, the DNS library) is a \<open>query_env\<close>.  The
  replies written to the client are collected in \<open>wire\<close>, the connections hung up in
  \<open>hung_up\<close>.  \<open>None\<close> is a panic: a nil bucket charged or a send on the closed event channel.
\<close>

subsection \<open>The model\<close>

definition rateLimitOverflowUpstream :: string where "rateLimitOverflowUpstream = ''rate-limit''"
definition cacheHitUpstreamLabel :: string where "cacheHitUpstreamLabel = ''proxy-cache''"
definition cacheStaleUpstreamLabel :: string where "cacheStaleUpstreamLabel = ''proxy-cache-stale''"
definition fallbackUpstreamLabel :: string where "fallbackUpstreamLabel = ''fallback-direct''"
definition deniedUpstreamLabel :: string where "deniedUpstreamLabel = ''domain-filter''"

record Proxy =
  config :: ProxyConfig
  events :: "QueryEvent chan"
  dropped :: int
  drop_callbacks :: nat
  request_limiter :: "requestLimiter option"
  domain_filter :: "domainFilter option"
  filterRcode :: int
  fallbackUpstreams :: "string list"
  cache :: "responseCache option"
  conn_pool :: "engineConnPool option"
  udp_server :: bool
  tcp_server :: bool
  stopped :: bool

definition rcode_or_refused :: "int \<Rightarrow> int" where
  "rcode_or_refused c = (if c = 0 then RcodeRefused else c)"

definition New :: "ProxyConfig \<Rightarrow> time \<Rightarrow> Proxy" where
  "New config0 now =
     (let cfg = withDefaults config0 in
      \<lparr>config = cfg,
       events = make_chan (EventChanSize cfg),
       dropped = 0,
       drop_callbacks = 0,
       request_limiter = newRequestLimiter cfg now,
       domain_filter = newDomainFilter (DomainFilterAllow cfg) (DomainFilterDeny cfg),
       filterRcode = rcode_or_refused (DomainFilterDenyRcode cfg),
       fallbackUpstreams = FallbackUpstreams cfg,
       cache = newResponseCache (CacheMaxEntries cfg) (CacheDefaultTTL cfg),
       conn_pool = Some (newEngineConnPool (EngineAddr cfg) (QueryTimeout cfg) (EngineConnectionPoolSize cfg)),
       udp_server = False,
       tcp_server = False,
       stopped = False\<rparr>)"

definition DroppedEvents :: "Proxy \<Rightarrow> int" where
  "DroppedEvents p = dropped p"

definition UpdateFilter :: "Proxy \<Rightarrow> string list \<Rightarrow> string list \<Rightarrow> int \<Rightarrow> Proxy" where
  "UpdateFilter p allow deny rc =
     p\<lparr>domain_filter := newDomainFilter allow deny, filterRcode := rcode_or_refused rc\<rparr>"

definition UpdateFallbackUpstreams :: "Proxy \<Rightarrow> string list \<Rightarrow> Proxy" where
  "UpdateFallbackUpstreams p upstreams = p\<lparr>fallbackUpstreams := upstreams\<rparr>"

definition queryType :: "dns_lib \<Rightarrow> dns_msg option \<Rightarrow> string" where
  "queryType lib request =
     (case request of
        None \<Rightarrow> ''UNKNOWN''
      | Some r \<Rightarrow>
          (case questions r of
             [] \<Rightarrow> ''UNKNOWN''
           | q # _ \<Rightarrow>
               (case TypeToString lib (qtype q) of
                  Some value \<Rightarrow> value
                | None \<Rightarrow> ''TYPE'' @ itoa (uint (qtype q)))))"

definition responseCode :: "dns_lib \<Rightarrow> dns_msg option \<Rightarrow> string" where
  "responseCode lib response =
     (case response of
        None \<Rightarrow> ''SERVFAIL''
      | Some r \<Rightarrow>
          (case RcodeToString lib (rcode r) of
             Some value \<Rightarrow> value
           | None \<Rightarrow> ''RCODE'' @ itoa (rcode r)))"

definition normalizeDomain :: "dns_msg option \<Rightarrow> string" where
  "normalizeDomain request =
     (case request of
        None \<Rightarrow> ''''
      | Some r \<Rightarrow> (case questions r of [] \<Rightarrow> '''' | q # _ \<Rightarrow> trim_suffix (qname q) ''.''))"

record query_env =
  lib :: dns_lib
  remote :: "remote_addr option"
  started :: time
  finished :: time
  wall :: time
  rank :: "string \<Rightarrow> nat"
  dial :: "string \<Rightarrow> string \<Rightarrow> duration \<Rightarrow> string + conn"
  exchangeWithConn :: "string \<Rightarrow> duration \<Rightarrow> time \<Rightarrow> dns_msg \<Rightarrow> conn \<Rightarrow> string + dns_msg option"
  askUpstream :: "time \<Rightarrow> duration \<Rightarrow> dns_msg \<Rightarrow> string \<Rightarrow> string + dns_msg option"

record query_state =
  proxy :: Proxy
  wire :: "dns_msg list"
  hung_up :: "conn list"

definition writeMsg :: "dns_msg \<Rightarrow> query_state \<Rightarrow> query_state" where
  "writeMsg m s = s\<lparr>wire := wire s @ [m]\<rparr>"

definition publishEvent :: "QueryEvent \<Rightarrow> Proxy \<Rightarrow> Proxy option" where
  "publishEvent event p =
     (case trySend (events p) event of
        None \<Rightarrow> None
      | Some (True, c) \<Rightarrow> Some (p\<lparr>events := c\<rparr>)
      | Some (False, _) \<Rightarrow>
          (let p1 = p\<lparr>dropped := wrap64 (dropped p + 1)\<rparr>
           in if OnEventDrop (config p) then Some (p1\<lparr>drop_callbacks := Suc (drop_callbacks p1)\<rparr>)
              else Some p1))"

definition latencyMs :: "query_env \<Rightarrow> f64" where
  "latencyMs e = fdiv (f_of_int (go_quot (time_sub (finished e) (started e)) 1000)) 1000"

definition emitQueryEvent ::
  "query_env \<Rightarrow> string \<Rightarrow> dns_msg \<Rightarrow> dns_msg \<Rightarrow> string \<Rightarrow> bool \<Rightarrow> bool \<Rightarrow> query_state \<Rightarrow> query_state option" where
  "emitQueryEvent e srcIP request response upstream cacheHitKnown cacheHit s =
     (let event = \<lparr>Timestamp = started e, SourceIP = srcIP, Domain = normalizeDomain (Some request),
            QueryType = queryType (lib e) (Some request), ResponseCode = responseCode (lib e) (Some response),
            Upstream = upstream, LatencyMs = latencyMs e, CacheHitKnown = cacheHitKnown,
            CacheHit = cacheHit, Denied = False\<rparr>
      in map_option (\<lambda>p. s\<lparr>proxy := p\<rparr>) (publishEvent event (proxy s)))"

definition emitDeniedEvent ::
  "query_env \<Rightarrow> string \<Rightarrow> dns_msg \<Rightarrow> dns_msg \<Rightarrow> query_state \<Rightarrow> query_state option" where
  "emitDeniedEvent e srcIP request response s =
     (let event = \<lparr>Timestamp = started e, SourceIP = srcIP, Domain = normalizeDomain (Some request),
            QueryType = queryType (lib e) (Some request), ResponseCode = responseCode (lib e) (Some response),
            Upstream = deniedUpstreamLabel, LatencyMs = latencyMs e, CacheHitKnown = False,
            CacheHit = False, Denied = True\<rparr>
      in map_option (\<lambda>p. s\<lparr>proxy := p\<rparr>) (publishEvent event (proxy s)))"

fun firstAnswer :: "(string \<Rightarrow> string + dns_msg option) \<Rightarrow> string list \<Rightarrow> dns_msg option" where
  "firstAnswer ask [] = None"
| "firstAnswer ask (upstream # rest) =
     (case ask upstream of
        Inr (Some response) \<Rightarrow> Some response
      | Inr None \<Rightarrow> firstAnswer ask rest
      | Inl _ \<Rightarrow> firstAnswer ask rest)"

definition tryFallbackUpstreams :: "query_env \<Rightarrow> time \<Rightarrow> dns_msg \<Rightarrow> Proxy \<Rightarrow> dns_msg option" where
  "tryFallbackUpstreams e deadline request p =
     (let upstreams = fallbackUpstreams p
      in if length upstreams = 0 then None
         else firstAnswer (askUpstream e deadline (QueryTimeout (config p)) request) upstreams)"

definition storeAnswer :: "query_env \<Rightarrow> dns_msg \<Rightarrow> dns_msg \<Rightarrow> query_state \<Rightarrow> query_state" where
  "storeAnswer e request response s =
     s\<lparr>proxy := (proxy s)\<lparr>cache :=
       Store (rank e) (cache (proxy s)) (Some request) (Some response) (started e)\<rparr>\<rparr>"

text \<open>The tail of \<open>handleQuery\<close>, for the engine's answer or the SERVFAIL made up for it.\<close>

definition finishQuery :: "query_env \<Rightarrow> string \<Rightarrow> dns_msg \<Rightarrow> dns_msg \<Rightarrow> query_state \<Rightarrow> query_state option" where
  "finishQuery e srcIP request response s =
     (let s1 = writeMsg response (storeAnswer e request response s)
      in emitQueryEvent e srcIP request response (EngineAddr (config (proxy s1))) True False s1)"

text \<open>What follows when the engine gave no answer: stale entry, fallback servers, SERVFAIL.\<close>

definition recoverQuery :: "query_env \<Rightarrow> string \<Rightarrow> time \<Rightarrow> dns_msg \<Rightarrow> query_state \<Rightarrow> query_state option" where
  "recoverQuery e srcIP deadline request s =
     (case GetStale (cache (proxy s)) (Some request) (started e) of
        Some staleResponse \<Rightarrow>
          emitQueryEvent e srcIP request staleResponse cacheStaleUpstreamLabel True True
            (writeMsg staleResponse s)
      | None \<Rightarrow>
          (case tryFallbackUpstreams e deadline request (proxy s) of
             Some fallbackResponse \<Rightarrow>
               emitQueryEvent e srcIP request fallbackResponse fallbackUpstreamLabel True False
                 (writeMsg fallbackResponse (storeAnswer e request fallbackResponse s))
           | None \<Rightarrow> finishQuery e srcIP request (SetRcode (lib e) request RcodeServerFailure) s))"

definition askEngine :: "query_env \<Rightarrow> string \<Rightarrow> dns_msg \<Rightarrow> query_state \<Rightarrow> query_state option" where
  "askEngine e srcIP request s =
     (let deadline = wall e + QueryTimeout (config (proxy s));
          x = Exchange (dial e) (exchangeWithConn e) (conn_pool (proxy s)) (Some deadline) (wall e)
                (networkForRemoteAddr (remote e)) (Some request);
          s1 = s\<lparr>proxy := (proxy s)\<lparr>conn_pool := pool_after x\<rparr>, hung_up := hung_up s @ closed_conns x\<rparr>
      in case reply x of
           Inr (Some response) \<Rightarrow> finishQuery e srcIP request response s1
         | Inr None \<Rightarrow> recoverQuery e srcIP deadline request s1
         | Inl _ \<Rightarrow> recoverQuery e srcIP deadline request s1)"

definition resolveQuery :: "query_env \<Rightarrow> string \<Rightarrow> dns_msg \<Rightarrow> query_state \<Rightarrow> query_state option" where
  "resolveQuery e srcIP request s =
     (let p = proxy s in
      if domain_filter p \<noteq> None \<and> \<not> Allowed (domain_filter p) (normalizeDomain (Some request)) then
        (let response = SetRcode (lib e) request (filterRcode p)
         in emitDeniedEvent e srcIP request response (writeMsg response s))
      else
        (case Get (cache p) (Some request) (started e) of
           Some cachedResponse \<Rightarrow>
             emitQueryEvent e srcIP request cachedResponse cacheHitUpstreamLabel True True
               (writeMsg cachedResponse s)
         | None \<Rightarrow> askEngine e srcIP request s))"

definition handleQuery :: "query_env \<Rightarrow> dns_msg \<Rightarrow> query_state \<Rightarrow> query_state option" where
  "handleQuery e request s =
     (let srcIP = sourceIP (remote e) in
      case request_limiter (proxy s) of
        None \<Rightarrow> resolveQuery e srcIP request s
      | Some r \<Rightarrow>
          (case limiterAllow r srcIP (started e) of
             None \<Rightarrow> None
           | Some (ok, r') \<Rightarrow>
               (let s1 = s\<lparr>proxy := (proxy s)\<lparr>request_limiter := Some r'\<rparr>\<rparr>
                in if \<not> ok then
                     (let response = SetRcode (lib e) request RcodeRefused
                      in emitQueryEvent e srcIP request response rateLimitOverflowUpstream False False
                           (writeMsg response s1))
                   else resolveQuery e srcIP request s1)))"

text \<open>
  Starting and stopping.  \<open>Start\<close> blocks until the context ends or a listener fails
  (\<open>start_end\<close>); \<open>Stop\<close> has an effect once only.  \<open>Stop\<close> returns whether it shut the two
  listeners down and the connections it closed; closing the event channel twice would panic.
\<close>

datatype start_end = ContextDone | ListenerFailed string

record stop_effect =
  udp_shutdown :: bool
  tcp_shutdown :: bool
  stop_closed :: "conn list"

definition Stop :: "Proxy \<Rightarrow> (Proxy \<times> stop_effect) option" where
  "Stop p =
     (if stopped p then Some (p, \<lparr>udp_shutdown = False, tcp_shutdown = False, stop_closed = []\<rparr>)
      else
        let (pool', cs) = Close (conn_pool p);
            p1 = p\<lparr>stopped := True, udp_server := False, tcp_server := False, conn_pool := pool'\<rparr>
        in if chan_closed (events p) then None
           else Some (p1\<lparr>events := (events p)\<lparr>chan_closed := True\<rparr>\<rparr>,
                \<lparr>udp_shutdown = udp_server p, tcp_shutdown = tcp_server p, stop_closed = cs\<rparr>))"

definition listen :: "Proxy \<Rightarrow> string + Proxy" where
  "listen p =
     (if udp_server p \<or> tcp_server p then Inl ''proxy already started''
      else Inr (p\<lparr>udp_server := True, tcp_server := True\<rparr>))"

definition Start :: "Proxy \<Rightarrow> start_end \<Rightarrow> (string option \<times> Proxy) option" where
  "Start p how =
     (case listen p of
        Inl err \<Rightarrow> Some (Some err, p)
      | Inr p1 \<Rightarrow>
          (case Stop p1 of
             None \<Rightarrow> None
           | Some (p2, _) \<Rightarrow>
               Some (case how of ContextDone \<Rightarrow> None | ListenerFailed err \<Rightarrow> Some err, p2)))"

subsection \<open>The invariant of the proxy and the event it owes\<close>

definition proxy_ok :: "Proxy \<Rightarrow> bool" where
  "proxy_ok p \<longleftrightarrow>
     \<not> chan_closed (events p) \<and> int (length (buffer (events p))) \<le> capacity (events p) \<and>
     (\<forall>r. request_limiter p = Some r \<longrightarrow> limiter_ok r) \<and> cache_ok (cache p) \<and>
     (\<forall>q. conn_pool p = Some q \<longrightarrow> pool_ok q)"

definition event_recorded :: "QueryEvent \<Rightarrow> Proxy \<Rightarrow> Proxy \<Rightarrow> bool" where
  "event_recorded ev p p' \<longleftrightarrow>
     (if int (length (buffer (events p))) < capacity (events p)
      then buffer (events p') = buffer (events p) @ [ev] \<and> dropped p' = dropped p \<and>
        drop_callbacks p' = drop_callbacks p
      else buffer (events p') = buffer (events p) \<and> dropped p' = wrap64 (dropped p + 1) \<and>
        drop_callbacks p' = drop_callbacks p + of_bool (OnEventDrop (config p)))"

definition same_but_events :: "Proxy \<Rightarrow> Proxy \<Rightarrow> bool" where
  "same_but_events p p' \<longleftrightarrow>
     config p' = config p \<and> request_limiter p' = request_limiter p \<and>
     domain_filter p' = domain_filter p \<and> filterRcode p' = filterRcode p \<and>
     fallbackUpstreams p' = fallbackUpstreams p \<and> cache p' = cache p \<and> conn_pool p' = conn_pool p \<and>
     udp_server p' = udp_server p \<and> tcp_server p' = tcp_server p \<and> stopped p' = stopped p"

lemma publishEvent_records:
  assumes "\<not> chan_closed (events p)"
  shows "\<exists>p'. publishEvent ev p = Some p' \<and> event_recorded ev p p' \<and> same_but_events p p' \<and>
    chan_closed (events p') = chan_closed (events p) \<and> capacity (events p') = capacity (events p)"
  using assms by (auto simp: publishEvent_def trySend_def event_recorded_def same_but_events_def Let_def)

lemma event_recorded_within:
  "event_recorded ev p p' \<Longrightarrow> capacity (events p') = capacity (events p) \<Longrightarrow>
     int (length (buffer (events p))) \<le> capacity (events p) \<Longrightarrow>
     int (length (buffer (events p'))) \<le> capacity (events p')"
  by (auto simp: event_recorded_def split: if_splits)

lemma publishEvent_ok:
  assumes "proxy_ok p"
  shows "\<exists>p'. publishEvent ev p = Some p' \<and> event_recorded ev p p' \<and> same_but_events p p' \<and> proxy_ok p'"
proof -
  have "\<not> chan_closed (events p)" using assms by (simp add: proxy_ok_def)
  from publishEvent_records [OF this, of ev] obtain p' where
    p': "publishEvent ev p = Some p'" "event_recorded ev p p'" "same_but_events p p'"
      "chan_closed (events p') = chan_closed (events p)" "capacity (events p') = capacity (events p)"
    by blast
  with assms event_recorded_within [OF p'(2,5)] have "proxy_ok p'"
    by (simp add: proxy_ok_def same_but_events_def)
  with p' show ?thesis by blast
qed

text \<open>What a query is owed: the reply and what its event says.\<close>

record verdict =
  v_reply :: dns_msg
  v_upstream :: string
  v_known :: bool
  v_hit :: bool
  v_denied :: bool

definition event_of :: "query_env \<Rightarrow> dns_msg \<Rightarrow> verdict \<Rightarrow> QueryEvent" where
  "event_of e q v =
     \<lparr>Timestamp = started e, SourceIP = sourceIP (remote e), Domain = normalizeDomain (Some q),
      QueryType = queryType (lib e) (Some q), ResponseCode = responseCode (lib e) (Some (v_reply v)),
      Upstream = v_upstream v, LatencyMs = latencyMs e, CacheHitKnown = v_known v,
      CacheHit = v_hit v, Denied = v_denied v\<rparr>"

definition delivers :: "query_env \<Rightarrow> dns_msg \<Rightarrow> verdict \<Rightarrow> query_state \<Rightarrow> query_state option \<Rightarrow> bool" where
  "delivers e q v s so \<longleftrightarrow>
     (\<exists>s'. so = Some s' \<and> wire s' = wire s @ [v_reply v] \<and> hung_up s' = hung_up s \<and>
        event_recorded (event_of e q v) (proxy s) (proxy s') \<and> same_but_events (proxy s) (proxy s') \<and>
        proxy_ok (proxy s'))"

lemma emitQueryEvent_delivers:
  assumes "proxy_ok (proxy s)"
  shows "delivers e q \<lparr>v_reply = m, v_upstream = u, v_known = k, v_hit = h, v_denied = False\<rparr> s
    (emitQueryEvent e (sourceIP (remote e)) q m u k h (writeMsg m s))"
  using publishEvent_ok [OF assms]
  by (fastforce simp: delivers_def emitQueryEvent_def event_of_def writeMsg_def)

lemma emitDeniedEvent_delivers:
  assumes "proxy_ok (proxy s)"
  shows "delivers e q \<lparr>v_reply = m, v_upstream = deniedUpstreamLabel, v_known = False, v_hit = False,
      v_denied = True\<rparr> s (emitDeniedEvent e (sourceIP (remote e)) q m (writeMsg m s))"
  using publishEvent_ok [OF assms]
  by (fastforce simp: delivers_def emitDeniedEvent_def event_of_def writeMsg_def)

subsection \<open>The specification of a reply\<close>

text \<open>
  Which reply a query gets, without the state the proxy threads through the call: the rate
  limiter, the filter, the cache, the engine, the stale cache, the fallback servers in order
  and SERVFAIL last.
\<close>

definition rate_limited :: "query_env \<Rightarrow> Proxy \<Rightarrow> bool" where
  "rate_limited e p \<longleftrightarrow>
     (\<exists>r. request_limiter p = Some r \<and>
       map_option fst (limiterAllow r (sourceIP (remote e)) (started e)) = Some False)"

definition engine_call :: "query_env \<Rightarrow> dns_msg \<Rightarrow> Proxy \<Rightarrow> exchange_result" where
  "engine_call e q p =
     Exchange (dial e) (exchangeWithConn e) (conn_pool p) (Some (wall e + QueryTimeout (config p)))
       (wall e) (networkForRemoteAddr (remote e)) (Some q)"

definition engine_answer :: "query_env \<Rightarrow> dns_msg \<Rightarrow> Proxy \<Rightarrow> dns_msg option" where
  "engine_answer e q p =
     (case reply (engine_call e q p) of Inl _ \<Rightarrow> None | Inr r \<Rightarrow> r)"

definition fallback_answer :: "query_env \<Rightarrow> dns_msg \<Rightarrow> Proxy \<Rightarrow> dns_msg option" where
  "fallback_answer e q p =
     firstAnswer (askUpstream e (wall e + QueryTimeout (config p)) (QueryTimeout (config p)) q)
       (fallbackUpstreams p)"

definition plain_verdict :: "dns_msg \<Rightarrow> string \<Rightarrow> bool \<Rightarrow> bool \<Rightarrow> verdict" where
  "plain_verdict m u known hit =
     \<lparr>v_reply = m, v_upstream = u, v_known = known, v_hit = hit, v_denied = False\<rparr>"

definition outage_verdict :: "query_env \<Rightarrow> dns_msg \<Rightarrow> Proxy \<Rightarrow> verdict" where
  "outage_verdict e q p =
     (case GetStale (cache p) (Some q) (started e) of
        Some m \<Rightarrow> plain_verdict m cacheStaleUpstreamLabel True True
      | None \<Rightarrow>
          (case fallback_answer e q p of
             Some m \<Rightarrow> plain_verdict m fallbackUpstreamLabel True False
           | None \<Rightarrow>
               plain_verdict (SetRcode (lib e) q RcodeServerFailure) (EngineAddr (config p)) True False))"

definition query_verdict :: "query_env \<Rightarrow> dns_msg \<Rightarrow> Proxy \<Rightarrow> verdict" where
  "query_verdict e q p =
     (if rate_limited e p then
        plain_verdict (SetRcode (lib e) q RcodeRefused) rateLimitOverflowUpstream False False
      else if \<not> Allowed (domain_filter p) (normalizeDomain (Some q)) then
        \<lparr>v_reply = SetRcode (lib e) q (filterRcode p), v_upstream = deniedUpstreamLabel,
         v_known = False, v_hit = False, v_denied = True\<rparr>
      else
        (case Get (cache p) (Some q) (started e) of
           Some m \<Rightarrow> plain_verdict m cacheHitUpstreamLabel True True
         | None \<Rightarrow>
             (case engine_answer e q p of
                Some m \<Rightarrow> plain_verdict m (EngineAddr (config p)) True False
              | None \<Rightarrow> outage_verdict e q p)))"

definition same_duty :: "Proxy \<Rightarrow> Proxy \<Rightarrow> bool" where
  "same_duty p p' \<longleftrightarrow>
     config p' = config p \<and> events p' = events p \<and> dropped p' = dropped p \<and>
     drop_callbacks p' = drop_callbacks p \<and> domain_filter p' = domain_filter p \<and>
     filterRcode p' = filterRcode p \<and> fallbackUpstreams p' = fallbackUpstreams p \<and>
     stopped p' = stopped p \<and> (request_limiter p = None \<longrightarrow> request_limiter p' = None)"

definition same_rules :: "Proxy \<Rightarrow> Proxy \<Rightarrow> bool" where
  "same_rules p p' \<longleftrightarrow>
     config p' = config p \<and> domain_filter p' = domain_filter p \<and> filterRcode p' = filterRcode p \<and>
     fallbackUpstreams p' = fallbackUpstreams p \<and> stopped p' = stopped p \<and>
     (request_limiter p = None \<longrightarrow> request_limiter p' = None)"

definition answers :: "query_env \<Rightarrow> dns_msg \<Rightarrow> verdict \<Rightarrow> query_state \<Rightarrow> query_state option \<Rightarrow> bool" where
  "answers e q v s so \<longleftrightarrow>
     (\<exists>s'. so = Some s' \<and> wire s' = wire s @ [v_reply v] \<and>
        event_recorded (event_of e q v) (proxy s) (proxy s') \<and> same_rules (proxy s) (proxy s') \<and>
        proxy_ok (proxy s'))"

lemma answers_after:
  assumes "delivers e q v s1 so" and "wire s1 = wire s" and "same_duty (proxy s) (proxy s1)"
  shows "answers e q v s so"
proof -
  from assms(1) obtain s' where s': "so = Some s'" "wire s' = wire s1 @ [v_reply v]"
    "event_recorded (event_of e q v) (proxy s1) (proxy s')" "same_but_events (proxy s1) (proxy s')"
    "proxy_ok (proxy s')"
    by (auto simp: delivers_def)
  have "event_recorded (event_of e q v) (proxy s) (proxy s')"
    using s'(3) assms(3) by (simp add: event_recorded_def same_duty_def)
  moreover have "same_rules (proxy s) (proxy s')"
    using s'(4) assms(3) by (simp add: same_rules_def same_duty_def same_but_events_def)
  ultimately show ?thesis using s' assms(2) by (simp add: answers_def)
qed

lemma answers_shift:
  assumes "answers e q v s1 so" and "wire s1 = wire s" and "same_duty (proxy s) (proxy s1)"
  shows "answers e q v s so"
proof -
  from assms(1) obtain s' where s': "so = Some s'" "wire s' = wire s1 @ [v_reply v]"
    "event_recorded (event_of e q v) (proxy s1) (proxy s')" "same_rules (proxy s1) (proxy s')"
    "proxy_ok (proxy s')"
    by (auto simp: answers_def)
  have "event_recorded (event_of e q v) (proxy s) (proxy s')"
    using s'(3) assms(3) by (simp add: event_recorded_def same_duty_def)
  moreover have "same_rules (proxy s) (proxy s')"
    using s'(4) assms(3) by (simp add: same_rules_def same_duty_def)
  ultimately show ?thesis using s' assms(2) by (simp add: answers_def)
qed

lemma delivers_answers: "delivers e q v s so \<Longrightarrow> answers e q v s so"
  by (erule answers_after) (simp_all add: same_duty_def)

lemma proxy_ok_parts:
  "proxy_ok p \<Longrightarrow> limiter_ok r \<Longrightarrow> proxy_ok (p\<lparr>request_limiter := Some r\<rparr>)"
  "proxy_ok p \<Longrightarrow> cache_ok c \<Longrightarrow> proxy_ok (p\<lparr>cache := c\<rparr>)"
  "proxy_ok p \<Longrightarrow> \<forall>q. po = Some q \<longrightarrow> pool_ok q \<Longrightarrow> proxy_ok (p\<lparr>conn_pool := po\<rparr>)"
  by (simp_all add: proxy_ok_def)

lemma storeAnswer_ok:
  "proxy_ok (proxy s) \<Longrightarrow> proxy_ok (proxy (storeAnswer e q m s))"
  by (simp add: storeAnswer_def proxy_ok_def Store_keeps_ok)

lemma storeAnswer_duty [simp]:
  "wire (storeAnswer e q m s) = wire s" "same_duty (proxy s) (proxy (storeAnswer e q m s))"
  by (simp_all add: storeAnswer_def same_duty_def)

lemma writeMsg_proxy [simp]: "proxy (writeMsg m s) = proxy s"
  by (simp add: writeMsg_def)

lemma finishQuery_answers:
  assumes "proxy_ok (proxy s)"
  shows "answers e q (plain_verdict m (EngineAddr (config (proxy s))) True False) s
    (finishQuery e (sourceIP (remote e)) q m s)"
proof (rule answers_after)
  have "config (proxy (storeAnswer e q m s)) = config (proxy s)" by (simp add: storeAnswer_def)
  then show "delivers e q (plain_verdict m (EngineAddr (config (proxy s))) True False) (storeAnswer e q m s)
      (finishQuery e (sourceIP (remote e)) q m s)"
    using emitQueryEvent_delivers [OF storeAnswer_ok [OF assms]]
    by (simp add: finishQuery_def plain_verdict_def)
qed simp_all

lemma tryFallback_spec:
  "tryFallbackUpstreams e (wall e + QueryTimeout (config p)) q p = fallback_answer e q p"
  by (simp add: tryFallbackUpstreams_def fallback_answer_def Let_def)

lemma recoverQuery_answers:
  assumes "proxy_ok (proxy s)"
  shows "answers e q (outage_verdict e q (proxy s)) s
    (recoverQuery e (sourceIP (remote e)) (wall e + QueryTimeout (config (proxy s))) q s)"
proof (cases "GetStale (cache (proxy s)) (Some q) (started e)")
  case (Some m)
  with emitQueryEvent_delivers [OF assms] show ?thesis
    by (auto simp: recoverQuery_def outage_verdict_def plain_verdict_def intro: delivers_answers)
next
  case None
  show ?thesis
  proof (cases "fallback_answer e q (proxy s)")
    case N: None
    with None finishQuery_answers [OF assms] show ?thesis
      by (simp add: recoverQuery_def outage_verdict_def tryFallback_spec)
  next
    case (Some m)
    with None emitQueryEvent_delivers [OF storeAnswer_ok [OF assms]] show ?thesis
      by (auto simp: recoverQuery_def outage_verdict_def tryFallback_spec plain_verdict_def
          intro!: answers_after [of _ _ _ "storeAnswer e q m s"])
  qed
qed

lemma outage_verdict_cong:
  assumes "cache p' = cache p" and "config p' = config p" and "fallbackUpstreams p' = fallbackUpstreams p"
  shows "outage_verdict e q p' = outage_verdict e q p"
  unfolding outage_verdict_def fallback_answer_def assms ..

lemma engine_answer_cong:
  assumes "conn_pool p' = conn_pool p" and "config p' = config p"
  shows "engine_answer e q p' = engine_answer e q p"
  unfolding engine_answer_def engine_call_def assms ..

lemma askEngine_answers:
  assumes "proxy_ok (proxy s)"
  shows "answers e q
     (case engine_answer e q (proxy s) of
        Some m \<Rightarrow> plain_verdict m (EngineAddr (config (proxy s))) True False
      | None \<Rightarrow> outage_verdict e q (proxy s)) s
    (askEngine e (sourceIP (remote e)) q s)"
proof -
  let ?x = "engine_call e q (proxy s)"
  let ?s1 = "s\<lparr>proxy := (proxy s)\<lparr>conn_pool := pool_after ?x\<rparr>, hung_up := hung_up s @ closed_conns ?x\<rparr>"
  have "\<forall>p. pool_after ?x = Some p \<longrightarrow> pool_ok p"
    unfolding engine_call_def
    by (intro allI impI, rule Exchange_ok [rotated], assumption)
      (use assms in \<open>simp add: proxy_ok_def\<close>)
  then have ok: "proxy_ok (proxy ?s1)" using assms by (simp add: proxy_ok_parts)
  have after: "answers e q v s so" if "answers e q v ?s1 so" for v so
    using that by (rule answers_shift) (simp_all add: same_duty_def)
  have duty: "outage_verdict e q (proxy ?s1) = outage_verdict e q (proxy s)"
    by (rule outage_verdict_cong) simp_all
  have cfg: "config (proxy ?s1) = config (proxy s)" by simp
  have run: "askEngine e (sourceIP (remote e)) q s =
      (case reply ?x of
         Inr (Some m) \<Rightarrow> finishQuery e (sourceIP (remote e)) q m ?s1
       | Inr None \<Rightarrow> recoverQuery e (sourceIP (remote e)) (wall e + QueryTimeout (config (proxy s))) q ?s1
       | Inl _ \<Rightarrow> recoverQuery e (sourceIP (remote e)) (wall e + QueryTimeout (config (proxy s))) q ?s1)"
    unfolding askEngine_def engine_call_def Let_def by (rule refl)
  have rec: "answers e q (outage_verdict e q (proxy s)) s
      (recoverQuery e (sourceIP (remote e)) (wall e + QueryTimeout (config (proxy s))) q ?s1)"
    using after [OF recoverQuery_answers [OF ok, of e q]] unfolding duty cfg .
  show ?thesis
  proof (cases "engine_answer e q (proxy s)")
    case None
    then have "askEngine e (sourceIP (remote e)) q s =
        recoverQuery e (sourceIP (remote e)) (wall e + QueryTimeout (config (proxy s))) q ?s1"
      unfolding run engine_answer_def by (auto split: sum.splits option.splits)
    with None rec show ?thesis by simp
  next
    case (Some m)
    then have "reply ?x = Inr (Some m)" by (auto simp: engine_answer_def split: sum.splits)
    then have r: "askEngine e (sourceIP (remote e)) q s = finishQuery e (sourceIP (remote e)) q m ?s1"
      by (simp add: run)
    show ?thesis
      using after [OF finishQuery_answers [OF ok, of e q m]] Some unfolding r cfg by simp
  qed
qed

lemma resolveQuery_answers:
  assumes "proxy_ok (proxy s)" and "\<not> rate_limited e p"
    and "same_duty p (proxy s)" and "cache (proxy s) = cache p" and "conn_pool (proxy s) = conn_pool p"
  shows "answers e q (query_verdict e q p) s (resolveQuery e (sourceIP (remote e)) q s)"
proof -
  have same: "domain_filter (proxy s) = domain_filter p" "filterRcode (proxy s) = filterRcode p"
    "config (proxy s) = config p" "fallbackUpstreams (proxy s) = fallbackUpstreams p"
    using assms(3) by (simp_all add: same_duty_def)
  have v: "engine_answer e q (proxy s) = engine_answer e q p"
    "outage_verdict e q (proxy s) = outage_verdict e q p"
    by (rule engine_answer_cong, simp_all add: same assms, rule outage_verdict_cong)
      (simp_all add: same assms)
  show ?thesis
  proof (cases "Allowed (domain_filter p) (normalizeDomain (Some q))")
    case False
    then have "domain_filter p \<noteq> None" by (cases "domain_filter p") (simp_all add: Allowed_def)
    with False emitDeniedEvent_delivers [OF assms(1)] assms(2) show ?thesis
      by (auto simp: resolveQuery_def query_verdict_def same Let_def intro: delivers_answers)
  next
    case True
    show ?thesis
    proof (cases "Get (cache p) (Some q) (started e)")
      case (Some m)
      with True emitQueryEvent_delivers [OF assms(1)] assms(2,4) show ?thesis
        by (auto simp: resolveQuery_def query_verdict_def same plain_verdict_def Let_def
            intro: delivers_answers)
    next
      case None
      with True askEngine_answers [OF assms(1), of e q] assms(2,4) show ?thesis
        by (simp add: resolveQuery_def query_verdict_def same v Let_def split: option.splits)
    qed
  qed
qed

lemma handleQuery_answers:
  assumes "proxy_ok (proxy s)"
  shows "answers e q (query_verdict e q (proxy s)) s (handleQuery e q s)"
proof (cases "request_limiter (proxy s)")
  case None
  then have "\<not> rate_limited e (proxy s)" by (simp add: rate_limited_def)
  with resolveQuery_answers [OF assms this, of q] None show ?thesis
    by (simp add: handleQuery_def same_duty_def)
next
  case (Some r)
  then have "limiter_ok r" using assms by (simp add: proxy_ok_def)
  from limiterAllow_spec [OF this, of "sourceIP (remote e)" "started e"] obtain a r' where
    l: "limiterAllow r (sourceIP (remote e)) (started e) = Some (a, r')" "limiter_ok r'" by blast
  let ?s1 = "s\<lparr>proxy := (proxy s)\<lparr>request_limiter := Some r'\<rparr>\<rparr>"
  have ok: "proxy_ok (proxy ?s1)" using assms l(2) by (simp add: proxy_ok_parts)
  have lim: "rate_limited e (proxy s) \<longleftrightarrow> \<not> a" using Some l(1) by (simp add: rate_limited_def)
  have duty: "same_duty (proxy s) (proxy ?s1)" using Some by (simp add: same_duty_def)
  have after: "answers e q v s so" if "answers e q v ?s1 so" for v so
    by (rule answers_shift [OF that _ duty]) simp
  show ?thesis
  proof (cases a)
    case True
    then have "\<not> rate_limited e (proxy s)" using lim by simp
    from after [OF resolveQuery_answers [OF ok this duty, of q]] True Some l(1) show ?thesis
      by (simp add: handleQuery_def Let_def)
  next
    case False
    with after [OF delivers_answers [OF emitQueryEvent_delivers [OF ok]]] lim Some l(1) show ?thesis
      by (simp add: handleQuery_def query_verdict_def plain_verdict_def Let_def)
  qed
qed

subsection \<open>What a query leaves behind\<close>

definition same_core :: "query_state \<Rightarrow> query_state \<Rightarrow> bool" where
  "same_core s s' \<longleftrightarrow>
     cache (proxy s') = cache (proxy s) \<and> conn_pool (proxy s') = conn_pool (proxy s) \<and>
     hung_up s' = hung_up s"

lemma publishEvent_core:
  "publishEvent ev p = Some p' \<Longrightarrow> cache p' = cache p \<and> conn_pool p' = conn_pool p"
  by (auto simp: publishEvent_def Let_def split: option.splits prod.splits bool.splits if_splits)

lemma emitQueryEvent_core: "emitQueryEvent e ip q m u k h s = Some s' \<Longrightarrow> same_core s s'"
  by (auto simp: emitQueryEvent_def same_core_def Let_def dest: publishEvent_core)

lemma emitDeniedEvent_core: "emitDeniedEvent e ip q m s = Some s' \<Longrightarrow> same_core s s'"
  by (auto simp: emitDeniedEvent_def same_core_def Let_def dest: publishEvent_core)

lemma writeMsg_hung [simp]: "hung_up (writeMsg m s) = hung_up s"
  by (simp add: writeMsg_def)

text \<open>The cache after a query for which the engine was asked.\<close>

definition cache_after :: "query_env \<Rightarrow> dns_msg \<Rightarrow> Proxy \<Rightarrow> responseCache option" where
  "cache_after e q p =
     (let keep = (\<lambda>m. Store (rank e) (cache p) (Some q) (Some m) (started e))
      in case engine_answer e q p of
           Some m \<Rightarrow> keep m
         | None \<Rightarrow>
             (case GetStale (cache p) (Some q) (started e) of
                Some _ \<Rightarrow> cache p
              | None \<Rightarrow>
                  (case fallback_answer e q p of
                     Some m \<Rightarrow> keep m
                   | None \<Rightarrow> keep (SetRcode (lib e) q RcodeServerFailure))))"

lemma cache_after_cong:
  assumes "cache p' = cache p" and "conn_pool p' = conn_pool p" and "config p' = config p"
    and "fallbackUpstreams p' = fallbackUpstreams p"
  shows "cache_after e q p' = cache_after e q p"
  unfolding cache_after_def engine_answer_def engine_call_def fallback_answer_def assms ..

definition core_is :: "conn list \<Rightarrow> responseCache option \<Rightarrow> engineConnPool option \<Rightarrow> query_state \<Rightarrow> bool" where
  "core_is hung c po s' \<longleftrightarrow> cache (proxy s') = c \<and> conn_pool (proxy s') = po \<and> hung_up s' = hung"

lemma finishQuery_core:
  "finishQuery e ip q m s = Some s' \<Longrightarrow>
     core_is (hung_up s) (Store (rank e) (cache (proxy s)) (Some q) (Some m) (started e))
       (conn_pool (proxy s)) s'"
  by (auto simp: finishQuery_def Let_def core_is_def same_core_def storeAnswer_def
      dest!: emitQueryEvent_core)

lemma recoverQuery_core:
  assumes "recoverQuery e ip (wall e + QueryTimeout (config (proxy s))) q s = Some s'"
    and "engine_answer e q p = None" and "cache (proxy s) = cache p" and "config (proxy s) = config p"
    and "fallbackUpstreams (proxy s) = fallbackUpstreams p"
  shows "core_is (hung_up s) (cache_after e q p) (conn_pool (proxy s)) s'"
proof -
  have fb: "tryFallbackUpstreams e (wall e + QueryTimeout (config (proxy s))) q (proxy s) = fallback_answer e q p"
    unfolding tryFallback_spec by (simp add: fallback_answer_def assms)
  have run: "(case GetStale (cache p) (Some q) (started e) of
        Some m \<Rightarrow> emitQueryEvent e ip q m cacheStaleUpstreamLabel True True (writeMsg m s)
      | None \<Rightarrow> (case fallback_answer e q p of
           Some m \<Rightarrow> emitQueryEvent e ip q m fallbackUpstreamLabel True False (writeMsg m (storeAnswer e q m s))
         | None \<Rightarrow> finishQuery e ip q (SetRcode (lib e) q RcodeServerFailure) s)) = Some s'"
    using assms(1) unfolding recoverQuery_def fb assms(3) .
  show ?thesis
  proof (cases "GetStale (cache p) (Some q) (started e)")
    case (Some m)
    with run have "same_core (writeMsg m s) s'" by (auto dest: emitQueryEvent_core)
    with Some assms(2,3) show ?thesis by (simp add: same_core_def core_is_def cache_after_def)
  next
    case None
    show ?thesis
    proof (cases "fallback_answer e q p")
      case N: None
      with None run have "finishQuery e ip q (SetRcode (lib e) q RcodeServerFailure) s = Some s'" by simp
      from finishQuery_core [OF this] None N assms(2,3) show ?thesis
        by (simp add: core_is_def cache_after_def)
    next
      case (Some m)
      with None run have "same_core (writeMsg m (storeAnswer e q m s)) s'"
        by (auto dest: emitQueryEvent_core)
      with Some None assms(2,3) show ?thesis
        by (simp add: same_core_def core_is_def cache_after_def storeAnswer_def)
    qed
  qed
qed

lemma askEngine_core:
  assumes "askEngine e ip q s = Some s'"
  shows "core_is (hung_up s @ closed_conns (engine_call e q (proxy s))) (cache_after e q (proxy s))
    (pool_after (engine_call e q (proxy s))) s'"
proof -
  let ?x = "engine_call e q (proxy s)"
  let ?s1 = "s\<lparr>proxy := (proxy s)\<lparr>conn_pool := pool_after ?x\<rparr>, hung_up := hung_up s @ closed_conns ?x\<rparr>"
  have run: "askEngine e ip q s =
      (case reply ?x of
         Inr (Some m) \<Rightarrow> finishQuery e ip q m ?s1
       | Inr None \<Rightarrow> recoverQuery e ip (wall e + QueryTimeout (config (proxy s))) q ?s1
       | Inl _ \<Rightarrow> recoverQuery e ip (wall e + QueryTimeout (config (proxy s))) q ?s1)"
    unfolding askEngine_def engine_call_def Let_def by (rule refl)
  show ?thesis
  proof (cases "engine_answer e q (proxy s)")
    case None
    then have "askEngine e ip q s = recoverQuery e ip (wall e + QueryTimeout (config (proxy s))) q ?s1"
      unfolding run engine_answer_def by (auto split: sum.splits option.splits)
    with assms have "recoverQuery e ip (wall e + QueryTimeout (config (proxy ?s1))) q ?s1 = Some s'" by simp
    from recoverQuery_core [OF this None] show ?thesis by (simp add: core_is_def)
  next
    case (Some m)
    then have "reply ?x = Inr (Some m)" by (auto simp: engine_answer_def split: sum.splits)
    with assms have "finishQuery e ip q m ?s1 = Some s'" by (simp add: run)
    from finishQuery_core [OF this] Some show ?thesis by (simp add: core_is_def cache_after_def)
  qed
qed

end
