(* ===== verification/ProxyProperties.thy ===== *)
theory ProxyProperties
  imports Proxy
begin

section \<open>Properties of the proxy\<close>

text \<open>
  What holds of whole queries and of sequences of them: every query is answered once and
  accounted for once, the reply is the one the specification of \<open>Proxy\<close> gives, a refused
  query reaches nothing behind the refusal, answers come from the cache afterwards and during
  an outage, and stopping is safe to repeat.
\<close>

subsection \<open>The parts a query changes\<close>

lemma limiter_stage:
  assumes "proxy_ok (proxy s)"
  obtains (none) "request_limiter (proxy s) = None" "\<not> rate_limited e (proxy s)"
      "handleQuery e q s = resolveQuery e (sourceIP (remote e)) q s"
  | (some) r r' where "request_limiter (proxy s) = Some r"
      "limiterAllow r (sourceIP (remote e)) (started e) = Some (\<not> rate_limited e (proxy s), r')"
      "limiter_ok r'"
      "handleQuery e q s =
        (let s1 = s\<lparr>proxy := (proxy s)\<lparr>request_limiter := Some r'\<rparr>\<rparr> in
         if rate_limited e (proxy s)
         then emitQueryEvent e (sourceIP (remote e)) q (SetRcode (lib e) q RcodeRefused)
           rateLimitOverflowUpstream False False (writeMsg (SetRcode (lib e) q RcodeRefused) s1)
         else resolveQuery e (sourceIP (remote e)) q s1)"
proof (cases "request_limiter (proxy s)")
  case None
  then show ?thesis by (intro none) (simp_all add: rate_limited_def handleQuery_def)
next
  case (Some r)
  then have "limiter_ok r" using assms by (simp add: proxy_ok_def)
  from limiterAllow_spec [OF this, of "sourceIP (remote e)" "started e"] obtain a r' where
    l: "limiterAllow r (sourceIP (remote e)) (started e) = Some (a, r')" "limiter_ok r'" by blast
  then have "a \<longleftrightarrow> \<not> rate_limited e (proxy s)" using Some by (simp add: rate_limited_def)
  with Some l show ?thesis by (intro some [of r r']) (auto simp: handleQuery_def Let_def)
qed

definition asks_engine :: "query_env \<Rightarrow> dns_msg \<Rightarrow> Proxy \<Rightarrow> bool" where
  "asks_engine e q p \<longleftrightarrow>
     \<not> rate_limited e p \<and> Allowed (domain_filter p) (normalizeDomain (Some q)) \<and>
     Get (cache p) (Some q) (started e) = None"

lemma resolveQuery_core:
  assumes "resolveQuery e ip q s = Some s'"
  shows "if Allowed (domain_filter (proxy s)) (normalizeDomain (Some q)) \<and>
        Get (cache (proxy s)) (Some q) (started e) = None
     then core_is (hung_up s @ closed_conns (engine_call e q (proxy s))) (cache_after e q (proxy s))
        (pool_after (engine_call e q (proxy s))) s'
     else same_core s s'"
proof -
  have a: "domain_filter (proxy s) \<noteq> None" if "\<not> Allowed (domain_filter (proxy s)) d" for d
    using that by (cases "domain_filter (proxy s)") (simp_all add: Allowed_def)
  show ?thesis
    using assms a askEngine_core [of e ip q s s'] emitQueryEvent_core emitDeniedEvent_core
    by (fastforce simp: resolveQuery_def Let_def same_core_def split: if_splits option.splits)
qed

lemma handleQuery_core:
  assumes "proxy_ok (proxy s)" and "handleQuery e q s = Some s'"
  shows "if asks_engine e q (proxy s)
     then core_is (hung_up s @ closed_conns (engine_call e q (proxy s))) (cache_after e q (proxy s))
        (pool_after (engine_call e q (proxy s))) s'
     else same_core s s'"
  using assms(1)
proof (cases rule: limiter_stage [where e = e and q = q])
  case none
  with assms(2) resolveQuery_core [of e "sourceIP (remote e)" q s s'] show ?thesis
    by (simp add: asks_engine_def)
next
  case (some r r')
  let ?s1 = "s\<lparr>proxy := (proxy s)\<lparr>request_limiter := Some r'\<rparr>\<rparr>"
  have c: "engine_answer e q (proxy ?s1) = engine_answer e q (proxy s)"
    by (rule engine_answer_cong) simp_all
  have same: "engine_call e q (proxy ?s1) = engine_call e q (proxy s)"
    "fallback_answer e q (proxy ?s1) = fallback_answer e q (proxy s)"
    by (simp_all add: engine_call_def fallback_answer_def)
  have ca: "cache_after e q (proxy ?s1) = cache_after e q (proxy s)"
    by (rule cache_after_cong) simp_all
  show ?thesis
  proof (cases "rate_limited e (proxy s)")
    case True
    with some(4) assms(2) have "same_core (writeMsg (SetRcode (lib e) q RcodeRefused) ?s1) s'"
      by (intro emitQueryEvent_core) (simp add: Let_def)
    with True show ?thesis by (simp add: asks_engine_def same_core_def)
  next
    case False
    with some(4) assms(2) have "resolveQuery e (sourceIP (remote e)) q ?s1 = Some s'"
      by (simp add: Let_def)
    from resolveQuery_core [OF this] False show ?thesis
      unfolding same ca by (auto simp: asks_engine_def same_core_def split: if_splits)
  qed
qed

subsection \<open>Instances\<close>

definition sample_proxy :: Proxy where
  "sample_proxy = \<lparr>config = sample_limits 1, events = make_chan 1, dropped = 0, drop_callbacks = 0,
     request_limiter = None, domain_filter = None, filterRcode = 5, fallbackUpstreams = [],
     cache = Some sample_cache, conn_pool = Some (newEngineConnPool ''e'' 0 1), udp_server = False,
     tcp_server = False, stopped = False\<rparr>"

definition sample_state :: query_state where
  "sample_state = \<lparr>proxy = sample_proxy, wire = [], hung_up = []\<rparr>"

definition sample_env :: "time \<Rightarrow> string + dns_msg option \<Rightarrow> query_env" where
  "sample_env t outcome = \<lparr>lib = sample_lib, remote = None, started = t, finished = t, wall = t,
     rank = (\<lambda>_. 0), dial = (\<lambda>_ _ _. Inr 0), exchangeWithConn = (\<lambda>_ _ _ _ _. outcome),
     askUpstream = (\<lambda>_ _ _ _. Inl ''refused'')\<rparr>"

lemma sample_proxy_ok: "proxy_ok (proxy sample_state)"
  using sample_cache_ok newEngineConnPool_ok
  by (simp add: proxy_ok_def sample_state_def sample_proxy_def make_chan_def)

lemma sample_parts:
  "\<not> rate_limited e (proxy sample_state)" "domain_filter (proxy sample_state) = None"
  "cache (proxy sample_state) = Some sample_cache" "wire sample_state = []"
  "fallback_answer e q (proxy sample_state) = None"
  by (simp_all add: sample_state_def sample_proxy_def rate_limited_def fallback_answer_def)

lemma sample_key: "cacheKey (Some (sample_msg n)) = Some ''a.b.|1|1''"
proof -
  have "cacheKey (Some (sample_msg n)) = cacheKey (Some (sample_msg 0))"
    by (simp add: cacheKey_def sample_msg_def)
  also have "\<dots> = Some ''a.b.|1|1''" by code_simp
  finally show ?thesis .
qed

lemma sample_engine_answer:
  "engine_answer (sample_env t outcome) q (proxy sample_state) =
     (case outcome of Inl _ \<Rightarrow> None | Inr r \<Rightarrow> r)"
  by (simp add: engine_answer_def engine_call_def sample_env_def sample_state_def sample_proxy_def
      Exchange_def exchangeOn_def borrow_def pooled_def map_get_def newEngineConnPool_def
      normalizeEngineNetwork_def networkForRemoteAddr_def release_def Let_def split: sum.split)

lemma sample_engine_down: "engine_answer (sample_env t (Inl err)) q p = None"
  by (simp add: engine_answer_def engine_call_def sample_env_def Exchange_def exchangeOn_def Let_def
      split: option.split prod.split borrowed.split)

lemma sample_cacheable: "isCacheableResponse (Some (sample_msg n))"
  by (simp add: isCacheableResponse_def sample_msg_def rcode_defs)

lemma sample_answered:
  "engine_answer (sample_env 0 (Inr (Some (sample_msg 60)))) (sample_msg 0) (proxy sample_state) =
     Some (sample_msg 60)"
  by (simp add: sample_engine_answer)

lemma sample_lifetime_pos: "0 < lifetime (defaultTTL sample_cache) (sample_msg 60)"
  by (simp add: sample_lifetime second_def)

lemma sample_GetStale: "GetStale (Some sample_cache) request t = None"
  by (simp add: GetStale_def sample_cache_def split: option.split)

lemma sample_outage:
  "outage_verdict e q (proxy sample_state) =
     plain_verdict (SetRcode (lib e) q RcodeServerFailure) '''' True False"
  by (simp add: outage_verdict_def sample_parts sample_GetStale)
    (simp add: sample_state_def sample_proxy_def sample_limits_def)

lemma sample_asks: "asks_engine (sample_env t outcome) (sample_msg n) (proxy sample_state)"
  by (simp add: asks_engine_def sample_parts Allowed_def Get_def sample_key)
    (simp add: sample_cache_def)

subsection \<open>One query\<close>

text \<open>
  C5.  Every query is answered exactly once and accounted for exactly once: whatever the engine,
  the fallback servers and the clock do, the call returns, writes one reply, and either
  publishes one event about that reply or counts one dropped event; the invariant of the proxy
  (its limiter, cache, pool and event channel) holds afterwards.
\<close>

theorem query_answered_once:
  assumes "proxy_ok (proxy s)"
  shows "\<exists>s' m ev. handleQuery e q s = Some s' \<and> wire s' = wire s @ [m] \<and> proxy_ok (proxy s') \<and>
    event_recorded ev (proxy s) (proxy s') \<and> Domain ev = normalizeDomain (Some q) \<and>
    SourceIP ev = sourceIP (remote e) \<and> ResponseCode ev = responseCode (lib e) (Some m)"
proof -
  let ?v = "query_verdict e q (proxy s)"
  from handleQuery_answers [OF assms, of e q] obtain s' where
    "handleQuery e q s = Some s'" "wire s' = wire s @ [v_reply ?v]" "proxy_ok (proxy s')"
    "event_recorded (event_of e q ?v) (proxy s) (proxy s')"
    by (auto simp: answers_def)
  then show ?thesis
    by (intro exI [of _ s'] exI [of _ "v_reply ?v"] exI [of _ "event_of e q ?v"])
      (simp add: event_of_def)
qed

lemma query_answered_once_witness:
  "\<exists>s' m. handleQuery (sample_env 0 (Inl ''timeout'')) (sample_msg 0) sample_state = Some s' \<and>
     wire s' = [m] \<and> proxy_ok (proxy s')"
  using query_answered_once [OF sample_proxy_ok, of "sample_env 0 (Inl ''timeout'')" "sample_msg 0"]
  by (auto simp: sample_parts)

text \<open>
  C1.  The code implements its specification: the reply written and the whole event published
  are those of \<open>query_verdict\<close>, which names the first of limiter, filter, cache, engine, stale
  cache, fallback servers and SERVFAIL that has something to say.
\<close>

theorem query_meets_verdict:
  assumes "proxy_ok (proxy s)" and "handleQuery e q s = Some s'"
  shows "wire s' = wire s @ [v_reply (query_verdict e q (proxy s))] \<and>
    event_recorded (event_of e q (query_verdict e q (proxy s))) (proxy s) (proxy s')"
  using handleQuery_answers [OF assms(1), of e q] assms(2) by (auto simp: answers_def)

lemma query_meets_verdict_witness:
  "\<exists>s'. handleQuery (sample_env 0 (Inl ''timeout'')) (sample_msg 0) sample_state = Some s' \<and>
     map rcode (wire s') = [RcodeServerFailure]"
proof -
  let ?e = "sample_env 0 (Inl ''timeout'')"
  obtain s' where s': "handleQuery ?e (sample_msg 0) sample_state = Some s'"
    using handleQuery_answers [OF sample_proxy_ok, of ?e "sample_msg 0"] by (auto simp: answers_def)
  have "rcode (v_reply (query_verdict ?e (sample_msg 0) (proxy sample_state))) = RcodeServerFailure"
    using sample_asks [of 0 "Inl ''timeout''" 0]
    by (simp add: query_verdict_def asks_engine_def sample_engine_answer sample_outage plain_verdict_def)
      (simp add: sample_env_def sample_lib_def)
  with query_meets_verdict [OF sample_proxy_ok s'] s' show ?thesis by (auto simp: sample_parts)
qed

text \<open>
  A refused query reaches nothing behind the refusal: when the limiter or the filter refuses
  it, or the cache answers it, the cache, the engine's connection pool and its connections are
  left as they were.
\<close>

theorem refused_query_is_contained:
  assumes "proxy_ok (proxy s)" and "handleQuery e q s = Some s'"
    and "rate_limited e (proxy s) \<or> \<not> Allowed (domain_filter (proxy s)) (normalizeDomain (Some q)) \<or>
      Get (cache (proxy s)) (Some q) (started e) \<noteq> None"
  shows "cache (proxy s') = cache (proxy s) \<and> conn_pool (proxy s') = conn_pool (proxy s) \<and>
    hung_up s' = hung_up s"
proof -
  have "\<not> asks_engine e q (proxy s)" using assms(3) by (auto simp: asks_engine_def)
  with handleQuery_core [OF assms(1,2)] show ?thesis by (simp add: same_core_def)
qed

lemma refused_query_is_contained_witness:
  "\<exists>s'. handleQuery (sample_env 0 (Inr (Some (sample_msg 60)))) (sample_msg 0)
       (sample_state\<lparr>proxy := sample_proxy\<lparr>domain_filter := newDomainFilter [] [''a.b'']\<rparr>\<rparr>) = Some s' \<and>
     cache (proxy s') = Some sample_cache"
proof -
  let ?e = "sample_env 0 (Inr (Some (sample_msg 60)))"
  let ?s = "sample_state\<lparr>proxy := sample_proxy\<lparr>domain_filter := newDomainFilter [] [''a.b'']\<rparr>\<rparr>"
  have ok: "proxy_ok (proxy ?s)" using sample_proxy_ok by (simp add: proxy_ok_def sample_state_def)
  obtain s' where s': "handleQuery ?e (sample_msg 0) ?s = Some s'"
    using handleQuery_answers [OF ok, of ?e "sample_msg 0"] by (auto simp: answers_def)
  have "\<not> Allowed (newDomainFilter [] [''a.b'']) (normalizeDomain (Some (sample_msg 0)))"
    by code_simp
  then have "\<not> Allowed (domain_filter (proxy ?s)) (normalizeDomain (Some (sample_msg 0)))" by simp
  from refused_query_is_contained [OF ok s'] this s' show ?thesis
    by (auto simp: sample_proxy_def)
qed

lemma Store_failure [simp]:
  "rcode m \<noteq> RcodeSuccess \<Longrightarrow> Store rk co request (Some m) now = co"
  by (cases co) (auto simp: Store_def isCacheableResponse_def split: option.splits)

text \<open>
  An outage does not poison the cache: when neither the engine nor any fallback server
  answers, the client gets SERVFAIL (or a stale answer) and the cache keeps what it had.
\<close>

theorem outage_keeps_cache:
  assumes "proxy_ok (proxy s)" and "SetRcode_ok (lib e)" and "handleQuery e q s = Some s'"
    and "engine_answer e q (proxy s) = None" and "fallback_answer e q (proxy s) = None"
  shows "cache (proxy s') = cache (proxy s)"
proof -
  have "rcode (SetRcode (lib e) q RcodeServerFailure) \<noteq> RcodeSuccess"
    using assms(2) by (simp add: SetRcode_ok_def rcode_defs)
  then have "cache_after e q (proxy s) = cache (proxy s)"
    using assms(4,5) by (simp add: cache_after_def split: option.split)
  with handleQuery_core [OF assms(1,3)] show ?thesis
    by (simp add: core_is_def same_core_def split: if_splits)
qed

lemma outage_keeps_cache_witness:
  "\<exists>s'. handleQuery (sample_env 0 (Inl ''timeout'')) (sample_msg 0) sample_state = Some s' \<and>
     cache (proxy s') = Some sample_cache"
proof -
  let ?e = "sample_env 0 (Inl ''timeout'')"
  obtain s' where s': "handleQuery ?e (sample_msg 0) sample_state = Some s'"
    using handleQuery_answers [OF sample_proxy_ok, of ?e "sample_msg 0"] by (auto simp: answers_def)
  have lib: "SetRcode_ok (lib ?e)" by (simp add: sample_env_def sample_lib_ok)
  from outage_keeps_cache [OF sample_proxy_ok lib s'] s' show ?thesis
    by (auto simp: sample_engine_answer sample_parts)
qed

subsection \<open>Sequences of queries and updates\<close>

datatype proxy_op = Ask query_env dns_msg | Refilter "string list" "string list" int | Refallback "string list"

fun serve :: "proxy_op list \<Rightarrow> query_state \<Rightarrow> query_state option" where
  "serve [] s = Some s"
| "serve (Ask e q # ops) s =
     (case handleQuery e q s of None \<Rightarrow> None | Some s' \<Rightarrow> serve ops s')"
| "serve (Refilter allow deny rc # ops) s =
     serve ops (s\<lparr>proxy := UpdateFilter (proxy s) allow deny rc\<rparr>)"
| "serve (Refallback us # ops) s =
     serve ops (s\<lparr>proxy := UpdateFallbackUpstreams (proxy s) us\<rparr>)"

definition asked :: "proxy_op list \<Rightarrow> nat" where
  "asked ops = length (filter (\<lambda>op. case op of Ask _ _ \<Rightarrow> True | _ \<Rightarrow> False) ops)"

lemma New_ok: "proxy_ok (New cfg now)"
  using newRequestLimiter_ok newResponseCache_ok newEngineConnPool_ok
    withDefaults_pos(3) [of cfg]
  by (simp add: New_def proxy_ok_def make_chan_def Let_def)

lemma update_ok:
  "proxy_ok p \<Longrightarrow> proxy_ok (UpdateFilter p allow deny rc)"
  "proxy_ok p \<Longrightarrow> proxy_ok (UpdateFallbackUpstreams p us)"
  by (simp_all add: UpdateFilter_def UpdateFallbackUpstreams_def proxy_ok_def)

subsection \<open>Answers from the cache\<close>

text \<open>
  A query leaves the answer kept under \<open>key\<close> in the cache, if there is room: it must not come so late
  that the answer is thrown away as too old for an outage, and for the same question it must find
  the answer fresh, or find no engine.
\<close>

fun leaves_answer :: "string \<Rightarrow> time \<Rightarrow> proxy_op \<Rightarrow> bool" where
  "leaves_answer key expiry (Ask e q) =
     (started e \<le> expiry + 5 * minute \<and>
      (cacheKey (Some q) = Some key \<longrightarrow> started e < expiry \<or> (\<forall>p. engine_answer e q p = None)))"
| "leaves_answer key expiry (Refilter allow deny rc) = True"
| "leaves_answer key expiry (Refallback us) = True"

text \<open>The queries of a sequence for other questions: each may add an entry.\<close>

fun other_asked :: "string \<Rightarrow> proxy_op list \<Rightarrow> nat" where
  "other_asked key [] = 0"
| "other_asked key (Ask e q # ops) = (if cacheKey (Some q) = Some key then 0 else 1) + other_asked key ops"
| "other_asked key (Refilter allow deny rc # ops) = other_asked key ops"
| "other_asked key (Refallback us # ops) = other_asked key ops"

definition holds_answer :: "string \<Rightarrow> cachedResponse \<Rightarrow> nat \<Rightarrow> Proxy \<Rightarrow> bool" where
  "holds_answer key entry room p \<longleftrightarrow>
     proxy_ok p \<and> (\<exists>c. cache p = Some c \<and> map_get (entries c) key = Some entry \<and>
       int (length (entries c)) + int room \<le> maxEntries c)"

lemma cache_after_keeps:
  assumes "cache p = Some c" and "cache_ok (Some c)" and "map_get (entries c) key = Some entry"
    and "int (length (entries c)) < maxEntries c" and "started e \<le> expiresAt entry + defaultStaleTTL"
    and "cacheKey (Some q) \<noteq> Some key"
  shows "\<exists>c'. cache_after e q p = Some c' \<and> map_get (entries c') key = Some entry \<and>
    maxEntries c' = maxEntries c \<and> length (entries c') \<le> Suc (length (entries c))"
  using Store_keeps_entry [OF assms(2-6), of "rank e"] assms(1,3)
  by (auto simp: cache_after_def Let_def split: option.split)

lemma query_keeps_answer:
  assumes "holds_answer key entry (other_asked key [Ask e q] + room) (proxy s)"
    and "leaves_answer key (expiresAt entry) (Ask e q)" and "handleQuery e q s = Some s'"
  shows "holds_answer key entry room (proxy s')"
proof -
  from assms(1) obtain c where c: "proxy_ok (proxy s)" "cache (proxy s) = Some c"
    "map_get (entries c) key = Some entry"
    "int (length (entries c)) + int (other_asked key [Ask e q] + room) \<le> maxEntries c"
    by (auto simp: holds_answer_def)
  have ok: "cache_ok (Some c)" using c(1,2) by (simp add: proxy_ok_def)
  have soon: "started e \<le> expiresAt entry + defaultStaleTTL" using assms(2) by (simp add: defaultStaleTTL_def)
  note core = handleQuery_core [OF c(1) assms(3)]
  have ok': "proxy_ok (proxy s')"
    using handleQuery_answers [OF c(1), of e q] assms(3) by (auto simp: answers_def)
  show ?thesis
  proof (cases "cacheKey (Some q) = Some key")
    case True
    have "staleTTL c = defaultStaleTTL" using ok by (simp add: cache_ok_def)
    note stale = stale_expired_iff [OF this]
    have "GetStale (Some c) (Some q) (started e) \<noteq> None"
      using True c(3) soon by (simp add: GetStale_def stale not_less)
    moreover have "Get (Some c) (Some q) (started e) \<noteq> None" if "started e < expiresAt entry"
      using True c(3) that by (simp add: Get_def)
    ultimately have "cache (proxy s') = Some c"
      using core c(2) True assms(2)
      by (auto simp: asks_engine_def core_is_def same_core_def cache_after_def split: if_splits)
    with ok' c(3,4) show ?thesis by (simp add: holds_answer_def)
  next
    case False
    with c(4) have room: "int (length (entries c)) < maxEntries c" by simp
    from cache_after_keeps [OF c(2) ok c(3) room soon False] obtain c' where
      "cache_after e q (proxy s) = Some c'" "map_get (entries c') key = Some entry"
      "maxEntries c' = maxEntries c" "length (entries c') \<le> Suc (length (entries c))"
      by blast
    with core c(2-4) False ok' show ?thesis
      by (auto simp: core_is_def same_core_def holds_answer_def split: if_splits)
  qed
qed

lemma serve_keeps_answer:
  assumes "holds_answer key entry (other_asked key ops + room) (proxy s)"
    and "list_all (leaves_answer key (expiresAt entry)) ops" and "serve ops s = Some s'"
  shows "holds_answer key entry room (proxy s')"
  using assms
proof (induction ops arbitrary: s)
  case Nil
  then show ?case by simp
next
  case (Cons op ops)
  show ?case
  proof (cases op)
    case (Ask e q)
    with Cons.prems(3) obtain s1 where s1: "handleQuery e q s = Some s1" "serve ops s1 = Some s'"
      by (auto split: option.splits)
    have "holds_answer key entry (other_asked key [Ask e q] + (other_asked key ops + room)) (proxy s)"
      using Cons.prems(1) Ask by (simp add: add.assoc)
    from query_keeps_answer [OF this _ s1(1)] Cons.prems(2) Ask
    have "holds_answer key entry (other_asked key ops + room) (proxy s1)" by simp
    with Cons.IH s1(2) Cons.prems(2) show ?thesis by simp
  next
    case (Refilter allow deny rc)
    with Cons.prems Cons.IH [of "s\<lparr>proxy := UpdateFilter (proxy s) allow deny rc\<rparr>"] show ?thesis
      by (simp add: holds_answer_def update_ok) (simp add: UpdateFilter_def)
  next
    case (Refallback us)
    with Cons.prems Cons.IH [of "s\<lparr>proxy := UpdateFallbackUpstreams (proxy s) us\<rparr>"] show ?thesis
      by (simp add: holds_answer_def update_ok) (simp add: UpdateFallbackUpstreams_def)
  qed
qed

text \<open>The entry a query leaves behind.\<close>

definition entry_for :: "query_env \<Rightarrow> dns_msg \<Rightarrow> duration \<Rightarrow> cachedResponse" where
  "entry_for e m dflt = \<lparr>message = m, storedAt = started e, expiresAt = started e + lifetime dflt m\<rparr>"

lemma query_leaves_answer:
  assumes "proxy_ok (proxy s)" and "cache (proxy s) = Some c" and "asks_engine e q (proxy s)"
    and "engine_answer e q (proxy s) = Some m" and "isCacheableResponse (Some m)"
    and "0 < lifetime (defaultTTL c) m" and "cacheKey (Some q) = Some key"
    and "handleQuery e q s = Some s1" and "cache (proxy s1) = Some c1"
    and "int (length (entries c1)) + int room \<le> maxEntries c1"
  shows "holds_answer key (entry_for e m (defaultTTL c)) room (proxy s1)"
proof -
  have "Some c1 = Store (rank e) (Some c) (Some q) (Some m) (started e)"
    using handleQuery_core [OF assms(1,8)] assms(2-4,9) by (simp add: core_is_def cache_after_def)
  also have "\<dots> = Some (insert_entry (rank e) key (entry_for e m (defaultTTL c)) c)"
    using assms(5-7) by (simp add: Store_Some entry_for_def cacheEntryTTL_lifetime)
  finally have "c1 = insert_entry (rank e) key (entry_for e m (defaultTTL c)) c" by simp
  moreover have "proxy_ok (proxy s1)"
    using handleQuery_answers [OF assms(1), of e q] assms(8) by (auto simp: answers_def)
  ultimately show ?thesis using assms(9,10) by (simp add: holds_answer_def)
qed

text \<open>What a lookup finds of an answer the cache holds.\<close>

lemma lookup_held:
  assumes "holds_answer key entry room p" and "cacheKey (Some q) = Some key"
  shows "Get (cache p) (Some q) t =
      (if t < expiresAt entry then Some (cloneCachedResponse entry (Some q) t) else None) \<and>
    (expiresAt entry \<le> t \<longrightarrow> t \<le> expiresAt entry + 5 * minute \<longrightarrow>
       GetStale (cache p) (Some q) t = Some (answer_with (\<lambda>_. 1) q (message entry)))"
proof -
  from assms(1) obtain c where c: "cache p = Some c" "map_get (entries c) key = Some entry" "cache_ok (Some c)"
    by (auto simp: holds_answer_def proxy_ok_def)
  have "staleTTL c = defaultStaleTTL" using c(3) by (simp add: cache_ok_def)
  note stale = stale_expired_iff [OF this]
  show ?thesis
    using c(1,2) assms(2)
    by (simp add: Get_def GetStale_def stale stale_record_with_ttl map_records_answer)
      (simp add: defaultStaleTTL_def)
qed

lemma query_passes:
  assumes "proxy_ok (proxy s)" and "\<not> rate_limited e (proxy s)"
    and "Allowed (domain_filter (proxy s)) (normalizeDomain (Some q))"
  shows "\<exists>s'. handleQuery e q s = Some s' \<and>
    answers e q (case Get (cache (proxy s)) (Some q) (started e) of
             Some m \<Rightarrow> plain_verdict m cacheHitUpstreamLabel True True
           | None \<Rightarrow>
               (case engine_answer e q (proxy s) of
                  Some m \<Rightarrow> plain_verdict m (EngineAddr (config (proxy s))) True False
                | None \<Rightarrow> outage_verdict e q (proxy s))) s (Some s')"
  using handleQuery_answers [OF assms(1), of e q] assms(2,3)
  by (auto simp: answers_def query_verdict_def)

text \<open>A witness of both: an update and the same question, asked again, come in between.\<close>

definition sample_between :: "proxy_op list" where
  "sample_between = [Refallback [''9.9.9.9:53''], Ask (sample_env (30 * second) (Inl ''down'')) (sample_msg 5)]"

lemma sample_between_early:
  "list_all (leaves_answer key (started (sample_env 0 outcome) + lifetime dflt (sample_msg 60))) sample_between"
  by (simp add: sample_between_def sample_lifetime)
    (simp add: sample_env_def second_def minute_def)

lemma sample_between_run:
  obtains s1 s2 c1 where
    "handleQuery (sample_env 0 (Inr (Some (sample_msg 60)))) (sample_msg 0) sample_state = Some s1"
    "cache (proxy s1) = Some c1" "serve sample_between s1 = Some s2"
    "int (length (entries c1)) + int (other_asked ''a.b.|1|1'' sample_between) \<le> maxEntries c1"
    "request_limiter (proxy s2) = None" "domain_filter (proxy s2) = None"
proof -
  obtain s1 where s1: "handleQuery (sample_env 0 (Inr (Some (sample_msg 60)))) (sample_msg 0) sample_state = Some s1"
    "proxy_ok (proxy s1)" "request_limiter (proxy s1) = None" "domain_filter (proxy s1) = None"
    using handleQuery_answers [OF sample_proxy_ok, of "sample_env 0 (Inr (Some (sample_msg 60)))" "sample_msg 0"]
    by (auto simp: answers_def same_rules_def sample_state_def sample_proxy_def)
  have "cache (proxy s1) \<noteq> None"
    using handleQuery_core [OF sample_proxy_ok s1(1)]
    by (simp add: sample_asks sample_answered core_is_def cache_after_def sample_parts Store_Some split: option.split)
  then obtain c1 where c1: "cache (proxy s1) = Some c1" by blast
  have "cache_ok (Some c1)" using s1(2) c1 by (simp add: proxy_ok_def)
  then have room: "int (length (entries c1)) + int (other_asked ''a.b.|1|1'' sample_between) \<le> maxEntries c1"
    by (auto simp: cache_ok_def sample_between_def sample_key)
  let ?s = "s1\<lparr>proxy := UpdateFallbackUpstreams (proxy s1) [''9.9.9.9:53'']\<rparr>"
  let ?e = "sample_env (30 * second) (Inl ''down'')"
  have ok: "proxy_ok (proxy ?s)" using s1(2) by (simp add: update_ok)
  obtain s2 where s2: "handleQuery ?e (sample_msg 5) ?s = Some s2"
    "request_limiter (proxy s2) = None" "domain_filter (proxy s2) = None"
    using handleQuery_answers [OF ok, of ?e "sample_msg 5"] s1(3,4)
    by (auto simp: answers_def same_rules_def UpdateFallbackUpstreams_def)
  then have "serve sample_between s1 = Some s2" by (simp add: sample_between_def)
  with that s1(1) c1 room s2(2,3) show thesis by blast
qed

text \<open>
  C23.  A repeated question is answered from the cache.  The engine has answered a query with a
  cacheable answer; then come any queries and updates of the filter and of the fallback servers, one
  handled after the other, and the cache has room for the answers of those for other questions (so that
  nothing is evicted for lack of room); none of them comes more than five minutes after the answer
  expires, and those for the same question come before it expires or while the engine does not answer.
  Then an admitted query for the same name (in any case), type and class that starts before the answer
  expires, after the least positive TTL of its records, gets one reply, a success with its own
  identifier, the engine's connections are not touched, and the event about it, published or dropped and counted, says a cache hit.  The reply is the
  engine's answer with every TTL less by the whole seconds since (if these are fewer than 2^23, 97 days).
\<close>

theorem repeated_query_hits_cache:
  assumes "proxy_ok (proxy s)" and "cache (proxy s) = Some c" and "asks_engine e q (proxy s)"
    and "engine_answer e q (proxy s) = Some m" and "isCacheableResponse (Some m)"
    and "0 < lifetime (defaultTTL c) m" and "cacheKey (Some q) = Some key"
    and "handleQuery e q s = Some s1" and "cache (proxy s1) = Some c1"
    and "int (length (entries c1)) + int (other_asked key ops) \<le> maxEntries c1"
    and "list_all (leaves_answer key (started e + lifetime (defaultTTL c) m)) ops"
    and "serve ops s1 = Some s2"
    and "cacheKey (Some q') = Some key" and "started e' < started e + lifetime (defaultTTL c) m"
    and "\<not> rate_limited e' (proxy s2)"
    and "Allowed (domain_filter (proxy s2)) (normalizeDomain (Some q'))"
  shows "\<exists>s3 r. handleQuery e' q' s2 = Some s3 \<and> wire s3 = wire s2 @ [r] \<and> rcode r = RcodeSuccess \<and>
    msg_id r = msg_id q' \<and> conn_pool (proxy s3) = conn_pool (proxy s2) \<and> hung_up s3 = hung_up s2 \<and>
    event_recorded (event_of e' q' (plain_verdict r cacheHitUpstreamLabel True True)) (proxy s2) (proxy s3) \<and>
    (started e \<le> started e' \<and> started e' < started e + 2 ^ 23 * second \<longrightarrow>
       r = answer_with (\<lambda>ttl. ttl - nat ((started e' - started e) div second)) q' m)"
proof -
  let ?entry = "entry_for e m (defaultTTL c)"
  have "holds_answer key ?entry (other_asked key ops + 0) (proxy s1)"
    using query_leaves_answer [OF assms(1-9)] assms(10) by simp
  from serve_keeps_answer [OF this _ assms(12)] assms(11) have held: "holds_answer key ?entry 0 (proxy s2)"
    by (simp add: entry_for_def)
  then have ok2: "proxy_ok (proxy s2)" by (simp add: holds_answer_def)
  let ?r = "cloneCachedResponse ?entry (Some q') (started e')"
  have g: "Get (cache (proxy s2)) (Some q') (started e') = Some ?r"
    using lookup_held [OF held assms(13), of "started e'"] assms(14) by (simp add: entry_for_def)
  from query_passes [OF ok2 assms(15,16)] g obtain s3 where
    s3: "handleQuery e' q' s2 = Some s3" "answers e' q' (plain_verdict ?r cacheHitUpstreamLabel True True) s2 (Some s3)"
    by auto
  have "rcode ?r = RcodeSuccess"
    using assms(5) clone_servable [of ?entry "Some q'" "started e'"]
    by (simp add: entry_for_def isCacheableResponse_def split: if_splits)
  moreover have "conn_pool (proxy s3) = conn_pool (proxy s2) \<and> hung_up s3 = hung_up s2"
    using handleQuery_core [OF ok2 s3(1)] g by (simp add: asks_engine_def same_core_def)
  ultimately show ?thesis
    using s3 clone_answer [of ?entry "started e'" q'] by (auto simp: answers_def plain_verdict_def entry_for_def)
qed

lemma repeated_query_hits_cache_witness:
  "\<exists>s1 s2 s3 r. handleQuery (sample_env 0 (Inr (Some (sample_msg 60)))) (sample_msg 0) sample_state = Some s1 \<and>
     serve sample_between s1 = Some s2 \<and>
     handleQuery (sample_env (59 * second) (Inl ''down'')) (sample_msg 5) s2 = Some s3 \<and>
     wire s3 = wire s2 @ [r] \<and> rcode r = RcodeSuccess \<and> map ttl_of (answer r) = [1]"
proof -
  obtain s1 s2 c1 where s: "handleQuery (sample_env 0 (Inr (Some (sample_msg 60)))) (sample_msg 0) sample_state = Some s1"
    "cache (proxy s1) = Some c1" "serve sample_between s1 = Some s2"
    "int (length (entries c1)) + int (other_asked ''a.b.|1|1'' sample_between) \<le> maxEntries c1"
    and open': "request_limiter (proxy s2) = None" "domain_filter (proxy s2) = None"
    by (rule sample_between_run)
  let ?e = "sample_env (59 * second) (Inl ''down'')"
  have lim: "\<not> rate_limited ?e (proxy s2)" using open' by (simp add: rate_limited_def)
  have allow: "Allowed (domain_filter (proxy s2)) (normalizeDomain (Some (sample_msg 5)))"
    using open' by (simp add: Allowed_def)
  have early: "started ?e < started (sample_env 0 (Inr (Some (sample_msg 60)))) + lifetime (defaultTTL sample_cache) (sample_msg 60)"
    by (simp add: sample_lifetime sample_env_def second_def)
  have aged: "map ttl_of (answer (answer_with (\<lambda>ttl. ttl - 59) (sample_msg 5) (sample_msg 60))) = [1]"
    by (simp add: answer_with_def sample_msg_def with_ttl_def ttl_of_def)
  have clock: "started (sample_env t outcome) = t" for t outcome by (simp add: sample_env_def)
  from repeated_query_hits_cache [OF sample_proxy_ok sample_parts(3) sample_asks sample_answered sample_cacheable
      sample_lifetime_pos sample_key s(1,2,4) sample_between_early s(3) sample_key early lim allow]
  obtain s3 r where "handleQuery ?e (sample_msg 5) s2 = Some s3" "wire s3 = wire s2 @ [r]" "rcode r = RcodeSuccess"
    "r = answer_with (\<lambda>ttl. ttl - 59) (sample_msg 5) (sample_msg 60)"
    unfolding clock by (auto simp: second_def)
  with s aged show ?thesis
    by (intro exI [of _ s1] exI [of _ s2] exI [of _ s3] exI [of _ r]) simp
qed

text \<open>
  C24.  An outage is bridged for five minutes.  As before an answer of the engine was kept and queries
  and updates were handled after it, with room for their answers.  After its expiry, for five more
  minutes, an admitted query for the same question that the engine does not answer gets one reply, the
  engine's answer with its own identifier and every TTL set to 1; the cache is not changed and the
  event says that the answer was stale.
\<close>

theorem outage_served_stale:
  assumes "proxy_ok (proxy s)" and "cache (proxy s) = Some c" and "asks_engine e q (proxy s)"
    and "engine_answer e q (proxy s) = Some m" and "isCacheableResponse (Some m)"
    and "0 < lifetime (defaultTTL c) m" and "cacheKey (Some q) = Some key"
    and "handleQuery e q s = Some s1" and "cache (proxy s1) = Some c1"
    and "int (length (entries c1)) + int (other_asked key ops) \<le> maxEntries c1"
    and "list_all (leaves_answer key (started e + lifetime (defaultTTL c) m)) ops"
    and "serve ops s1 = Some s2"
    and "cacheKey (Some q') = Some key" and "started e + lifetime (defaultTTL c) m \<le> started e'"
    and "started e' \<le> started e + lifetime (defaultTTL c) m + 5 * minute"
    and "\<not> rate_limited e' (proxy s2)"
    and "Allowed (domain_filter (proxy s2)) (normalizeDomain (Some q'))"
    and "engine_answer e' q' (proxy s2) = None"
  shows "\<exists>s3 r. handleQuery e' q' s2 = Some s3 \<and> wire s3 = wire s2 @ [r] \<and>
    r = answer_with (\<lambda>_. 1) q' m \<and> cache (proxy s3) = cache (proxy s2) \<and>
    event_recorded (event_of e' q' (plain_verdict r cacheStaleUpstreamLabel True True)) (proxy s2) (proxy s3)"
proof -
  let ?entry = "entry_for e m (defaultTTL c)" and ?r = "answer_with (\<lambda>_. 1) q' m"
  have "holds_answer key ?entry (other_asked key ops + 0) (proxy s1)"
    using query_leaves_answer [OF assms(1-9)] assms(10) by simp
  from serve_keeps_answer [OF this _ assms(12)] assms(11) have held: "holds_answer key ?entry 0 (proxy s2)"
    by (simp add: entry_for_def)
  then have ok2: "proxy_ok (proxy s2)" by (simp add: holds_answer_def)
  from lookup_held [OF held assms(13), of "started e'"] assms(14,15) have
    g: "Get (cache (proxy s2)) (Some q') (started e') = None"
    and st: "GetStale (cache (proxy s2)) (Some q') (started e') = Some ?r"
    by (simp_all add: entry_for_def)
  from query_passes [OF ok2 assms(16,17)] g st assms(18) obtain s3 where
    s3: "handleQuery e' q' s2 = Some s3" "answers e' q' (plain_verdict ?r cacheStaleUpstreamLabel True True) s2 (Some s3)"
    by (auto simp: outage_verdict_def)
  have "asks_engine e' q' (proxy s2)" using g assms(16,17) by (simp add: asks_engine_def)
  then have "cache (proxy s3) = cache (proxy s2)"
    using handleQuery_core [OF ok2 s3(1)] assms(18) st by (simp add: core_is_def cache_after_def)
  with s3 show ?thesis by (auto simp: answers_def plain_verdict_def)
qed

lemma outage_served_stale_witness:
  "\<exists>s1 s2 s3. handleQuery (sample_env 0 (Inr (Some (sample_msg 60)))) (sample_msg 0) sample_state = Some s1 \<and>
     serve sample_between s1 = Some s2 \<and>
     handleQuery (sample_env (200 * second) (Inl ''down'')) (sample_msg 5) s2 = Some s3 \<and>
     map (map ttl_of \<circ> answer) (wire s3) = map (map ttl_of \<circ> answer) (wire s2) @ [[1]]"
proof -
  obtain s1 s2 c1 where s: "handleQuery (sample_env 0 (Inr (Some (sample_msg 60)))) (sample_msg 0) sample_state = Some s1"
    "cache (proxy s1) = Some c1" "serve sample_between s1 = Some s2"
    "int (length (entries c1)) + int (other_asked ''a.b.|1|1'' sample_between) \<le> maxEntries c1"
    and open': "request_limiter (proxy s2) = None" "domain_filter (proxy s2) = None"
    by (rule sample_between_run)
  let ?e = "sample_env (200 * second) (Inl ''down'')"
  have lim: "\<not> rate_limited ?e (proxy s2)" using open' by (simp add: rate_limited_def)
  have allow: "Allowed (domain_filter (proxy s2)) (normalizeDomain (Some (sample_msg 5)))"
    using open' by (simp add: Allowed_def)
  have late: "started (sample_env 0 (Inr (Some (sample_msg 60)))) + lifetime (defaultTTL sample_cache) (sample_msg 60) \<le> started ?e"
    and soon: "started ?e \<le>
      started (sample_env 0 (Inr (Some (sample_msg 60)))) + lifetime (defaultTTL sample_cache) (sample_msg 60) + 5 * minute"
    by (simp_all add: sample_lifetime sample_env_def second_def minute_def)
  have "map ttl_of (answer (answer_with (\<lambda>_. 1) (sample_msg 5) (sample_msg 60))) = [1]"
    by (simp add: answer_with_def sample_msg_def with_ttl_def ttl_of_def)
  with outage_served_stale [OF sample_proxy_ok sample_parts(3) sample_asks sample_answered sample_cacheable
      sample_lifetime_pos sample_key s(1,2,4) sample_between_early s(3) sample_key late soon lim allow
      sample_engine_down] s
  show ?thesis by auto
qed

subsection \<open>Fallback servers\<close>

text \<open>
  The fallback servers are asked in order and the first that answers is the last that is
  asked: the answer is that of a server before which all failed, and there is none only when
  all failed.
\<close>

theorem fallback_in_order:
  "(fallback_answer e q p = Some m \<longleftrightarrow>
     (\<exists>before u after. fallbackUpstreams p = before @ u # after \<and>
        askUpstream e (wall e + QueryTimeout (config p)) (QueryTimeout (config p)) q u = Inr (Some m) \<and>
        (\<forall>v \<in> set before. \<forall>r.
           askUpstream e (wall e + QueryTimeout (config p)) (QueryTimeout (config p)) q v \<noteq> Inr (Some r))))"
proof -
  have "firstAnswer ask us = Some m \<longleftrightarrow>
      (\<exists>before u after. us = before @ u # after \<and> ask u = Inr (Some m) \<and>
         (\<forall>v \<in> set before. \<forall>r. ask v \<noteq> Inr (Some r)))" for ask us
  proof (induction us)
    case Nil
    then show ?case by simp
  next
    case (Cons u us)
    show ?case
    proof (cases "\<exists>r. ask u = Inr (Some r)")
      case True
      then obtain r where r: "ask u = Inr (Some r)" by blast
      show ?thesis
      proof
        assume "firstAnswer ask (u # us) = Some m"
        with r show "\<exists>before w after. u # us = before @ w # after \<and> ask w = Inr (Some m) \<and>
            (\<forall>v \<in> set before. \<forall>r. ask v \<noteq> Inr (Some r))"
          by (intro exI [of _ "[]"] exI [of _ u] exI [of _ us]) simp
      next
        assume "\<exists>before w after. u # us = before @ w # after \<and> ask w = Inr (Some m) \<and>
            (\<forall>v \<in> set before. \<forall>r. ask v \<noteq> Inr (Some r))"
        with r show "firstAnswer ask (u # us) = Some m" by (auto simp: Cons_eq_append_conv)
      qed
    next
      case False
      then have "firstAnswer ask (u # us) = firstAnswer ask us"
        by (cases "ask u") (auto split: option.splits)
      with False Cons.IH show ?thesis
        by (auto simp: Cons_eq_append_conv) (metis (no_types) append_Cons list.set_intros set_ConsD)+
    qed
  qed
  then show ?thesis by (simp add: fallback_answer_def)
qed


lemma fallback_in_order_witness:
  "fallback_answer ((sample_env 0 (Inl ''down''))\<lparr>askUpstream :=
       \<lambda>_ _ _ u. if u = ''b'' then Inr (Some (sample_msg 9)) else Inl ''x''\<rparr>) (sample_msg 0)
     (sample_proxy\<lparr>fallbackUpstreams := [''a'', ''b'']\<rparr>) = Some (sample_msg 9)"
  unfolding fallback_in_order
  by (rule exI [of _ "[''a'']"], rule exI [of _ "''b''"], rule exI [of _ "[]"]) simp

subsection \<open>Sequences accounted for\<close>

text \<open>Events in the channel and events dropped, together.\<close>

definition accounted :: "Proxy \<Rightarrow> int" where
  "accounted p = int (length (buffer (events p))) + dropped p"

lemma event_recorded_accounted:
  "event_recorded ev p p' \<Longrightarrow> 0 \<le> dropped p \<Longrightarrow> dropped p < max_int64 \<Longrightarrow>
     accounted p' = accounted p + 1 \<and> 0 \<le> dropped p' \<and> dropped p' \<le> dropped p + 1"
  using wrap64_id [of "dropped p + 1"]
  by (auto simp: event_recorded_def accounted_def max_int64_def min_int64_def split: if_splits)

lemma serve_accounts:
  assumes "proxy_ok (proxy s)" and "0 \<le> dropped (proxy s)"
    and "dropped (proxy s) + int (length ops) < max_int64"
  shows "\<exists>s'. serve ops s = Some s' \<and> proxy_ok (proxy s') \<and>
    length (wire s') = length (wire s) + asked ops \<and>
    accounted (proxy s') = accounted (proxy s) + int (asked ops)"
  using assms
proof (induction ops arbitrary: s)
  case Nil
  then show ?case by (simp add: asked_def)
next
  case (Cons op ops)
  show ?case
  proof (cases op)
    case (Ask e q)
    from handleQuery_answers [OF Cons.prems(1), of e q] obtain s1 ev where
      s1: "handleQuery e q s = Some s1" "length (wire s1) = Suc (length (wire s))"
        "event_recorded ev (proxy s) (proxy s1)" "proxy_ok (proxy s1)"
      by (auto simp: answers_def)
    have acc: "accounted (proxy s1) = accounted (proxy s) + 1" "0 \<le> dropped (proxy s1)"
      "dropped (proxy s1) \<le> dropped (proxy s) + 1"
      using event_recorded_accounted [OF s1(3) Cons.prems(2)] Cons.prems(3) by simp_all
    then have "dropped (proxy s1) + int (length ops) < max_int64" using Cons.prems(3) by simp
    from Cons.IH [OF s1(4) acc(2) this] s1 acc(1) Ask show ?thesis by (auto simp: asked_def)
  next
    case (Refilter allow deny rc)
    let ?s1 = "s\<lparr>proxy := UpdateFilter (proxy s) allow deny rc\<rparr>"
    have same: "dropped (proxy ?s1) = dropped (proxy s)" "accounted (proxy ?s1) = accounted (proxy s)"
      by (simp_all add: UpdateFilter_def accounted_def)
    from Cons.IH [of ?s1] Cons.prems update_ok(1) [OF Cons.prems(1)] same Refilter
    show ?thesis by (simp add: asked_def)
  next
    case (Refallback us)
    let ?s1 = "s\<lparr>proxy := UpdateFallbackUpstreams (proxy s) us\<rparr>"
    have same: "dropped (proxy ?s1) = dropped (proxy s)" "accounted (proxy ?s1) = accounted (proxy s)"
      by (simp_all add: UpdateFallbackUpstreams_def accounted_def)
    from Cons.IH [of ?s1] Cons.prems update_ok(2) [OF Cons.prems(1)] same Refallback
    show ?thesis by (simp add: asked_def)
  qed
qed

text \<open>
  A proxy with any configuration serves any sequence of queries and of updates of its filter
  and fallback servers without failing: as many replies as queries, and as many events, in the
  channel or counted as dropped.
\<close>

theorem new_proxy_serves:
  assumes "int (length ops) < max_int64"
  shows "\<exists>s'. serve ops \<lparr>proxy = New cfg now, wire = [], hung_up = []\<rparr> = Some s' \<and>
    length (wire s') = asked ops \<and>
    int (length (buffer (events (proxy s')))) + DroppedEvents (proxy s') = int (asked ops) \<and>
    int (length (buffer (events (proxy s')))) \<le> capacity (events (proxy s'))"
proof -
  let ?s = "\<lparr>proxy = New cfg now, wire = [], hung_up = []\<rparr>"
  have "dropped (proxy ?s) = 0" "accounted (proxy ?s) = 0"
    by (simp_all add: New_def Let_def accounted_def make_chan_def)
  with serve_accounts [of ?s ops] New_ok [of cfg now] assms show ?thesis
    by (auto simp: accounted_def DroppedEvents_def proxy_ok_def)
qed

lemma new_proxy_serves_witness:
  "\<exists>s'. serve [Ask (sample_env 1 (Inl ''down'')) (sample_msg 0), Refallback [''9.9.9.9:53''],
       Ask (sample_env 2 (Inl ''down'')) (sample_msg 0)]
     \<lparr>proxy = New (sample_limits 1) 0, wire = [], hung_up = []\<rparr> = Some s' \<and> length (wire s') = 2"
  using new_proxy_serves [of "[Ask (sample_env 1 (Inl ''down'')) (sample_msg 0), Refallback [''9.9.9.9:53''],
       Ask (sample_env 2 (Inl ''down'')) (sample_msg 0)]" "sample_limits 1" 0]
  by (auto simp: asked_def max_int64_def)

subsection \<open>Stopping\<close>

text \<open>
  \<open>Stop\<close> works once and is safe to repeat: the first call closes the event channel, clears the
  listeners and closes every idle connection of the pool, a second one has no effect; nothing
  is ever closed twice.
\<close>

theorem stop_once:
  assumes "proxy_ok p" and "\<not> stopped p"
  shows "\<exists>p1 x. Stop p = Some (p1, x) \<and> chan_closed (events p1) \<and>
    udp_shutdown x = udp_server p \<and> tcp_shutdown x = tcp_server p \<and>
    \<not> udp_server p1 \<and> \<not> tcp_server p1 \<and>
    (\<forall>c. conn_pool p = Some c \<longrightarrow> mset (stop_closed x) = pool_held c \<and>
       (\<exists>c1. conn_pool p1 = Some c1 \<and> pool_closed c1 \<and> pool_held c1 = {#})) \<and>
    Stop p1 = Some (p1, \<lparr>udp_shutdown = False, tcp_shutdown = False, stop_closed = []\<rparr>)"
proof -
  obtain po cs where c: "Close (conn_pool p) = (po, cs)" by (cases "Close (conn_pool p)")
  have "mset cs = pool_held c0 \<and> (\<exists>c1. po = Some c1 \<and> pool_closed c1 \<and> pool_held c1 = {#})"
    if c0: "conn_pool p = Some c0" for c0
  proof -
    have ok: "pool_ok c0" using assms(1) c0 by (simp add: proxy_ok_def)
    obtain c1 where d: "drain c0 = (c1, cs)" "po = Some c1"
      using c c0 by (auto simp: Close_def split: prod.splits)
    have "pool_held c1 = {#}"
      using engine_pool.stop_ok [OF ok d(1)] engine_pool.stopped_holds_none by blast
    with engine_pool.stop_held [OF ok d(1)] engine_pool.stop_ok [OF ok d(1)] d(2) show ?thesis by simp
  qed
  with assms c show ?thesis by (auto simp: Stop_def proxy_ok_def Let_def)
qed

lemma stop_once_witness:
  "\<exists>p1 x. Stop (New (sample_limits 1) 0) = Some (p1, x) \<and> chan_closed (events p1)"
proof -
  have "\<not> stopped (New (sample_limits 1) 0)" by (simp add: New_def Let_def)
  from stop_once [OF New_ok this] show ?thesis by auto
qed

text \<open>
  \<open>Start\<close> runs one pair of listeners at a time: while they are set a second \<open>Start\<close> is refused
  and changes nothing, and when the first one ends, for whatever reason, it has stopped the proxy
  and reports the failure of a listener but not the end of its context.
\<close>

theorem start_stops:
  assumes "proxy_ok p" and "\<not> stopped p"
  shows "(udp_server p \<or> tcp_server p \<longrightarrow> Start p how = Some (Some ''proxy already started'', p)) \<and>
    (\<not> udp_server p \<longrightarrow> \<not> tcp_server p \<longrightarrow>
      (\<exists>p1. Start p how = Some (case how of ContextDone \<Rightarrow> None | ListenerFailed err \<Rightarrow> Some err, p1) \<and>
         stopped p1 \<and> chan_closed (events p1) \<and> \<not> udp_server p1 \<and> \<not> tcp_server p1))"
  using assms by (auto simp: Start_def listen_def Stop_def proxy_ok_def Let_def split: prod.splits)

lemma start_stops_witness:
  "\<exists>p1. Start (New (sample_limits 1) 0) ContextDone = Some (None, p1) \<and> stopped p1"
proof -
  have f: "\<not> stopped (New (sample_limits 1) 0)" "\<not> udp_server (New (sample_limits 1) 0)"
    "\<not> tcp_server (New (sample_limits 1) 0)"
    by (simp_all add: New_def Let_def)
  from start_stops [OF New_ok f(1), of ContextDone] f show ?thesis by auto
qed

end
