(* ===== verification/EventLoop.thy ===== *)
theory EventLoop
  imports Channel
begin

section \<open>The loop of an event worker\<close>

text \<open>
  The metrics collector and the query logger consume events in the same loop: a \<open>select\<close>
  between an event, the close of the channel and the end of the context; once the context has
  ended, the rest of the channel is consumed until it is closed.  A run is given by what each
  \<open>select\<close> chose (\<open>choice\<close>); the end of the trace means that the loop still waits.
\<close>

datatype 'e choice = Event 'e | Closed | Cancelled

text \<open>\<open>for event := range events\<close>: only events and the close are seen.\<close>

fun drain_events :: "('s \<Rightarrow> 'e \<Rightarrow> 's) \<Rightarrow> 's \<Rightarrow> 'e choice list \<Rightarrow> 's \<times> bool" where
  "drain_events process s [] = (s, False)"
| "drain_events process s (Event e # cs) = drain_events process (process s e) cs"
| "drain_events process s (Closed # cs) = (s, True)"
| "drain_events process s (Cancelled # cs) = drain_events process s cs"

fun run_worker :: "('s \<Rightarrow> 'e \<Rightarrow> 's) \<Rightarrow> 's \<Rightarrow> 'e choice list \<Rightarrow> 's \<times> bool" where
  "run_worker process s [] = (s, False)"
| "run_worker process s (Event e # cs) = run_worker process (process s e) cs"
| "run_worker process s (Closed # cs) = (s, True)"
| "run_worker process s (Cancelled # cs) = drain_events process s cs"

text \<open>The events before the channel is closed.\<close>

fun delivered :: "'e choice list \<Rightarrow> 'e list" where
  "delivered [] = []"
| "delivered (Event e # cs) = e # delivered cs"
| "delivered (Closed # cs) = []"
| "delivered (Cancelled # cs) = delivered cs"

lemma drain_events_eq:
  "drain_events process s cs = (foldl process s (delivered cs), Closed \<in> set cs)"
  by (induction process s cs rule: drain_events.induct) simp_all

text \<open>
  A worker processes every event that was sent before the close, in order and once, whenever
  the context ends, and it returns exactly when the channel is closed.
\<close>

lemma run_worker_eq:
  "run_worker process s cs = (foldl process s (delivered cs), Closed \<in> set cs)"
  by (induction process s cs rule: run_worker.induct) (simp_all add: drain_events_eq)

end
