(* ===== verification/Metrics.thy ===== *)
theory Metrics
  imports EventLoop QueryEvents
begin

section \<open>The metrics collector\<close>

text \<open>
  \<open>pkg/metrics/collector.go\<close>.  The counters, gauges and histograms are those of the Prometheus
  client; the model records the operations the code performs on them, in order
  (\<open>metric_op\<close>).  A vector's counter carries its label.
\<close>

subsection \<open>The model\<close>

datatype counter =
    QueriesTotal
  | QueriesByType string
  | CacheHitsTotal
  | CacheMissesTotal
  | UpstreamQueriesTotal string
  | UpstreamFailuresTotal string
  | NXDomainTotal
  | ServfailTotal
  | TimeoutTotal string
  | AgentConfigReloadTotal
  | AgentConfigReloadErrorsTotal
  | AgentEngineRecoveryAttemptsTotal
  | AgentEngineRecoverySuccessTotal
  | AgentEngineRecoveryErrorsTotal
  | ProxyDroppedEventsTotal
  | FanOutDroppedEventsTotal
  | ComponentErrorBufferOverflowsTotal
  | DeniedQueriesTotal
  | StaleCacheServesTotal

datatype metric_op =
    Inc counter
  | ObserveLatency string f64
  | SetUpstreamHealthy string f64
  | SetAgentUp f64

definition known_query_types :: "string list" where
  "known_query_types =
     [''A'', ''AAAA'', ''CAA'', ''CNAME'', ''DS'', ''DNSKEY'', ''HTTPS'', ''MX'', ''NAPTR'', ''NS'', ''PTR'',
      ''RRSIG'', ''SOA'', ''SRV'', ''SVCB'', ''TXT'']"

definition normalizeQueryTypeLabel :: "string \<Rightarrow> string" where
  "normalizeQueryTypeLabel t =
     (let qType = to_upper (trim_space t) in
      if qType = '''' then ''UNKNOWN''
      else if qType \<in> set known_query_types then qType
      else ''OTHER'')"

definition ProcessEvent :: "metric_op list \<Rightarrow> QueryEvent \<Rightarrow> metric_op list" where
  "ProcessEvent ops event =
     (let qType = normalizeQueryTypeLabel (QueryType event);
          upstream = (if Upstream event = '''' then ''unknown'' else Upstream event);
          code = to_upper (ResponseCode event)
      in ops @ [Inc QueriesTotal, Inc (QueriesByType qType)]
         @ (if Denied event then [Inc DeniedQueriesTotal] else [])
         @ (if upstream = ''proxy-cache-stale'' then [Inc StaleCacheServesTotal] else [])
         @ (if CacheHitKnown event
            then (if CacheHit event then [Inc CacheHitsTotal] else [Inc CacheMissesTotal]) else [])
         @ [Inc (UpstreamQueriesTotal upstream), ObserveLatency upstream (fdiv (LatencyMs event) 1000)]
         @ (if code = ''NXDOMAIN'' then [Inc NXDomainTotal]
            else if code = ''SERVFAIL'' then [Inc ServfailTotal, Inc (UpstreamFailuresTotal upstream)]
            else if code = ''TIMEOUT'' then [Inc (TimeoutTotal upstream), Inc (UpstreamFailuresTotal upstream)]
            else []))"

definition runCollector :: "metric_op list \<Rightarrow> QueryEvent choice list \<Rightarrow> metric_op list \<times> bool" where
  "runCollector ops cs = run_worker ProcessEvent ops cs"

subsection \<open>Counts\<close>

definition counted :: "counter \<Rightarrow> metric_op list \<Rightarrow> nat" where
  "counted c ops = length (filter (\<lambda>op. op = Inc c) ops)"

lemma counted_simps [simp]:
  "counted c [] = 0" "counted c (op # ops) = (if op = Inc c then Suc (counted c ops) else counted c ops)"
  "counted c (ops @ ops') = counted c ops + counted c ops'"
  by (simp_all add: counted_def)

definition upstream_label :: "QueryEvent \<Rightarrow> string" where
  "upstream_label ev = (if Upstream ev = '''' then ''unknown'' else Upstream ev)"

text \<open>Over a list of events, a counter that goes up by one for some of them.\<close>

lemma counted_fold:
  assumes "\<And>ops ev. counted c (ProcessEvent ops ev) = counted c ops + of_bool (P ev)"
  shows "counted c (foldl ProcessEvent ops evs) = counted c ops + length (filter P evs)"
  using assms by (induction evs arbitrary: ops) simp_all

lemma counted_ProcessEvent:
  "counted QueriesTotal (ProcessEvent ops ev) = counted QueriesTotal ops + of_bool True"
  "counted CacheHitsTotal (ProcessEvent ops ev) =
     counted CacheHitsTotal ops + of_bool (CacheHitKnown ev \<and> CacheHit ev)"
  "counted CacheMissesTotal (ProcessEvent ops ev) =
     counted CacheMissesTotal ops + of_bool (CacheHitKnown ev \<and> \<not> CacheHit ev)"
  "counted DeniedQueriesTotal (ProcessEvent ops ev) = counted DeniedQueriesTotal ops + of_bool (Denied ev)"
  "counted NXDomainTotal (ProcessEvent ops ev) =
     counted NXDomainTotal ops + of_bool (to_upper (ResponseCode ev) = ''NXDOMAIN'')"
  "counted ServfailTotal (ProcessEvent ops ev) =
     counted ServfailTotal ops + of_bool (to_upper (ResponseCode ev) = ''SERVFAIL'')"
  "counted (UpstreamQueriesTotal u) (ProcessEvent ops ev) =
     counted (UpstreamQueriesTotal u) ops + of_bool (upstream_label ev = u)"
  "counted (QueriesByType t) (ProcessEvent ops ev) =
     counted (QueriesByType t) ops + of_bool (normalizeQueryTypeLabel (QueryType ev) = t)"
  "counted (UpstreamFailuresTotal u) (ProcessEvent ops ev) =
     counted (UpstreamFailuresTotal u) ops +
       of_bool (upstream_label ev = u \<and> to_upper (ResponseCode ev) \<in> {''SERVFAIL'', ''TIMEOUT''})"
  by (simp_all add: ProcessEvent_def upstream_label_def Let_def)

lemmas counted_events = counted_ProcessEvent [THEN counted_fold]

text \<open>
  The collector loses no event and counts each once, whenever its context ends: after a run
  the totals are those of the events sent before the channel was closed, and it returns exactly
  when the channel is closed.
\<close>

theorem collector_counts_all:
  assumes "runCollector [] cs = (ops, returned)"
  shows "counted QueriesTotal ops = length (delivered cs) \<and>
    counted CacheHitsTotal ops = length (filter (\<lambda>ev. CacheHitKnown ev \<and> CacheHit ev) (delivered cs)) \<and>
    counted CacheMissesTotal ops = length (filter (\<lambda>ev. CacheHitKnown ev \<and> \<not> CacheHit ev) (delivered cs)) \<and>
    counted DeniedQueriesTotal ops = length (filter Denied (delivered cs)) \<and>
    counted (UpstreamFailuresTotal u) ops = length (filter (\<lambda>ev. upstream_label ev = u \<and>
      to_upper (ResponseCode ev) \<in> {''SERVFAIL'', ''TIMEOUT''}) (delivered cs)) \<and>
    (returned \<longleftrightarrow> Closed \<in> set cs)"
proof -
  have ops: "ops = foldl ProcessEvent [] (delivered cs)" and r: "returned \<longleftrightarrow> Closed \<in> set cs"
    using assms by (simp_all add: runCollector_def run_worker_eq)
  show ?thesis by (simp only: ops r counted_events) simp
qed

text \<open>
  The label of a query type has a bounded range, whatever the client asks for: one of the
  known types, OTHER or UNKNOWN.
\<close>

theorem query_type_label_bounded:
  "normalizeQueryTypeLabel t \<in> set (''UNKNOWN'' # ''OTHER'' # known_query_types)"
  by (simp add: normalizeQueryTypeLabel_def Let_def)

definition sample_event :: "string \<Rightarrow> QueryEvent" where
  "sample_event code = \<lparr>Timestamp = 0, SourceIP = ''10.0.0.1'', Domain = ''a.b'', QueryType = ''a'',
     ResponseCode = code, Upstream = '''', LatencyMs = 1, CacheHitKnown = True, CacheHit = False,
     Denied = False\<rparr>"

lemma collector_counts_all_witness:
  "\<exists>ops. runCollector [] [Event (sample_event ''NOERROR''), Cancelled, Event (sample_event ''servfail''), Closed]
       = (ops, True) \<and> counted QueriesTotal ops = 2 \<and> counted (UpstreamFailuresTotal ''unknown'') ops = 1"
proof -
  let ?cs = "[Event (sample_event ''NOERROR''), Cancelled, Event (sample_event ''servfail''), Closed]"
  obtain ops r where run: "runCollector [] ?cs = (ops, r)" by (cases "runCollector [] ?cs")
  have up: "to_upper ''servfail'' = ''SERVFAIL''" "to_upper ''NOERROR'' = ''NOERROR''" by code_simp+
  from collector_counts_all [OF run, of "''unknown''"] run show ?thesis
    by (auto simp: sample_event_def upstream_label_def up)
qed

end
