(* ===== verification/QueryLogger.thy ===== *)
theory QueryLogger
  imports EventLoop QueryEvents
begin

section \<open>The query logger\<close>

text \<open>
  \<open>pkg/logging/logger.go\<close>: which events are logged and with which fields.  The structured log
  is the list of records written so far.  The sample counter is a \<open>uint64\<close> and wraps.
  The conversion of the sampling period to \<open>uint64\<close> keeps the low 64 bits, which is what Go
  does for periods below \<open>2 ^ 64\<close>.
\<close>

subsection \<open>The model\<close>

definition LogModeFull :: string where "LogModeFull = ''full''"
definition LogModeSampled :: string where "LogModeSampled = ''sampled''"
definition LogModeErrorsOnly :: string where "LogModeErrorsOnly = ''errors-only''"
definition LogModeOff :: string where "LogModeOff = ''off''"

lemmas mode_defs = LogModeFull_def LogModeSampled_def LogModeErrorsOnly_def LogModeOff_def

record LoggerConfig =
  Mode :: string
  SampleRate :: f64

record log_record =
  source_ip :: string
  namespace :: string
  domain :: string
  qtype_field :: string
  rcode_field :: string
  upstream_field :: string
  latency_ms :: f64
  cache_hit_known :: bool
  cache_hit :: bool

record QueryLogger =
  logger_config :: LoggerConfig
  written :: "log_record list"
  sampleCounter :: "64 word"
  sampleEvery :: "64 word"

definition newQueryLogger :: "LoggerConfig \<Rightarrow> QueryLogger" where
  "newQueryLogger c0 =
     (let c1 = (if Mode c0 = '''' then c0\<lparr>Mode := LogModeSampled\<rparr> else c0);
          c2 = (if SampleRate c1 < 0 then c1\<lparr>SampleRate := 0\<rparr> else c1);
          c = (if SampleRate c2 > 1 then c2\<lparr>SampleRate := 1\<rparr> else c2);
          l = \<lparr>logger_config = c, written = [], sampleCounter = 0, sampleEvery = 0\<rparr>
      in if Mode c = LogModeSampled then
           (if SampleRate c \<le> 0 then l\<lparr>sampleEvery := 0\<rparr>
            else
              let every = word_of_int (f_round (fdiv 1 (SampleRate c)))
              in l\<lparr>sampleEvery := (if every = 0 then 1 else every)\<rparr>)
         else l)"

definition isErrorCode :: "string \<Rightarrow> bool" where
  "isErrorCode responseCode =
     (let code = to_upper responseCode in code = ''NXDOMAIN'' \<or> code = ''SERVFAIL'')"

definition shouldLog :: "QueryLogger \<Rightarrow> QueryEvent \<Rightarrow> bool \<times> QueryLogger" where
  "shouldLog l event =
     (let mode = Mode (logger_config l) in
      if mode = LogModeOff then (False, l)
      else if isErrorCode (ResponseCode event) then (True, l)
      else if mode = LogModeFull then (True, l)
      else if mode = LogModeErrorsOnly then (False, l)
      else if mode = LogModeSampled then
        (if sampleEvery l = 0 then (False, l)
         else if sampleEvery l = 1 then (True, l)
         else
           let counter = sampleCounter l + 1
           in (counter mod sampleEvery l = 0, l\<lparr>sampleCounter := counter\<rparr>))
      else (False, l))"

definition logEvent :: "QueryLogger \<Rightarrow> QueryEvent \<Rightarrow> QueryLogger" where
  "logEvent l event =
     (let (ok, l') = shouldLog l event in
      if \<not> ok then l'
      else l'\<lparr>written := written l' @
        [\<lparr>source_ip = SourceIP event, namespace = ''unknown'', domain = Domain event,
          qtype_field = QueryType event, rcode_field = ResponseCode event, upstream_field = Upstream event,
          latency_ms = LatencyMs event, cache_hit_known = CacheHitKnown event,
          cache_hit = CacheHit event\<rparr>]\<rparr>)"

definition runLogger :: "QueryLogger \<Rightarrow> QueryEvent choice list \<Rightarrow> QueryLogger \<times> bool" where
  "runLogger l cs = run_worker logEvent l cs"

subsection \<open>The sampling period\<close>

lemma f_round_of_rnd_ge_1:
  assumes "1 \<le> x"
  shows "1 \<le> f_round x"
  using assms by (simp add: f_round_def le_floor_iff)

lemma newQueryLogger_fields:
  "written (newQueryLogger c) = []" "sampleCounter (newQueryLogger c) = 0"
  "Mode (logger_config (newQueryLogger c)) = (if Mode c = '''' then LogModeSampled else Mode c)"
  by (simp_all add: newQueryLogger_def Let_def)

text \<open>
  The sampling period of a logger: with a rate of at most 0 no ordinary event is logged, with
  a rate of 1 or more every one is, and in between every \<open>k\<close>-th, where \<open>k\<close> is the rounded
  reciprocal of the rate; \<open>k\<close> is at least 1, so the counter is never divided by zero.
\<close>

theorem sampling_period:
  assumes "Mode c = LogModeSampled \<or> Mode c = ''''"
  shows "(SampleRate c \<le> 0 \<longrightarrow> sampleEvery (newQueryLogger c) = 0) \<and>
    (1 \<le> SampleRate c \<longrightarrow> sampleEvery (newQueryLogger c) = 1) \<and>
    (0 < SampleRate c \<longrightarrow> SampleRate c \<le> 1 \<longrightarrow> f_round (fdiv 1 (SampleRate c)) < 2 ^ 64 \<longrightarrow>
       uint (sampleEvery (newQueryLogger c)) = f_round (fdiv 1 (SampleRate c)) \<and>
       1 \<le> uint (sampleEvery (newQueryLogger c)))"
proof -
  let ?k = "f_round (fdiv 1 (SampleRate c))"
  have mode: "Mode (if Mode c = '''' then c\<lparr>Mode := LogModeSampled\<rparr> else c) = LogModeSampled"
    using assms by auto
  have low: "sampleEvery (newQueryLogger c) = 0" if "SampleRate c \<le> 0"
    using that assms by (auto simp: newQueryLogger_def Let_def)
  have one: "f_round 1 = 1" by (simp add: f_round_def floor_eq_iff)
  have high: "sampleEvery (newQueryLogger c) = 1" if "1 \<le> SampleRate c"
  proof -
    have "fdiv 1 1 = 1" by (simp add: fdiv_def)
    with that assms one show ?thesis by (auto simp: newQueryLogger_def Let_def)
  qed
  have mid: "uint (sampleEvery (newQueryLogger c)) = ?k \<and> 1 \<le> ?k"
    if r: "0 < SampleRate c" "SampleRate c \<le> 1" "?k < 2 ^ 64"
  proof -
    have "1 \<le> fdiv 1 (SampleRate c)"
      using r(1,2) rnd_ge_int [of 1 "1 / SampleRate c"] by (simp add: fdiv_def)
    then have k: "1 \<le> ?k" by (rule f_round_of_rnd_ge_1)
    have u: "uint (word_of_int ?k :: 64 word) = ?k"
      using k r(3) by (simp add: unsigned_of_int take_bit_int_eq_self)
    then have nz: "(word_of_int ?k :: 64 word) \<noteq> 0" using k by (metis not_one_le_zero unsigned_0)
    have "sampleEvery (newQueryLogger c) = word_of_int ?k"
      using r(1,2) assms nz by (auto simp: newQueryLogger_def Let_def)
    with u k show ?thesis by simp
  qed
  show ?thesis using low high mid by auto
qed

lemma sampling_period_witness:
  "sampleEvery (newQueryLogger \<lparr>Mode = ''sampled'', SampleRate = 3\<rparr>) = 1"
  using sampling_period [of "\<lparr>Mode = ''sampled'', SampleRate = 3\<rparr>"] by (simp add: mode_defs)

subsection \<open>What is logged\<close>

definition record_of :: "QueryEvent \<Rightarrow> log_record" where
  "record_of ev =
     \<lparr>source_ip = SourceIP ev, namespace = ''unknown'', domain = Domain ev, qtype_field = QueryType ev,
      rcode_field = ResponseCode ev, upstream_field = Upstream ev, latency_ms = LatencyMs ev,
      cache_hit_known = CacheHitKnown ev, cache_hit = CacheHit ev\<rparr>"

definition fixed_mode_logs :: "string \<Rightarrow> QueryEvent \<Rightarrow> bool" where
  "fixed_mode_logs mode ev \<longleftrightarrow> mode \<noteq> LogModeOff \<and> (isErrorCode (ResponseCode ev) \<or> mode = LogModeFull)"

lemma mode_distinct [simp]:
  "LogModeSampled \<noteq> LogModeOff" "LogModeSampled \<noteq> LogModeFull" "LogModeSampled \<noteq> LogModeErrorsOnly"
  "LogModeErrorsOnly \<noteq> LogModeFull" "LogModeFull \<noteq> LogModeOff"
  by (simp_all add: mode_defs)

lemma logEvent_fixed:
  "Mode (logger_config l) \<noteq> LogModeSampled \<Longrightarrow>
     logEvent l ev = (if fixed_mode_logs (Mode (logger_config l)) ev
       then l\<lparr>written := written l @ [record_of ev]\<rparr> else l)"
  by (auto simp: logEvent_def shouldLog_def fixed_mode_logs_def record_of_def Let_def)

text \<open>
  Outside sampling the log is a pure selection of the events, in order: all of them in mode
  full, the NXDOMAIN and SERVFAIL ones in errors-only and in any mode that is not known, none when
  off; a run of the worker loses none of those sent before the channel was closed.
\<close>

theorem fixed_modes_select:
  assumes "Mode (logger_config l) \<noteq> LogModeSampled" and "runLogger l cs = (l', returned)"
  shows "written l' = written l @ map record_of
    (filter (fixed_mode_logs (Mode (logger_config l))) (delivered cs))"
proof -
  have "l' = foldl logEvent l (delivered cs)" using assms(2) by (simp add: runLogger_def run_worker_eq)
  moreover have "written (foldl logEvent l evs) =
      written l @ map record_of (filter (fixed_mode_logs (Mode (logger_config l))) evs)" for evs
    using assms(1) by (induction evs arbitrary: l) (simp_all add: logEvent_fixed)
  ultimately show ?thesis by simp
qed

definition sample_logger :: "string \<Rightarrow> f64 \<Rightarrow> QueryLogger" where
  "sample_logger mode r = newQueryLogger \<lparr>Mode = mode, SampleRate = r\<rparr>"

definition sample_log_event :: "string \<Rightarrow> QueryEvent" where
  "sample_log_event code = \<lparr>Timestamp = 0, SourceIP = ''10.0.0.1'', Domain = ''a.b'', QueryType = ''A'',
     ResponseCode = code, Upstream = ''e'', LatencyMs = 1, CacheHitKnown = True, CacheHit = False,
     Denied = False\<rparr>"

lemma fixed_modes_select_witness:
  "map rcode_field (written (fst (runLogger (sample_logger ''errors-only'' 1)
     [Event (sample_log_event ''NOERROR''), Event (sample_log_event ''NXDOMAIN''), Closed]))) = [''NXDOMAIN'']"
proof -
  let ?l = "sample_logger ''errors-only'' 1"
  let ?cs = "[Event (sample_log_event ''NOERROR''), Event (sample_log_event ''NXDOMAIN''), Closed]"
  obtain l' r where run: "runLogger ?l ?cs = (l', r)" by (cases "runLogger ?l ?cs")
  have m: "Mode (logger_config ?l) = ''errors-only''" "written ?l = []"
    by (simp_all add: sample_logger_def newQueryLogger_fields)
  have e: "isErrorCode ''NXDOMAIN''" "\<not> isErrorCode ''NOERROR''" by code_simp+
  have "Mode (logger_config ?l) \<noteq> LogModeSampled" by (simp add: m mode_defs)
  from fixed_modes_select [OF this run] run show ?thesis
    by (simp add: m e fixed_mode_logs_def sample_log_event_def record_of_def mode_defs)
qed

lemma div_Suc_step: "1 < k \<Longrightarrow> Suc n div k = (if Suc n mod k = 0 then Suc (n div k) else n div k)"
  by (simp add: div_Suc)

lemma sampled_step:
  assumes "Mode (logger_config l) = LogModeSampled" and "1 < unat (sampleEvery l)"
    and "unat (sampleCounter l) + 1 < 2 ^ 64" and "\<not> isErrorCode (ResponseCode ev)"
  shows "sampleEvery (logEvent l ev) = sampleEvery l" "logger_config (logEvent l ev) = logger_config l"
    "unat (sampleCounter (logEvent l ev)) = Suc (unat (sampleCounter l))"
    "length (written (logEvent l ev)) + unat (sampleCounter l) div unat (sampleEvery l) =
      length (written l) + Suc (unat (sampleCounter l)) div unat (sampleEvery l)"
proof -
  have k: "sampleEvery l \<noteq> 0" "sampleEvery l \<noteq> 1" using assms(2) by auto
  have c: "unat (sampleCounter l + 1) = Suc (unat (sampleCounter l))"
    using assms(3) by (simp add: unat_word_ariths)
  have m: "(sampleCounter l + 1) mod sampleEvery l = 0 \<longleftrightarrow>
      Suc (unat (sampleCounter l)) mod unat (sampleEvery l) = 0"
    unfolding c [symmetric] unat_mod_distrib [symmetric] unat_0_iff ..
  note d = div_Suc_step [OF assms(2), of "unat (sampleCounter l)"]
  show "sampleEvery (logEvent l ev) = sampleEvery l" "logger_config (logEvent l ev) = logger_config l"
    "unat (sampleCounter (logEvent l ev)) = Suc (unat (sampleCounter l))"
    "length (written (logEvent l ev)) + unat (sampleCounter l) div unat (sampleEvery l) =
      length (written l) + Suc (unat (sampleCounter l)) div unat (sampleEvery l)"
    using assms(1,4) k c m d by (simp_all add: logEvent_def shouldLog_def Let_def)
qed

lemma sampled_run:
  assumes "Mode (logger_config l) = LogModeSampled" and "1 < unat (sampleEvery l)"
    and "unat (sampleCounter l) + length evs < 2 ^ 64"
    and "\<forall>ev \<in> set evs. \<not> isErrorCode (ResponseCode ev)"
  shows "length (written (foldl logEvent l evs)) + unat (sampleCounter l) div unat (sampleEvery l) =
    length (written l) + (unat (sampleCounter l) + length evs) div unat (sampleEvery l)"
  using assms
proof (induction evs arbitrary: l)
  case Nil
  then show ?case by simp
next
  case (Cons ev evs)
  then have "unat (sampleCounter l) + 1 < 2 ^ 64" and "\<not> isErrorCode (ResponseCode ev)" by simp_all
  note st = sampled_step [OF Cons.prems(1,2) this]
  have ih: "length (written (foldl logEvent (logEvent l ev) evs)) +
      unat (sampleCounter (logEvent l ev)) div unat (sampleEvery (logEvent l ev)) =
    length (written (logEvent l ev)) +
      (unat (sampleCounter (logEvent l ev)) + length evs) div unat (sampleEvery (logEvent l ev))"
    using Cons.prems st(1-3) by (intro Cons.IH) simp_all
  have len: "unat (sampleCounter l) + length (ev # evs) = Suc (unat (sampleCounter l)) + length evs"
    by simp
  show ?case
    unfolding len foldl.simps using ih st(4) unfolding st(1,3) by linarith
qed

text \<open>
  Sampling takes exactly one in \<open>k\<close>: a new sampling logger of period \<open>k > 1\<close> that is given
  \<open>n\<close> events without errors has logged \<open>n div k\<close> of them, whatever \<open>n\<close> below the wrap of the
  counter.
\<close>

theorem sampled_exactly:
  assumes "Mode c = LogModeSampled \<or> Mode c = ''''" and "sampleEvery (newQueryLogger c) = k" and "1 < unat k"
    and "length evs < 2 ^ 64" and "\<forall>ev \<in> set evs. \<not> isErrorCode (ResponseCode ev)"
  shows "length (written (foldl logEvent (newQueryLogger c) evs)) = length evs div unat k"
proof -
  have "Mode (logger_config (newQueryLogger c)) = LogModeSampled"
    using assms(1) by (auto simp: newQueryLogger_fields)
  from sampled_run [OF this, of evs] assms(2-5) show ?thesis by (simp add: newQueryLogger_fields)
qed

lemma sampled_exactly_witness:
  "length (written (foldl logEvent (sample_logger ''sampled'' (1 / 4)) (replicate 10 (sample_log_event ''NOERROR'')))) = 2"
proof -
  have "f_round 4 = 4" by (simp add: f_round_def floor_eq_iff)
  then have k: "sampleEvery (newQueryLogger \<lparr>Mode = ''sampled'', SampleRate = 1 / 4\<rparr>) = 4"
    by (simp add: newQueryLogger_def fdiv_def mode_defs)
  have e: "\<not> isErrorCode ''NOERROR''" by code_simp
  have "\<forall>ev \<in> set (replicate 10 (sample_log_event ''NOERROR'')). \<not> isErrorCode (ResponseCode ev)"
    by (simp add: e sample_log_event_def)
  from sampled_exactly [OF _ k _ _ this] show ?thesis by (simp add: sample_logger_def mode_defs)
qed

end
