(* ===== verification/LineWriter.thy ===== *)
theory LineWriter
  imports GoStrings
begin

section \<open>The log of an engine's output\<close>

text \<open>
  \<open>pkg/engine/processlog/writer.go\<close>: the output of an engine process is cut into lines, and at
  most a number of lines per window is logged; the rest is counted.  A byte is a \<open>char\<close>.  The
  clock is a function of how often it has been read; what is logged is the list \<open>log_out\<close>.
\<close>

subsection \<open>The model\<close>

definition defaultMaxLinesPerWindow :: int where "defaultMaxLinesPerWindow = 200"
definition defaultWindowDuration :: duration where "defaultWindowDuration = minute"
definition maxBufferedLineBytes :: int where "maxBufferedLineBytes = push_bit 10 8"

datatype process_log =
    Output string string string
  | Suppressing string string int duration
  | Summary string string int duration

record lineWriter =
  engineName :: string
  stream :: string
  maxLinesPerWindow :: int
  windowDuration :: duration
  line_buffer :: string
  windowStart :: time
  linesEmitted :: int
  linesSuppressed :: int
  reads :: nat
  log_out :: "process_log list"

definition newLineWriter :: "string \<Rightarrow> string \<Rightarrow> int \<Rightarrow> duration \<Rightarrow> (nat \<Rightarrow> time) \<Rightarrow> lineWriter" where
  "newLineWriter eng str n d clock =
     \<lparr>engineName = eng, stream = str,
      maxLinesPerWindow = (if n \<le> 0 then defaultMaxLinesPerWindow else n),
      windowDuration = (if d \<le> 0 then defaultWindowDuration else d),
      line_buffer = [], windowStart = clock 0, linesEmitted = 0, linesSuppressed = 0,
      reads = 1, log_out = []\<rparr>"

definition NewLineWriter :: "string \<Rightarrow> string \<Rightarrow> (nat \<Rightarrow> time) \<Rightarrow> lineWriter" where
  "NewLineWriter eng str clock =
     newLineWriter eng str defaultMaxLinesPerWindow defaultWindowDuration clock"

definition log_to :: "process_log \<Rightarrow> lineWriter \<Rightarrow> lineWriter" where
  "log_to x w = w\<lparr>log_out := log_out w @ [x]\<rparr>"

definition rotateWindowIfNeeded :: "(nat \<Rightarrow> time) \<Rightarrow> lineWriter \<Rightarrow> lineWriter" where
  "rotateWindowIfNeeded clock w0 =
     (let now = clock (reads w0); w = w0\<lparr>reads := Suc (reads w0)\<rparr> in
      if time_sub now (windowStart w) < windowDuration w then w
      else
        let w1 = (if linesSuppressed w > 0
                  then log_to (Summary (engineName w) (stream w) (linesSuppressed w) (windowDuration w)) w
                  else w)
        in w1\<lparr>windowStart := now, linesEmitted := 0, linesSuppressed := 0\<rparr>)"

definition emitLine :: "(nat \<Rightarrow> time) \<Rightarrow> string \<Rightarrow> lineWriter \<Rightarrow> lineWriter" where
  "emitLine clock line w0 =
     (if line = '''' then w0
      else
        let w = rotateWindowIfNeeded clock w0 in
        if linesEmitted w < maxLinesPerWindow w then
          log_to (Output (engineName w) (stream w) line) (w\<lparr>linesEmitted := linesEmitted w + 1\<rparr>)
        else
          let w1 = w\<lparr>linesSuppressed := linesSuppressed w + 1\<rparr> in
          if linesSuppressed w1 = 1
          then log_to (Suppressing (engineName w) (stream w) (maxLinesPerWindow w) (windowDuration w)) w1
          else w1)"

abbreviation newline :: char where "newline \<equiv> CHR 0x0A"

definition trim_right_cr :: "string \<Rightarrow> string" where
  "trim_right_cr s = rev (dropWhile (\<lambda>c. c = CHR 0x0D) (rev s))"

definition index_newline :: "string \<Rightarrow> nat option" where
  "index_newline s =
     (let n = length (takeWhile (\<lambda>c. c \<noteq> newline) s) in if n = length s then None else Some n)"

lemma index_newline_less: "index_newline s = Some n \<Longrightarrow> n < length s"
  using length_takeWhile_le [of "\<lambda>c. c \<noteq> newline" s]
  by (auto simp: index_newline_def Let_def split: if_splits)

text \<open>The loop over the lines in the buffer.\<close>

function emitLines :: "(nat \<Rightarrow> time) \<Rightarrow> lineWriter \<Rightarrow> lineWriter" where
  "emitLines clock w =
     (case index_newline (line_buffer w) of
        None \<Rightarrow> w
      | Some lineEnd \<Rightarrow>
          (let line = trim_right_cr (take lineEnd (line_buffer w)) in
           emitLines clock ((emitLine clock line w)\<lparr>line_buffer := drop (Suc lineEnd) (line_buffer w)\<rparr>)))"
  by pat_completeness auto

termination emitLines
  by (relation "measure (\<lambda>(_, w). length (line_buffer w))")
    (use index_newline_less in fastforce)+

declare emitLines.simps [simp del]

definition Write :: "(nat \<Rightarrow> time) \<Rightarrow> string \<Rightarrow> lineWriter \<Rightarrow> nat \<times> lineWriter" where
  "Write clock p w0 =
     (let w1 = rotateWindowIfNeeded clock w0;
          w2 = emitLines clock (w1\<lparr>line_buffer := line_buffer w1 @ p\<rparr>);
          w3 = (if int (length (line_buffer w2)) > maxBufferedLineBytes
                then (emitLine clock (line_buffer w2) w2)\<lparr>line_buffer := []\<rparr> else w2)
      in (length p, w3))"

definition lineWriter_string :: "lineWriter \<Rightarrow> string" where
  "lineWriter_string w =
     ''lineWriter(engine='' @ engineName w @ '', stream='' @ stream w @ '')''"

subsection \<open>Lines\<close>

text \<open>The complete lines of a text and what follows the last of them.\<close>

fun chop :: "string \<Rightarrow> string list \<times> string" where
  "chop [] = ([], [])"
| "chop (c # cs) =
     (case chop cs of (ls, rest) \<Rightarrow>
        if c = newline then ([] # ls, rest)
        else (case ls of [] \<Rightarrow> ([], c # rest) | l # ls' \<Rightarrow> ((c # l) # ls', rest)))"

lemma chop_no_newline: "newline \<notin> set s \<Longrightarrow> chop s = ([], s)"
  by (induction s) auto

lemma chop_line: "newline \<notin> set l \<Longrightarrow> chop (l @ newline # s) = (l # fst (chop s), snd (chop s))"
  by (induction l) (auto split: prod.splits)

lemma chop_rest: "newline \<notin> set (snd (chop s))"
  by (induction s) (auto split: prod.splits list.splits)

lemma chop_append:
  "chop (s @ t) = (fst (chop s) @ fst (chop (snd (chop s) @ t)), snd (chop (snd (chop s) @ t)))"
proof (induction "length s" arbitrary: s rule: less_induct)
  case less
  show ?case
  proof (cases "newline \<in> set s")
    case False
    then show ?thesis by (simp add: chop_no_newline)
  next
    case True
    then obtain l r where s: "s = l @ newline # r" and l: "newline \<notin> set l"
      using split_list_first [of newline s] by auto
    from less.hyps [of r] s show ?thesis by (simp add: chop_line [OF l])
  qed
qed

lemma index_newline_cut:
  "newline \<notin> set l \<Longrightarrow> index_newline (l @ newline # r) = Some (length l)"
  by (simp add: index_newline_def takeWhile_tail takeWhile_append takeWhile_eq_all_conv)

lemma index_newline_none:
  assumes "newline \<notin> set s"
  shows "index_newline s = None"
proof -
  have all: "takeWhile (\<lambda>c. c \<noteq> newline) s = s" using assms by (auto simp: takeWhile_eq_all_conv)
  show ?thesis unfolding index_newline_def all Let_def by simp
qed

lemma emitLines_none: "newline \<notin> set (line_buffer w) \<Longrightarrow> emitLines clock w = w"
  by (subst emitLines.simps) (simp add: index_newline_none)

lemma emitLines_cut:
  "newline \<notin> set l \<Longrightarrow> line_buffer w = l @ newline # r \<Longrightarrow>
     emitLines clock w = emitLines clock ((emitLine clock (trim_right_cr l) w)\<lparr>line_buffer := r\<rparr>)"
  by (subst emitLines.simps) (simp add: index_newline_cut)

lemma emitLine_buffer [simp]: "line_buffer (emitLine clock l w) = line_buffer w"
  by (simp add: emitLine_def rotateWindowIfNeeded_def log_to_def Let_def)

lemma emitLine_ignores_buffer:
  "emitLine clock l (w\<lparr>line_buffer := b\<rparr>) = (emitLine clock l w)\<lparr>line_buffer := b\<rparr>"
  by (simp add: emitLine_def rotateWindowIfNeeded_def log_to_def Let_def)

lemma foldl_emitLine_buffer:
  "foldl (\<lambda>w l. emitLine clock (trim_right_cr l) w) (w\<lparr>line_buffer := b\<rparr>) ls =
     (foldl (\<lambda>w l. emitLine clock (trim_right_cr l) w) w ls)\<lparr>line_buffer := b\<rparr>"
  by (induction ls arbitrary: w) (simp_all add: emitLine_ignores_buffer)

text \<open>The loop emits the complete lines in order and keeps the rest.\<close>

lemma emitLines_chop:
  "emitLines clock w =
     (foldl (\<lambda>w l. emitLine clock (trim_right_cr l) w) w (fst (chop (line_buffer w))))
       \<lparr>line_buffer := snd (chop (line_buffer w))\<rparr>"
proof (induction "length (line_buffer w)" arbitrary: w rule: less_induct)
  case less
  show ?case
  proof (cases "newline \<in> set (line_buffer w)")
    case False
    then show ?thesis by (simp add: emitLines_none chop_no_newline)
  next
    case True
    then obtain l r where b: "line_buffer w = l @ newline # r" and l: "newline \<notin> set l"
      using split_list_first [of newline "line_buffer w"] by auto
    let ?w = "(emitLine clock (trim_right_cr l) w)\<lparr>line_buffer := r\<rparr>"
    have "emitLines clock ?w =
        (foldl (\<lambda>w l. emitLine clock (trim_right_cr l) w) ?w (fst (chop r)))\<lparr>line_buffer := snd (chop r)\<rparr>"
      using less.hyps [of ?w] b by simp
    then show ?thesis
      by (simp add: emitLines_cut [OF l b] b chop_line [OF l] foldl_emitLine_buffer)
  qed
qed


subsection \<open>Bounds\<close>

definition writer_ok :: "lineWriter \<Rightarrow> bool" where
  "writer_ok w \<longleftrightarrow>
     0 < maxLinesPerWindow w \<and> 0 < windowDuration w \<and>
     0 \<le> linesEmitted w \<and> linesEmitted w \<le> maxLinesPerWindow w \<and> 0 \<le> linesSuppressed w \<and>
     (0 < linesSuppressed w \<longrightarrow> linesEmitted w = maxLinesPerWindow w)"

lemma rotate_ok: "writer_ok w \<Longrightarrow> writer_ok (rotateWindowIfNeeded clock w)"
  by (auto simp: writer_ok_def rotateWindowIfNeeded_def log_to_def Let_def)

lemma emitLine_ok: "writer_ok w \<Longrightarrow> writer_ok (emitLine clock l w)"
  using rotate_ok [of w clock] by (auto simp: emitLine_def writer_ok_def log_to_def Let_def)

lemma writer_ok_buffer [simp]: "writer_ok (w\<lparr>line_buffer := b\<rparr>) = writer_ok w"
  by (simp add: writer_ok_def)

lemma emit_all_ok:
  "writer_ok w \<Longrightarrow> writer_ok (foldl (\<lambda>w l. emitLine clock (trim_right_cr l) w) w ls)"
  by (induction ls arbitrary: w) (simp_all add: emitLine_ok)

lemma newLineWriter_ok: "writer_ok (newLineWriter eng str n d clock)"
  by (simp add: writer_ok_def newLineWriter_def defaultMaxLinesPerWindow_def
      defaultWindowDuration_def minute_def)

lemma rotate_buffer [simp]: "line_buffer (rotateWindowIfNeeded clock w) = line_buffer w"
  by (simp add: rotateWindowIfNeeded_def log_to_def Let_def)

text \<open>The state of a \<open>Write\<close> before the flush.\<close>

lemma Write_unfold:
  "snd (Write clock p w) =
     (let pending = snd (chop (line_buffer w @ p));
          w2 = (foldl (\<lambda>w l. emitLine clock (trim_right_cr l) w) (rotateWindowIfNeeded clock w)
                 (fst (chop (line_buffer w @ p))))\<lparr>line_buffer := pending\<rparr>
      in if int (length pending) > maxBufferedLineBytes
         then (emitLine clock pending w2)\<lparr>line_buffer := []\<rparr> else w2)"
  by (simp add: Write_def emitLines_chop foldl_emitLine_buffer Let_def)

text \<open>
  A line writer is bounded whatever an engine prints: after any sequence of writes, whole or
  in pieces, it holds at most 8192 bytes, no complete line among them, it has logged at most its
  maximum of lines in the current window, and each write has taken all its bytes.
\<close>

theorem writer_bounded:
  "(let w = foldl (\<lambda>w p. snd (Write clock p w)) (newLineWriter eng str n d clock) ps in
     int (length (line_buffer w)) \<le> maxBufferedLineBytes \<and> newline \<notin> set (line_buffer w) \<and>
     linesEmitted w \<le> maxLinesPerWindow w \<and> fst (Write clock p w) = length p)"
proof -
  have step: "writer_ok (snd (Write clock p w)) \<and>
      int (length (line_buffer (snd (Write clock p w)))) \<le> maxBufferedLineBytes \<and>
      newline \<notin> set (line_buffer (snd (Write clock p w)))"
    if "writer_ok w" for p w
    using that chop_rest [of "line_buffer w @ p"]
    by (simp add: Write_unfold Let_def rotate_ok emit_all_ok emitLine_ok maxBufferedLineBytes_def)
  have "writer_ok (foldl (\<lambda>w p. snd (Write clock p w)) w ps) \<and>
      int (length (line_buffer (foldl (\<lambda>w p. snd (Write clock p w)) w ps))) \<le> maxBufferedLineBytes \<and>
      newline \<notin> set (line_buffer (foldl (\<lambda>w p. snd (Write clock p w)) w ps))"
    if "writer_ok w" "int (length (line_buffer w)) \<le> maxBufferedLineBytes" "newline \<notin> set (line_buffer w)" for w
    using that by (induction ps arbitrary: w) (auto dest: step)
  from this [OF newLineWriter_ok] show ?thesis
    by (simp add: Let_def writer_ok_def newLineWriter_def maxBufferedLineBytes_def Write_def)
qed


subsection \<open>What a window shows\<close>

text \<open>The clock stays within the window of the writer.\<close>

definition within_window :: "(nat \<Rightarrow> time) \<Rightarrow> lineWriter \<Rightarrow> bool" where
  "within_window clock w \<longleftrightarrow> (\<forall>i. time_sub (clock i) (windowStart w) < windowDuration w)"

text \<open>The state of a window in which the lines \<open>ls\<close> have been met, from an empty log on.\<close>

definition window_shows :: "string list \<Rightarrow> lineWriter \<Rightarrow> bool" where
  "window_shows ls w \<longleftrightarrow>
     linesEmitted w = min (int (length ls)) (maxLinesPerWindow w) \<and>
     linesSuppressed w = max 0 (int (length ls) - maxLinesPerWindow w) \<and>
     log_out w = map (Output (engineName w) (stream w)) (take (nat (maxLinesPerWindow w)) ls) @
       (if int (length ls) > maxLinesPerWindow w
        then [Suppressing (engineName w) (stream w) (maxLinesPerWindow w) (windowDuration w)] else [])"

definition same_setup :: "lineWriter \<Rightarrow> lineWriter \<Rightarrow> bool" where
  "same_setup w w' \<longleftrightarrow>
     engineName w' = engineName w \<and> stream w' = stream w \<and>
     maxLinesPerWindow w' = maxLinesPerWindow w \<and> windowDuration w' = windowDuration w \<and>
     windowStart w' = windowStart w"

lemma rotate_within: "within_window clock w \<Longrightarrow> rotateWindowIfNeeded clock w = w\<lparr>reads := Suc (reads w)\<rparr>"
  by (simp add: rotateWindowIfNeeded_def within_window_def Let_def)

lemma window_shows_fields [simp]:
  "window_shows ls (w\<lparr>reads := i\<rparr>) = window_shows ls w"
  "window_shows ls (w\<lparr>line_buffer := b\<rparr>) = window_shows ls w"
  "within_window clock (w\<lparr>reads := i\<rparr>) = within_window clock w"
  "within_window clock (w\<lparr>line_buffer := b\<rparr>) = within_window clock w"
  "same_setup v (w\<lparr>reads := i\<rparr>) = same_setup v w"
  "same_setup v (w\<lparr>line_buffer := b\<rparr>) = same_setup v w"
  by (simp_all add: window_shows_def within_window_def same_setup_def)

lemma within_setup: "same_setup w w' \<Longrightarrow> within_window clock w' = within_window clock w"
  by (simp add: same_setup_def within_window_def)

lemma same_setup_trans: "same_setup u v \<Longrightarrow> same_setup v w \<Longrightarrow> same_setup u w"
  by (simp add: same_setup_def)

lemma emitLine_shows:
  assumes "within_window clock w" and "window_shows ls w" and "0 < maxLinesPerWindow w"
  shows "window_shows (ls @ (if l = '''' then [] else [l])) (emitLine clock l w) \<and>
    same_setup w (emitLine clock l w)"
proof (cases "l = ''''")
  case True
  with assms(2) show ?thesis by (simp add: emitLine_def same_setup_def)
next
  case l: False
  let ?w = "w\<lparr>reads := Suc (reads w)\<rparr>"
  show ?thesis
  proof (cases "int (length ls) < maxLinesPerWindow w")
    case True
    then have "linesEmitted w < maxLinesPerWindow w" and "length ls < nat (maxLinesPerWindow w)"
      using assms(2) by (simp_all add: window_shows_def)
    with l True assms(2) show ?thesis
      by (auto simp: emitLine_def rotate_within [OF assms(1)] window_shows_def same_setup_def log_to_def Let_def)
  next
    case False
    then have full: "\<not> linesEmitted w < maxLinesPerWindow w" "nat (maxLinesPerWindow w) \<le> length ls"
      and supp: "linesSuppressed w = int (length ls) - maxLinesPerWindow w"
      using assms(2,3) by (auto simp: window_shows_def)
    show ?thesis
      using l False full supp assms(2)
      by (auto simp: emitLine_def rotate_within [OF assms(1)] window_shows_def same_setup_def log_to_def Let_def)
  qed
qed

definition shown_lines :: "string list \<Rightarrow> string list" where
  "shown_lines ls = filter (\<lambda>l. l \<noteq> '''') (map trim_right_cr ls)"

lemma emit_all_shows:
  assumes "within_window clock w" and "window_shows ls w" and "0 < maxLinesPerWindow w"
  shows "window_shows (ls @ shown_lines new) (foldl (\<lambda>w l. emitLine clock (trim_right_cr l) w) w new) \<and>
    same_setup w (foldl (\<lambda>w l. emitLine clock (trim_right_cr l) w) w new)"
  using assms
proof (induction new arbitrary: ls w)
  case Nil
  then show ?case by (simp add: shown_lines_def same_setup_def)
next
  case (Cons l new)
  let ?w = "emitLine clock (trim_right_cr l) w"
  let ?ls = "ls @ (if trim_right_cr l = '''' then [] else [trim_right_cr l])"
  have st: "window_shows ?ls ?w" "same_setup w ?w"
    using emitLine_shows [OF Cons.prems] by simp_all
  have "within_window clock ?w" "0 < maxLinesPerWindow ?w"
    using Cons.prems within_setup [OF st(2), of clock] st(2) by (simp_all add: same_setup_def)
  from Cons.IH [OF this(1) st(1) this(2)] st(2) show ?case
    by (auto simp: shown_lines_def intro: same_setup_trans)
qed

lemma Write_shows:
  assumes "within_window clock w" and "window_shows (shown_lines (fst (chop t))) w"
    and "line_buffer w = snd (chop t)" and "0 < maxLinesPerWindow w"
    and "int (length (snd (chop (t @ p)))) \<le> maxBufferedLineBytes"
  shows "window_shows (shown_lines (fst (chop (t @ p)))) (snd (Write clock p w)) \<and>
    line_buffer (snd (Write clock p w)) = snd (chop (t @ p)) \<and> same_setup w (snd (Write clock p w))"
proof -
  let ?new = "fst (chop (snd (chop t) @ p))"
  have c: "fst (chop (t @ p)) = fst (chop t) @ ?new" "snd (chop (t @ p)) = snd (chop (snd (chop t) @ p))"
    by (simp_all add: chop_append [of t p])
  have r: "rotateWindowIfNeeded clock w = w\<lparr>reads := Suc (reads w)\<rparr>" by (rule rotate_within [OF assms(1)])
  have "window_shows (shown_lines (fst (chop t)) @ shown_lines ?new)
      (foldl (\<lambda>w l. emitLine clock (trim_right_cr l) w) (w\<lparr>reads := Suc (reads w)\<rparr>) ?new) \<and>
    same_setup (w\<lparr>reads := Suc (reads w)\<rparr>)
      (foldl (\<lambda>w l. emitLine clock (trim_right_cr l) w) (w\<lparr>reads := Suc (reads w)\<rparr>) ?new)"
    using assms by (intro emit_all_shows) simp_all
  then show ?thesis
    using assms(3,5) by (simp add: Write_unfold Let_def r c shown_lines_def same_setup_def)
qed

text \<open>
  C37.  Within one window, and as long as no write leaves more than \<open>maxBufferedLineBytes\<close> (8192) bytes
  of an unfinished line, which would be shown as a line of their own, the log shows what the engine printed,
  however else the output was cut into writes: the non-empty lines of the whole text in order, without trailing carriage returns, up
  to the maximum of the window, and one notice if there were more; the lines not shown are
  counted, and the unfinished last line waits in the buffer.
\<close>

theorem writes_show_lines:
  assumes "within_window clock (newLineWriter eng str n d clock)"
    and "\<forall>k \<le> length ps. int (length (snd (chop (concat (take k ps))))) \<le> maxBufferedLineBytes"
  defines "w \<equiv> foldl (\<lambda>w p. snd (Write clock p w)) (newLineWriter eng str n d clock) ps"
    and "ls \<equiv> shown_lines (fst (chop (concat ps)))"
    and "most \<equiv> (if n \<le> 0 then defaultMaxLinesPerWindow else n)"
  shows "log_out w = map (Output eng str) (take (nat most) ls) @
      (if int (length ls) > most
       then [Suppressing eng str most (if d \<le> 0 then defaultWindowDuration else d)] else []) \<and>
    linesSuppressed w = max 0 (int (length ls) - most) \<and>
    line_buffer w = snd (chop (concat ps))"
proof -
  let ?init = "newLineWriter eng str n d clock"
  have pos: "0 < maxLinesPerWindow ?init" using newLineWriter_ok [of eng str n d clock] by (simp add: writer_ok_def)
  have "window_shows (shown_lines (fst (chop (concat ps))))
      (foldl (\<lambda>w p. snd (Write clock p w)) ?init ps) \<and>
    line_buffer (foldl (\<lambda>w p. snd (Write clock p w)) ?init ps) = snd (chop (concat ps)) \<and>
    same_setup ?init (foldl (\<lambda>w p. snd (Write clock p w)) ?init ps)"
    using assms(2)
  proof (induction ps rule: rev_induct)
    case Nil
    show ?case
      using pos by (simp add: window_shows_def same_setup_def shown_lines_def newLineWriter_def)
  next
    case (snoc p ps)
    let ?w = "foldl (\<lambda>w p. snd (Write clock p w)) ?init ps"
    have "\<forall>k \<le> length ps. int (length (snd (chop (concat (take k ps))))) \<le> maxBufferedLineBytes"
    proof (intro allI impI)
      fix k assume "k \<le> length ps"
      then show "int (length (snd (chop (concat (take k ps))))) \<le> maxBufferedLineBytes"
        using snoc.prems [THEN spec [of _ k]] by simp
    qed
    from snoc.IH [OF this] have ih: "window_shows (shown_lines (fst (chop (concat ps)))) ?w"
      "line_buffer ?w = snd (chop (concat ps))" "same_setup ?init ?w" by simp_all
    have "within_window clock ?w" "0 < maxLinesPerWindow ?w"
      using within_setup [OF ih(3)] assms(1) pos ih(3) by (simp_all add: same_setup_def)
    moreover have "int (length (snd (chop (concat ps @ p)))) \<le> maxBufferedLineBytes"
      using snoc.prems [THEN spec [of _ "Suc (length ps)"]] by simp
    ultimately show ?case
      using Write_shows [of clock ?w "concat ps" p] ih same_setup_trans [OF ih(3)] by simp
  qed
  then show ?thesis
    unfolding w_def ls_def most_def
    by (simp add: window_shows_def same_setup_def newLineWriter_def)
qed

lemma writes_show_lines_witness:
  "log_out (foldl (\<lambda>w p. snd (Write (\<lambda>_. 5) p w)) (newLineWriter ''bind'' ''stderr'' 1 0 (\<lambda>_. 5))
      [''lo'', ''ad'' @ [CHR 0x0D, newline] @ ''run'' @ [newline] @ ''x''])
    = [Output ''bind'' ''stderr'' ''load'', Suppressing ''bind'' ''stderr'' 1 minute]"
proof -
  let ?ps = "[''lo'', ''ad'' @ [CHR 0x0D, newline] @ ''run'' @ [newline] @ ''x'']"
  have k: "(\<forall>k \<le> Suc (Suc 0). P k) \<longleftrightarrow> P 0 \<and> P (Suc 0) \<and> P (Suc (Suc 0))" for P :: "nat \<Rightarrow> bool"
    by (auto simp: le_Suc_eq)
  have win: "within_window (\<lambda>_. 5) (newLineWriter ''bind'' ''stderr'' 1 0 (\<lambda>_. 5))"
    by (simp add: within_window_def newLineWriter_def defaultWindowDuration_def minute_def)
  have short: "\<forall>k \<le> length ?ps. int (length (snd (chop (concat (take k ?ps))))) \<le> maxBufferedLineBytes"
    by (simp add: k maxBufferedLineBytes_def)
  have "shown_lines (fst (chop (concat ?ps))) = [''load'', ''run'']"
    by (simp add: shown_lines_def trim_right_cr_def)
  with writes_show_lines [OF win short] show ?thesis by (simp add: defaultWindowDuration_def)
qed

text \<open>
  A new window starts clean: the first write or line after the window has passed reports how
  many lines were suppressed, if any, and then counts from zero.
\<close>

theorem window_restarts:
  assumes "windowDuration w \<le> time_sub (clock (reads w)) (windowStart w)"
  shows "let w' = rotateWindowIfNeeded clock w in
    windowStart w' = clock (reads w) \<and> linesEmitted w' = 0 \<and> linesSuppressed w' = 0 \<and>
    log_out w' = log_out w @ (if 0 < linesSuppressed w
      then [Summary (engineName w) (stream w) (linesSuppressed w) (windowDuration w)] else [])"
  using assms by (simp add: rotateWindowIfNeeded_def log_to_def Let_def)

lemma window_restarts_witness:
  "log_out (rotateWindowIfNeeded (\<lambda>i. int i * minute)
     (newLineWriter ''bind'' ''stdout'' 5 minute (\<lambda>i. int i * minute)\<lparr>linesSuppressed := 3\<rparr>))
    = [Summary ''bind'' ''stdout'' 3 minute]"
  using window_restarts [of "newLineWriter ''bind'' ''stdout'' 5 minute (\<lambda>i. int i * minute)\<lparr>linesSuppressed := 3\<rparr>"
      "\<lambda>i. int i * minute"]
  by (simp add: newLineWriter_def minute_def time_sub_def min_int64_def max_int64_def Let_def)

end
