(* ===== verification/EngineTypes.thy ===== *)
theory EngineTypes
  imports GoStrings
begin

section \<open>Values of the engine types package\<close>

text \<open>
  The transports of an upstream (\<open>engine.UpstreamTransport\<close>, a string type of the
  \<open>astradns-types\<close> package); their spelling is the one that the error text of
  \<open>validateEngineConfig\<close> in \<open>cmd/agent/main.go\<close> and the agent's tests use.
\<close>

definition UpstreamTransportDNS :: string where "UpstreamTransportDNS = ''dns''"
definition UpstreamTransportDoT :: string where "UpstreamTransportDoT = ''dot''"
definition UpstreamTransportDoH :: string where "UpstreamTransportDoH = ''doh''"

lemmas transport_defs = UpstreamTransportDNS_def UpstreamTransportDoT_def UpstreamTransportDoH_def

end
