(* ===== verification/GoErrors.thy ===== *)
theory GoErrors
  imports Prelude
begin

section \<open>Errors and what they wrap\<close>

text \<open>
  The errors of Go's standard library that the agent tells apart, as chains of wrapped errors:
  \<open>net.ErrClosed\<close>, \<open>context.DeadlineExceeded\<close>, \<open>context.Canceled\<close>, \<open>http.ErrServerClosed\<close>, a
  \<open>net.Error\<close> with its \<open>Timeout\<close>, a \<open>*net.OpError\<close> (itself a \<open>net.Error\<close>, whose \<open>Timeout\<close> asks the
  error it holds), an error made by \<open>fmt.Errorf\<close> with \<open>%w\<close>, and any other.  \<open>errors.Is\<close> and
  \<open>errors.As\<close> walk the chain.  On them rest \<open>isShutdownErr\<close> of \<open>pkg/proxy/proxy.go\<close> and
  \<open>isTimeoutErr\<close> of \<open>pkg/health/checker.go\<close>.
\<close>

subsection \<open>The model\<close>

datatype go_error =
    ErrClosed
  | DeadlineExceeded
  | Canceled
  | ErrServerClosed
  | NetError string bool
  | OpError "go_error option"
  | Wrapped string go_error
  | OtherError string

text \<open>\<open>errors.Is\<close> for an error that is compared as a whole.\<close>

fun error_is :: "go_error \<Rightarrow> go_error \<Rightarrow> bool" where
  "error_is (OpError eo) target \<longleftrightarrow>
     OpError eo = target \<or> (case eo of None \<Rightarrow> False | Some e \<Rightarrow> error_is e target)"
| "error_is (Wrapped m e) target \<longleftrightarrow> Wrapped m e = target \<or> error_is e target"
| "error_is e target \<longleftrightarrow> e = target"

text \<open>\<open>errors.As\<close> for a \<open>*net.OpError\<close>: the error it holds.\<close>

fun as_OpError :: "go_error \<Rightarrow> go_error option option" where
  "as_OpError (OpError eo) = Some eo"
| "as_OpError (Wrapped _ e) = as_OpError e"
| "as_OpError _ = None"

text \<open>\<open>Timeout\<close>, where an error has it.\<close>

fun timeout_method :: "go_error \<Rightarrow> bool option" where
  "timeout_method ErrClosed = Some False"
| "timeout_method DeadlineExceeded = Some True"
| "timeout_method (NetError _ t) = Some t"
| "timeout_method (OpError eo) =
     Some (case eo of None \<Rightarrow> False | Some e \<Rightarrow> (case timeout_method e of None \<Rightarrow> False | Some t \<Rightarrow> t))"
| "timeout_method Canceled = None"
| "timeout_method ErrServerClosed = None"
| "timeout_method (Wrapped _ _) = None"
| "timeout_method (OtherError _) = None"

text \<open>\<open>errors.As\<close> for a \<open>net.Error\<close>: its \<open>Timeout\<close>.\<close>

fun as_NetError :: "go_error \<Rightarrow> bool option" where
  "as_NetError (Wrapped _ e) = as_NetError e"
| "as_NetError e = timeout_method e"

definition isShutdownErr :: "go_error option \<Rightarrow> bool" where
  "isShutdownErr err =
     (case err of
        None \<Rightarrow> False
      | Some e \<Rightarrow>
          if error_is e ErrClosed then True
          else (case as_OpError e of
                  None \<Rightarrow> False
                | Some inner \<Rightarrow> (case inner of None \<Rightarrow> False | Some e' \<Rightarrow> error_is e' ErrClosed)))"

definition isTimeoutErr :: "go_error option \<Rightarrow> bool" where
  "isTimeoutErr err =
     (case err of
        None \<Rightarrow> False
      | Some e \<Rightarrow>
          if error_is e DeadlineExceeded then True
          else (case as_NetError e of None \<Rightarrow> False | Some t \<Rightarrow> t))"

subsection \<open>What the tests recognise\<close>

text \<open>The second test of \<open>isShutdownErr\<close> adds nothing: \<open>errors.Is\<close> looks through an \<open>OpError\<close>.\<close>

lemma as_OpError_is: "as_OpError e = Some (Some e') \<Longrightarrow> error_is e' target \<Longrightarrow> error_is e target"
  by (induction e rule: as_OpError.induct) auto

lemma isShutdownErr_Some [simp]: "isShutdownErr (Some e) \<longleftrightarrow> error_is e ErrClosed"
  using as_OpError_is [of e _ ErrClosed] by (auto simp: isShutdownErr_def split: option.split)

lemma isShutdownErr_None [simp]: "\<not> isShutdownErr None"
  by (simp add: isShutdownErr_def)

text \<open>A closed listener is a shutdown however it is wrapped, and never a timeout.\<close>

definition wrapped_all :: "string list \<Rightarrow> go_error \<Rightarrow> go_error" where
  "wrapped_all ms e = foldr Wrapped ms e"

lemma error_is_wrapped: "error_is e target \<Longrightarrow> error_is (wrapped_all ms e) target"
  by (induction ms) (auto simp: wrapped_all_def)

lemma as_NetError_wrapped: "as_NetError (wrapped_all ms e) = as_NetError e"
  by (induction ms) (simp_all add: wrapped_all_def)

lemma deadline_wrapped: "error_is (wrapped_all ms e) DeadlineExceeded \<longleftrightarrow> error_is e DeadlineExceeded"
  by (induction ms) (simp_all add: wrapped_all_def)

text \<open>
  Wrapping does not change how an error is classified: however often \<open>%w\<close> wraps it, a timeout of
  the network or of the context stays a timeout, and a closed listener, bare or in an \<open>OpError\<close>,
  stays a shutdown and is never taken for a timeout.
\<close>

theorem classification_survives_wrapping:
  "isTimeoutErr (Some (wrapped_all ms e)) = isTimeoutErr (Some e) \<and>
   isShutdownErr (Some (wrapped_all ms ErrClosed)) \<and> isShutdownErr (Some (wrapped_all ms (OpError (Some ErrClosed)))) \<and>
   \<not> isTimeoutErr (Some (wrapped_all ms (OpError (Some ErrClosed)))) \<and>
   isTimeoutErr (Some (wrapped_all ms (OpError (Some DeadlineExceeded))))"
  using error_is_wrapped [of ErrClosed ErrClosed ms] error_is_wrapped [of "OpError (Some ErrClosed)" ErrClosed ms]
  by (simp add: isTimeoutErr_def deadline_wrapped as_NetError_wrapped)

end
