(* ===== verification/Health.thy ===== *)
theory Health
  imports Metrics DnsMsg EngineTypes GoNet GoErrors
begin

section \<open>The health checker\<close>

text \<open>
  \<open>pkg/health/checker.go\<close>: the upstreams the agent probes, the consecutive failures of each and
  whether it counts as healthy.  What a probe returns is the DNS library's and the network's
  (\<open>exchangeContext\<close>), as is \<open>dns.Fqdn\<close>; whether the context has ended is asked at given points
  of a check (\<open>cancelled\<close>).  The operations on the metrics are collected in \<open>metric_ops\<close>.
  Failure counts are unbounded integers.
\<close>

subsection \<open>The model\<close>

record UpstreamTarget =
  Address :: string
  Port :: int
  Transport :: string
  TLSServerName :: string

record CheckerConfig =
  Upstreams :: "UpstreamTarget list"
  IntervalSeconds :: int
  TimeoutSeconds :: int
  FailureThreshold :: int
  ProbeDomain :: string
  ProbeType :: "16 word"

record Checker =
  checker_config :: CheckerConfig
  with_metrics :: bool
  failureCounts :: "(string, int) go_map"
  healthy :: "(string, bool) go_map"
  metric_ops :: "metric_op list"

definition normalizeUpstreamTransport :: "string \<Rightarrow> string" where
  "normalizeUpstreamTransport transport =
     (let trimmed = to_lower (trim_space transport) in
      if trimmed = UpstreamTransportDoT then UpstreamTransportDoT
      else if trimmed = UpstreamTransportDoH then UpstreamTransportDoH
      else UpstreamTransportDNS)"

definition defaultPortForTransport :: "string \<Rightarrow> int" where
  "defaultPortForTransport transport =
     (if transport = UpstreamTransportDoT then 853
      else if transport = UpstreamTransportDoH then 443
      else 53)"

definition upstreamLabel :: "UpstreamTarget \<Rightarrow> string" where
  "upstreamLabel u =
     (let transport = normalizeUpstreamTransport (Transport u);
          port = (if Port u = 0 then defaultPortForTransport transport else Port u);
          endpoint = joinHostPort (Address u) (itoa port)
      in if transport = UpstreamTransportDNS then endpoint else transport @ ''://'' @ endpoint)"

definition observe :: "metric_op \<Rightarrow> Checker \<Rightarrow> Checker" where
  "observe op c = (if with_metrics c then c\<lparr>metric_ops := metric_ops c @ [op]\<rparr> else c)"

definition set_unhealthy :: "string \<Rightarrow> Checker \<Rightarrow> Checker" where
  "set_unhealthy label c =
     observe (SetUpstreamHealthy label 0) (c\<lparr>healthy := map_put label False (healthy c)\<rparr>)"

definition checker_defaults :: "CheckerConfig \<Rightarrow> CheckerConfig" where
  "checker_defaults cfg = cfg\<lparr>
     IntervalSeconds := (if IntervalSeconds cfg \<le> 0 then 10 else IntervalSeconds cfg),
     TimeoutSeconds := (if TimeoutSeconds cfg \<le> 0 then 2 else TimeoutSeconds cfg),
     FailureThreshold := (if FailureThreshold cfg \<le> 0 then 3 else FailureThreshold cfg),
     ProbeDomain := (if trim_space (ProbeDomain cfg) = '''' then ''.'' else ProbeDomain cfg),
     ProbeType := (if ProbeType cfg = 0 then TypeNS else ProbeType cfg)\<rparr>"

definition NewChecker :: "CheckerConfig \<Rightarrow> bool \<Rightarrow> Checker" where
  "NewChecker cfg metrics =
     (let c0 = \<lparr>checker_config = checker_defaults cfg, with_metrics = metrics, failureCounts = [],
            healthy = [], metric_ops = []\<rparr>
      in foldl (\<lambda>c u. set_unhealthy
            (upstreamLabel (u\<lparr>Transport := normalizeUpstreamTransport (Transport u)\<rparr>)) c)
          c0 (Upstreams cfg))"

definition normalize_target :: "UpstreamTarget \<Rightarrow> UpstreamTarget" where
  "normalize_target u0 =
     (let u1 = u0\<lparr>Transport := normalizeUpstreamTransport (Transport u0)\<rparr>;
          u2 = (if Port u1 = 0 then u1\<lparr>Port := defaultPortForTransport (Transport u1)\<rparr> else u1)
      in if Transport u2 = UpstreamTransportDNS then u2\<lparr>TLSServerName := ''''\<rparr> else u2)"

text \<open>The loop that normalizes the targets and drops those whose label was met before.\<close>

fun distinct_targets :: "string list \<Rightarrow> UpstreamTarget list \<Rightarrow> UpstreamTarget list" where
  "distinct_targets labels [] = []"
| "distinct_targets labels (u0 # us) =
     (let u = normalize_target u0; label = upstreamLabel u in
      if label \<in> set labels then distinct_targets labels us
      else u # distinct_targets (label # labels) us)"

definition forget :: "string list \<Rightarrow> Checker \<Rightarrow> string \<Rightarrow> Checker" where
  "forget labels c label =
     (if label \<in> set labels then c
      else observe (SetUpstreamHealthy label 0) (c\<lparr>healthy := map_del label (healthy c)\<rparr>))"

definition introduce :: "Checker \<Rightarrow> UpstreamTarget \<Rightarrow> Checker" where
  "introduce c u =
     (let label = upstreamLabel u;
          c1 = (if map_get (failureCounts c) label = None
                then c\<lparr>failureCounts := map_put label 0 (failureCounts c)\<rparr> else c)
      in if map_get (healthy c1) label = None then set_unhealthy label c1 else c1)"

definition UpdateUpstreams :: "(string \<Rightarrow> nat) \<Rightarrow> UpstreamTarget list \<Rightarrow> Checker \<Rightarrow> Checker" where
  "UpdateUpstreams rank upstreams c =
     (let normalized = distinct_targets [] upstreams;
          labels = map upstreamLabel normalized;
          c1 = c\<lparr>checker_config := (checker_config c)\<lparr>Upstreams := normalized\<rparr>,
                 failureCounts := map_keep (\<lambda>label _. label \<in> set labels) (failureCounts c)\<rparr>;
          c2 = foldl (forget labels) c1 (map_range rank (healthy c1))
      in foldl introduce c2 normalized)"

definition HasHealthyUpstream :: "Checker \<Rightarrow> bool" where
  "HasHealthyUpstream c = list_ex (\<lambda>(_, ok). ok) (healthy c)"

definition failure_count :: "Checker \<Rightarrow> string \<Rightarrow> int" where
  "failure_count c label = (case map_get (failureCounts c) label of None \<Rightarrow> 0 | Some n \<Rightarrow> n)"

definition recordFailure :: "string \<Rightarrow> bool \<Rightarrow> Checker \<Rightarrow> Checker" where
  "recordFailure label timedOut c =
     (let c1 = c\<lparr>failureCounts := map_put label (failure_count c label + 1) (failureCounts c)\<rparr>;
          c2 = observe (Inc (UpstreamFailuresTotal label)) c1;
          c3 = (if timedOut then observe (Inc (TimeoutTotal label)) c2 else c2)
      in if failure_count c3 label \<ge> FailureThreshold (checker_config c3) then set_unhealthy label c3
         else c3)"

definition recordHealthy :: "string \<Rightarrow> duration \<Rightarrow> Checker \<Rightarrow> Checker" where
  "recordHealthy label latency c =
     (let c1 = c\<lparr>failureCounts := map_put label 0 (failureCounts c), healthy := map_put label True (healthy c)\<rparr>
      in observe (ObserveLatency label (duration_seconds latency))
           (observe (SetUpstreamHealthy label 1) c1))"

subsection \<open>Probes\<close>

record probe_result =
  response :: "dns_msg option"
  rtt :: duration
  probe_err :: "go_error option"

record probe_env =
  exchangeContext :: "string \<Rightarrow> duration \<Rightarrow> string \<Rightarrow> string \<Rightarrow> 16 word \<Rightarrow> string \<Rightarrow> probe_result"
  Fqdn :: "string \<Rightarrow> string"
  cancelled :: "string \<Rightarrow> nat \<Rightarrow> bool"

text \<open>
  An answer with SERVFAIL or REFUSED is turned into an error, which is no timeout.
\<close>

definition judge_response :: "probe_result \<Rightarrow> probe_result" where
  "judge_response r =
     (if probe_err r \<noteq> None then r
      else case response r of
             None \<Rightarrow> r
           | Some m \<Rightarrow>
               if rcode m = RcodeServerFailure \<or> rcode m = RcodeRefused then 
                 r\<lparr>probe_err := Some (OtherError (''probe rcode '' @
                   (if rcode m = RcodeServerFailure then ''SERVFAIL'' else ''REFUSED'')))\<rparr>
               else r)"

definition probe_timeout :: "Checker \<Rightarrow> duration" where
  "probe_timeout c = wrap64 (TimeoutSeconds (checker_config c) * second)"

definition probeUpstream :: "probe_env \<Rightarrow> Checker \<Rightarrow> string \<Rightarrow> string \<Rightarrow> probe_result" where
  "probeUpstream e c upstream network =
     judge_response (exchangeContext e network (probe_timeout c) ''''
       (Fqdn e (ProbeDomain (checker_config c))) (ProbeType (checker_config c)) upstream)"

definition tls_server_name :: "string \<Rightarrow> string \<Rightarrow> string" where
  "tls_server_name upstream tlsServerName =
     (if trim_space tlsServerName \<noteq> '''' then trim_space tlsServerName
      else case splitHostPort upstream of
             None \<Rightarrow> ''''
           | Some (host, _) \<Rightarrow> if \<not> parseAddr host then host else '''')"

definition probeUpstreamTLS :: "probe_env \<Rightarrow> Checker \<Rightarrow> string \<Rightarrow> string \<Rightarrow> probe_result" where
  "probeUpstreamTLS e c upstream tlsServerName =
     judge_response (exchangeContext e ''tcp-tls'' (probe_timeout c) (tls_server_name upstream tlsServerName)
       (Fqdn e (ProbeDomain (checker_config c))) (ProbeType (checker_config c)) upstream)"

definition probe_ok :: "probe_result \<Rightarrow> bool" where
  "probe_ok r \<longleftrightarrow> probe_err r = None \<and> response r \<noteq> None"

definition timed_out :: "probe_result \<Rightarrow> bool" where
  "timed_out r \<longleftrightarrow> isTimeoutErr (probe_err r)"

definition effective_target :: "UpstreamTarget \<Rightarrow> UpstreamTarget" where
  "effective_target u0 =
     (let u = u0\<lparr>Transport := normalizeUpstreamTransport (Transport u0)\<rparr>
      in if Port u = 0 then u\<lparr>Port := defaultPortForTransport (Transport u)\<rparr> else u)"

definition checkUpstream :: "probe_env \<Rightarrow> UpstreamTarget \<Rightarrow> Checker \<Rightarrow> Checker" where
  "checkUpstream e u0 c =
     (let u = effective_target u0;
          label = upstreamLabel u;
          endpoint = joinHostPort (Address u) (itoa (Port u))
      in if Transport u = UpstreamTransportDoH then recordHealthy label 0 c
         else if Transport u = UpstreamTransportDoT then
           (let r = probeUpstreamTLS e c endpoint (TLSServerName u) in
            if probe_ok r then recordHealthy label (rtt r) c
            else if cancelled e label 1 then c
            else recordFailure label (timed_out r) c)
         else
           (let r = probeUpstream e c endpoint ''udp'' in
            if probe_ok r then recordHealthy label (rtt r) c
            else if cancelled e label 1 then c
            else
              (let r2 = probeUpstream e c endpoint ''tcp'' in
               if probe_ok r2 then recordHealthy label (rtt r2) c
               else if cancelled e label 2 then c
               else recordFailure label (timed_out r \<and> timed_out r2) c)))"

fun check_targets :: "probe_env \<Rightarrow> UpstreamTarget list \<Rightarrow> Checker \<Rightarrow> Checker" where
  "check_targets e [] c = c"
| "check_targets e (u # us) c =
     (if cancelled e (upstreamLabel u) 0 then c else check_targets e us (checkUpstream e u c))"

definition checkAll :: "probe_env \<Rightarrow> Checker \<Rightarrow> Checker" where
  "checkAll e c = check_targets e (Upstreams (checker_config c)) c"

text \<open>The first pass and one for each tick until the context ends.\<close>

definition runChecker :: "probe_env list \<Rightarrow> Checker \<Rightarrow> Checker" where
  "runChecker passes c = foldl (\<lambda>c e. checkAll e c) c passes"

subsection \<open>The contract of a threshold monitor\<close>

text \<open>
  Each key counts the failures since its last success; a success brings it up, and it goes down
  when the count reaches the limit.
\<close>

definition recent_misses :: "'k \<Rightarrow> ('k \<times> ('x + 'y)) list \<Rightarrow> int" where
  "recent_misses k tr = int (length (takeWhile (\<lambda>r. isl (snd r)) (rev (filter (\<lambda>r. fst r = k) tr))))"

definition succeeded :: "'k \<Rightarrow> ('k \<times> ('x + 'y)) list \<Rightarrow> bool" where
  "succeeded k tr \<longleftrightarrow> list_ex (\<lambda>r. fst r = k \<and> \<not> isl (snd r)) tr"

lemma recent_misses_snoc:
  "recent_misses k (tr @ [(k', x)]) =
     (if k' = k then if isl x then recent_misses k tr + 1 else 0 else recent_misses k tr)"
  by (simp add: recent_misses_def)

lemma succeeded_snoc: "succeeded k (tr @ [(k', x)]) \<longleftrightarrow> succeeded k tr \<or> k' = k \<and> \<not> isl x"
  by (auto simp: succeeded_def)

locale threshold_monitor =
  fixes fail :: "'x \<Rightarrow> 'k \<Rightarrow> 's \<Rightarrow> 's"
    and succeed :: "'y \<Rightarrow> 'k \<Rightarrow> 's \<Rightarrow> 's"
    and up :: "'s \<Rightarrow> 'k \<Rightarrow> bool"
    and misses :: "'s \<Rightarrow> 'k \<Rightarrow> int"
    and limit :: "'s \<Rightarrow> int"
  assumes fail_misses: "misses (fail x k s) k' = (if k' = k then misses s k + 1 else misses s k')"
    and succeed_misses: "misses (succeed y k s) k' = (if k' = k then 0 else misses s k')"
    and fail_up: "up (fail x k s) k' = (if k' = k then up s k \<and> misses s k + 1 < limit s else up s k')"
    and succeed_up: "up (succeed y k s) k' \<longleftrightarrow> k' = k \<or> up s k'"
    and fail_limit: "limit (fail x k s) = limit s"
    and succeed_limit: "limit (succeed y k s) = limit s"
begin

definition report :: "'s \<Rightarrow> 'k \<times> ('x + 'y) \<Rightarrow> 's" where
  "report s r = (case snd r of Inl x \<Rightarrow> fail x (fst r) s | Inr y \<Rightarrow> succeed y (fst r) s)"

lemma up_after_reports:
  assumes "\<not> up s k" and "misses s k = 0" and "0 < limit s"
  shows "up (foldl report s tr) k \<longleftrightarrow> succeeded k tr \<and> recent_misses k tr < limit s"
proof -
  have "misses (foldl report s tr) k = recent_misses k tr \<and> limit (foldl report s tr) = limit s \<and>
      (up (foldl report s tr) k \<longleftrightarrow> succeeded k tr \<and> recent_misses k tr < limit s)"
  proof (induction tr rule: rev_induct)
    case Nil
    with assms show ?case by (simp add: recent_misses_def succeeded_def)
  next
    case (snoc r tr)
    obtain k' x where r: "r = (k', x)" by (cases r)
    show ?case
      using snoc.IH assms(3)
      by (cases x) (auto simp: r report_def recent_misses_snoc succeeded_snoc fail_misses succeed_misses
          fail_up succeed_up fail_limit succeed_limit)
  qed
  then show ?thesis by simp
qed

end

lemma observe_fields [simp]:
  "checker_config (observe op c) = checker_config c" "with_metrics (observe op c) = with_metrics c"
  "failureCounts (observe op c) = failureCounts c" "healthy (observe op c) = healthy c"
  by (simp_all add: observe_def)

lemma set_unhealthy_fields [simp]:
  "checker_config (set_unhealthy l c) = checker_config c" "with_metrics (set_unhealthy l c) = with_metrics c"
  "failureCounts (set_unhealthy l c) = failureCounts c"
  "healthy (set_unhealthy l c) = map_put l False (healthy c)"
  by (simp_all add: set_unhealthy_def)

lemma failure_count_put [simp]:
  "failure_count (c\<lparr>failureCounts := map_put k n (failureCounts c)\<rparr>) l = (if l = k then n else failure_count c l)"
  by (simp add: failure_count_def go_map_simps)

lemma failure_count_observe [simp]:
  "failure_count (observe op c) l = failure_count c l"
  "failure_count (set_unhealthy k c) l = failure_count c l"
  "failure_count (c\<lparr>healthy := h\<rparr>) l = failure_count c l"
  by (simp_all add: failure_count_def)

definition is_up :: "Checker \<Rightarrow> string \<Rightarrow> bool" where
  "is_up c label \<longleftrightarrow> map_get (healthy c) label = Some True"

definition threshold :: "Checker \<Rightarrow> int" where
  "threshold c = FailureThreshold (checker_config c)"

lemma recordHealthy_fields [simp]:
  "checker_config (recordHealthy l d c) = checker_config c"
  "failureCounts (recordHealthy l d c) = map_put l 0 (failureCounts c)"
  "healthy (recordHealthy l d c) = map_put l True (healthy c)"
  by (simp_all add: recordHealthy_def Let_def)

lemma recordFailure_fields [simp]:
  "checker_config (recordFailure l t c) = checker_config c"
  "failureCounts (recordFailure l t c) = map_put l (failure_count c l + 1) (failureCounts c)"
  "healthy (recordFailure l t c) =
     (if threshold c \<le> failure_count c l + 1 then map_put l False (healthy c) else healthy c)"
  by (simp_all add: recordFailure_def threshold_def Let_def)

interpretation monitor: threshold_monitor "\<lambda>t l c. recordFailure l t c" "\<lambda>d l c. recordHealthy l d c"
  is_up failure_count threshold
  by unfold_locales (auto simp: is_up_def failure_count_def threshold_def go_map_simps)

subsection \<open>Reports of probes\<close>

text \<open>A failed probe (timed out or not) or a latency, for a label.\<close>

definition recordProbe :: "Checker \<Rightarrow> string \<times> (bool + duration) \<Rightarrow> Checker" where
  "recordProbe c r =
     (case snd r of Inl t \<Rightarrow> recordFailure (fst r) t c | Inr d \<Rightarrow> recordHealthy (fst r) d c)"

lemma recordProbe_report: "recordProbe = monitor.report"
  by (simp add: fun_eq_iff recordProbe_def monitor.report_def)

lemma NewChecker_start:
  "\<not> is_up (NewChecker cfg m) label \<and> failure_count (NewChecker cfg m) label = 0 \<and>
   checker_config (NewChecker cfg m) = checker_defaults cfg"
proof -
  have "\<not> is_up (foldl (\<lambda>c u. set_unhealthy (f u) c) c us) label \<and>
      failure_count (foldl (\<lambda>c u. set_unhealthy (f u) c) c us) label = failure_count c label \<and>
      checker_config (foldl (\<lambda>c u. set_unhealthy (f u) c) c us) = checker_config c"
    if "\<not> is_up c label" for c us and f :: "UpstreamTarget \<Rightarrow> string"
    using that
    by (induction us arbitrary: c) (simp_all add: is_up_def go_map_simps)
  then show ?thesis by (simp add: NewChecker_def is_up_def failure_count_def)
qed

lemma threshold_pos: "0 < FailureThreshold (checker_defaults cfg)"
  by (simp add: checker_defaults_def)

lemma upstreamLabel_normalized [simp]:
  "normalizeUpstreamTransport (normalizeUpstreamTransport t) = normalizeUpstreamTransport t"
  by (simp add: normalizeUpstreamTransport_def transport_defs Let_def)
    (auto simp: to_lower_def lower_char_def trim_space_def trim_left_def space_char_def byte_def)

lemma normalize_constants [simp]:
  "normalizeUpstreamTransport UpstreamTransportDNS = UpstreamTransportDNS"
  "normalizeUpstreamTransport UpstreamTransportDoT = UpstreamTransportDoT"
  "normalizeUpstreamTransport UpstreamTransportDoH = UpstreamTransportDoH"
  by code_simp+

lemma effective_target_label: "upstreamLabel (effective_target u) = upstreamLabel u"
  by (cases "Port u = 0")
    (simp_all add: effective_target_def upstreamLabel_def Let_def defaultPortForTransport_def)

lemma normalize_target_label: "upstreamLabel (normalize_target u) = upstreamLabel u"
proof -
  have "upstreamLabel (normalize_target u) = upstreamLabel (effective_target u)"
    by (simp add: normalize_target_def effective_target_def upstreamLabel_def Let_def)
  then show ?thesis by (simp only: effective_target_label)
qed

lemma record_probes:
  "recordHealthy label d c = recordProbe c (label, Inr d)"
  "recordFailure label t c = recordProbe c (label, Inl t)"
  by (simp_all add: recordProbe_def)

lemma checkUpstream_reports:
  "checkUpstream e u c = c \<or> (\<exists>x. checkUpstream e u c = recordProbe c (upstreamLabel u, x))"
proof -
  have "checkUpstream e u c = c \<or> (\<exists>x. checkUpstream e u c = recordProbe c (upstreamLabel (effective_target u), x))"
    unfolding checkUpstream_def Let_def record_probes by (simp split: if_split) blast
  then show ?thesis by (simp only: effective_target_label)
qed

text \<open>The reports a pass over some targets makes, all of them for labels of these targets.\<close>

lemma check_targets_reports:
  "\<exists>tr. check_targets e us c = foldl recordProbe c tr \<and> fst ` set tr \<subseteq> upstreamLabel ` set us"
proof (induction us arbitrary: c)
  case Nil
  show ?case by (rule exI [of _ "[]"]) simp
next
  case (Cons u us)
  show ?case
  proof (cases "cancelled e (upstreamLabel u) 0")
    case True
    then show ?thesis by (intro exI [of _ "[]"]) simp
  next
    case False
    obtain pre where pre: "checkUpstream e u c = foldl recordProbe c pre" "fst ` set pre \<subseteq> {upstreamLabel u}"
    proof (cases "checkUpstream e u c = c")
      case True
      then show ?thesis by (intro that [of "[]"]) simp_all
    next
      case False
      then obtain x where "checkUpstream e u c = recordProbe c (upstreamLabel u, x)"
        using checkUpstream_reports by blast
      then show ?thesis by (intro that [of "[(upstreamLabel u, x)]"]) simp_all
    qed
    obtain tr where "check_targets e us (checkUpstream e u c) = foldl recordProbe (checkUpstream e u c) tr"
      "fst ` set tr \<subseteq> upstreamLabel ` set us"
      using Cons.IH by blast
    with False pre show ?thesis by (intro exI [of _ "pre @ tr"]) auto
  qed
qed

lemma recordProbe_config [simp]: "checker_config (recordProbe c r) = checker_config c"
  by (simp add: recordProbe_def split: sum.split)

lemma foldl_recordProbe_config [simp]: "checker_config (foldl recordProbe c tr) = checker_config c"
  by (induction tr arbitrary: c) simp_all

lemma runChecker_reports:
  "\<exists>tr. runChecker passes c = foldl recordProbe c tr \<and>
     fst ` set tr \<subseteq> upstreamLabel ` set (Upstreams (checker_config c))"
proof (induction passes rule: rev_induct)
  case Nil
  show ?case by (rule exI [of _ "[]"]) (simp add: runChecker_def)
next
  case (snoc e passes)
  then obtain tr where tr: "runChecker passes c = foldl recordProbe c tr"
    "fst ` set tr \<subseteq> upstreamLabel ` set (Upstreams (checker_config c))" by blast
  have cfg: "checker_config (runChecker passes c) = checker_config c" by (simp add: tr(1))
  obtain more where "checkAll e (runChecker passes c) = foldl recordProbe (runChecker passes c) more"
    "fst ` set more \<subseteq> upstreamLabel ` set (Upstreams (checker_config c))"
    using check_targets_reports [of e "Upstreams (checker_config c)" "runChecker passes c"]
    unfolding checkAll_def cfg by blast
  with tr show ?case by (intro exI [of _ "tr @ more"]) (auto simp: runChecker_def)
qed

subsection \<open>Health\<close>

text \<open>
  C35.  An upstream is healthy exactly when a probe of it has succeeded and fewer probes than the
  threshold have failed since: for a new checker and any sequence of probe results, in any
  interleaving of the upstreams.
\<close>

theorem health_by_threshold:
  "is_up (foldl recordProbe (NewChecker cfg m) tr) label \<longleftrightarrow>
     succeeded label tr \<and> recent_misses label tr < FailureThreshold (checker_defaults cfg)"
  using monitor.up_after_reports [of "NewChecker cfg m" label tr] NewChecker_start [of cfg m label]
    threshold_pos [of cfg]
  by (simp add: recordProbe_report threshold_def)

text \<open>
  Passes of the checker only ever report on the upstreams it is configured with: after any
  passes over a new checker whatever is healthy is the label of a configured upstream, and the
  agent has a healthy upstream exactly when one of them is.
\<close>

theorem passes_report_configured:
  "HasHealthyUpstream (runChecker passes (NewChecker cfg m)) \<longleftrightarrow>
     (\<exists>u \<in> set (Upstreams cfg). is_up (runChecker passes (NewChecker cfg m)) (upstreamLabel u))"
proof -
  let ?c = "NewChecker cfg m"
  have cfg: "Upstreams (checker_config ?c) = Upstreams cfg"
    using NewChecker_start [of cfg m] by (simp add: checker_defaults_def)
  obtain tr where tr: "runChecker passes ?c = foldl recordProbe ?c tr"
    "fst ` set tr \<subseteq> upstreamLabel ` set (Upstreams cfg)"
    using runChecker_reports [of passes ?c] unfolding cfg by blast
  have ok0: "map_ok (healthy ?c)"
  proof -
    have "map_ok (healthy c) \<Longrightarrow> map_ok (healthy (foldl (\<lambda>c u. set_unhealthy (f u) c) c us))"
      for c us and f :: "UpstreamTarget \<Rightarrow> string"
      by (induction us arbitrary: c) simp_all
    then show ?thesis by (simp add: NewChecker_def)
  qed
  have "map_ok (healthy c) \<Longrightarrow> map_ok (healthy (foldl recordProbe c tr))" for c
    by (induction tr arbitrary: c) (auto simp: recordProbe_def split: sum.split)
  then have ok: "map_ok (healthy (runChecker passes ?c))" using ok0 tr(1) by simp
  have "HasHealthyUpstream (runChecker passes ?c) \<longleftrightarrow> (\<exists>label. is_up (runChecker passes ?c) label)"
    using map_get_Some_iff [OF ok] by (auto simp: HasHealthyUpstream_def is_up_def list_ex_iff)
  moreover have "label \<in> upstreamLabel ` set (Upstreams cfg)" if up: "is_up (runChecker passes ?c) label" for label
  proof -
    have "succeeded label tr"
      using up monitor.up_after_reports [of ?c label tr] NewChecker_start [of cfg m label] threshold_pos [of cfg]
      by (simp add: tr(1) recordProbe_report threshold_def)
    then show ?thesis using tr(2) by (auto simp: succeeded_def list_ex_iff)
  qed
  ultimately show ?thesis by blast
qed

subsection \<open>Changing the upstreams\<close>

lemma distinct_targets_labels:
  "upstreamLabel ` set (distinct_targets labels us) = upstreamLabel ` set us - set labels"
  by (induction labels us rule: distinct_targets.induct) (auto simp: Let_def normalize_target_label)

lemma distinct_targets_distinct:
  "distinct (map upstreamLabel (distinct_targets labels us))"
proof (induction labels us rule: distinct_targets.induct)
  case (2 labels u us)
  have "upstreamLabel (normalize_target u) \<notin>
      upstreamLabel ` set (distinct_targets (upstreamLabel (normalize_target u) # labels) us)"
    unfolding distinct_targets_labels by simp
  with 2 show ?case by (simp add: Let_def)
qed simp

lemma forget_fold:
  assumes "map_ok (healthy c)"
  shows "map_ok (healthy (foldl (forget labels) c ks)) \<and>
    map_get (healthy (foldl (forget labels) c ks)) l =
      (if l \<in> set ks \<and> l \<notin> set labels then None else map_get (healthy c) l)"
  using assms
proof (induction ks arbitrary: c)
  case Nil
  then show ?case by simp
next
  case (Cons k ks)
  have "map_ok (healthy (forget labels c k))" using Cons.prems by (simp add: forget_def)
  from Cons.IH [OF this] show ?case by (auto simp: forget_def go_map_simps)
qed

lemma introduce_fold:
  assumes "map_ok (healthy c)"
  shows "map_ok (healthy (foldl introduce c us)) \<and>
    map_get (healthy (foldl introduce c us)) l =
      (case map_get (healthy c) l of
         Some b \<Rightarrow> Some b | None \<Rightarrow> if l \<in> upstreamLabel ` set us then Some False else None)"
  using assms
proof (induction us arbitrary: c)
  case Nil
  then show ?case by (simp split: option.split)
next
  case (Cons u us)
  have "map_ok (healthy (introduce c u))" using Cons.prems by (simp add: introduce_def Let_def)
  from Cons.IH [OF this] show ?case
    by (auto simp: introduce_def go_map_simps Let_def split: option.splits)
qed

lemma UpdateUpstreams_healthy:
  assumes "map_ok (healthy c)"
  shows "map_ok (healthy (UpdateUpstreams rank us c)) \<and>
    map_get (healthy (UpdateUpstreams rank us c)) l =
      (if l \<in> upstreamLabel ` set us
       then Some (case map_get (healthy c) l of Some b \<Rightarrow> b | None \<Rightarrow> False) else None)"
proof -
  let ?n = "distinct_targets [] us"
  let ?c1 = "c\<lparr>checker_config := (checker_config c)\<lparr>Upstreams := ?n\<rparr>,
      failureCounts := map_keep (\<lambda>label _. label \<in> set (map upstreamLabel ?n)) (failureCounts c)\<rparr>"
  define c2 where "c2 = foldl (forget (map upstreamLabel ?n)) ?c1 (map_range rank (healthy ?c1))"
  have labels: "upstreamLabel ` set ?n = upstreamLabel ` set us"
    using distinct_targets_labels [of "[]" us] by simp
  have "map_ok (healthy ?c1)" using assms by simp
  note f = forget_fold [OF this, of "map upstreamLabel ?n" "map_range rank (healthy ?c1)", folded c2_def]
  have keys: "map_get (healthy c) l = None" if "l \<notin> fst ` set (healthy c)"
    using that by (simp add: map_get_None_iff)
  have c2: "map_get (healthy c2) l = (if l \<in> upstreamLabel ` set us then map_get (healthy c) l else None)"
    using f [of l] keys by (cases "l \<in> fst ` set (healthy c)") (simp_all add: labels)
  have u: "UpdateUpstreams rank us c = foldl introduce c2 ?n"
    by (simp add: UpdateUpstreams_def Let_def c2_def)
  have "map_ok (healthy c2)" using f [of l] by simp
  from introduce_fold [OF this, of ?n l] show ?thesis
    unfolding u labels c2 by (auto split: option.splits)
qed

text \<open>
  A change of the upstreams keeps what is known of those that stay, in either list: exactly
  the new upstreams are tracked afterwards, one that was tracked keeps its state, a new one
  starts unhealthy, and the targets kept have distinct labels.
\<close>

theorem update_keeps_known:
  assumes "map_ok (healthy c)"
  shows "map_get (healthy (UpdateUpstreams rank us c)) l =
      (if l \<in> upstreamLabel ` set us
       then Some (case map_get (healthy c) l of Some b \<Rightarrow> b | None \<Rightarrow> False) else None) \<and>
    distinct (map upstreamLabel (distinct_targets [] us)) \<and>
    upstreamLabel ` set (distinct_targets [] us) = upstreamLabel ` set us"
  using UpdateUpstreams_healthy [OF assms(1), of rank us l] distinct_targets_distinct
    distinct_targets_labels [of "[]" us]
  by simp

definition sample_target :: "string \<Rightarrow> UpstreamTarget" where
  "sample_target a = \<lparr>Address = a, Port = 0, Transport = ''DoT '', TLSServerName = ''''\<rparr>"

definition sample_checker :: Checker where
  "sample_checker = NewChecker \<lparr>Upstreams = [sample_target ''9.9.9.9''], IntervalSeconds = 0,
     TimeoutSeconds = 0, FailureThreshold = 0, ProbeDomain = '''', ProbeType = 0\<rparr> True"

lemma sample_checker_ok: "map_ok (healthy sample_checker)"
  by (simp add: sample_checker_def NewChecker_def)

lemma update_keeps_known_witness:
  "map_get (healthy (UpdateUpstreams (\<lambda>_. 0) [sample_target ''1.1.1.1''] sample_checker))
     (upstreamLabel (sample_target ''1.1.1.1'')) \<noteq> None"
  using update_keeps_known [OF sample_checker_ok, of "\<lambda>_. 0" "[sample_target ''1.1.1.1'']"] by simp

lemma recordProbe_other: "fst r \<noteq> l \<Longrightarrow> is_up (recordProbe c r) l = is_up c l"
  by (auto simp: recordProbe_def is_up_def go_map_simps split: sum.split)

lemma recordProbe_ok: "map_ok (healthy c) \<Longrightarrow> map_ok (healthy (recordProbe c r))"
  by (auto simp: recordProbe_def split: sum.split)

lemma UpdateUpstreams_config:
  "Upstreams (checker_config (UpdateUpstreams rank us c)) = distinct_targets [] us"
proof -
  have f: "checker_config (foldl (forget labels) c ks) = checker_config c" for labels ks c
    by (induction ks arbitrary: c) (simp_all add: forget_def)
  have "checker_config (foldl introduce c vs) = checker_config c" for vs c
    by (induction vs arbitrary: c) (simp_all add: introduce_def Let_def)
  then show ?thesis by (simp add: UpdateUpstreams_def Let_def f)
qed

text \<open>
  A probe that was under way when its upstream was removed brings it back: its success is
  recorded under a label that no configured upstream has, no later pass touches it, and the
  checker keeps reporting a healthy upstream even when every configured one fails.
\<close>

theorem removed_upstream_resurrected:
  assumes "map_ok (healthy c)" and "upstreamLabel u \<notin> upstreamLabel ` set us"
  shows "HasHealthyUpstream
    (runChecker passes (recordHealthy (upstreamLabel u) d (UpdateUpstreams rank us c)))"
proof -
  let ?l = "upstreamLabel u"
  let ?c = "recordHealthy ?l d (UpdateUpstreams rank us c)"
  have mok: "map_ok (healthy ?c)" using UpdateUpstreams_healthy [OF assms(1)] by simp
  have cfg: "Upstreams (checker_config ?c) = distinct_targets [] us" by (simp add: UpdateUpstreams_config)
  obtain tr where tr: "runChecker passes ?c = foldl recordProbe ?c tr" "?l \<notin> fst ` set tr"
    using runChecker_reports [of passes ?c] assms(2) distinct_targets_labels [of "[]" us]
    unfolding cfg by (metis Diff_empty list.set(1) subsetD)
  have "is_up (foldl recordProbe c0 tr) ?l \<and> map_ok (healthy (foldl recordProbe c0 tr))"
    if "is_up c0 ?l" "map_ok (healthy c0)" "?l \<notin> fst ` set tr" for c0 and tr :: "(string \<times> (bool + duration)) list"
    using that
    by (induction tr arbitrary: c0) (auto simp: recordProbe_other recordProbe_ok)
  from this [OF _ mok tr(2)] have "is_up (runChecker passes ?c) ?l" and "map_ok (healthy (runChecker passes ?c))"
    by (simp_all add: tr(1) is_up_def go_map_simps)
  then show ?thesis
    by (force simp: HasHealthyUpstream_def is_up_def list_ex_iff map_get_Some_iff)
qed

lemma removed_upstream_resurrected_witness:
  "HasHealthyUpstream (runChecker [] (recordHealthy (upstreamLabel (sample_target ''9.9.9.9'')) 7
     (UpdateUpstreams (\<lambda>_. 0) [] sample_checker)))"
  by (rule removed_upstream_resurrected [OF sample_checker_ok]) simp

text \<open>The value a gauge was last set to.\<close>

definition gauge :: "string \<Rightarrow> metric_op list \<Rightarrow> f64 option" where
  "gauge label ops =
     foldl (\<lambda>g op. case op of SetUpstreamHealthy l v \<Rightarrow> (if l = label then Some v else g) | _ \<Rightarrow> g) None ops"

lemma gauge_snoc:
  "gauge label (ops @ [op]) =
     (case op of SetUpstreamHealthy l v \<Rightarrow> (if l = label then Some v else gauge label ops) | _ \<Rightarrow> gauge label ops)"
  by (cases op) (simp_all add: gauge_def)

fun shows_health :: "f64 option \<Rightarrow> bool option \<Rightarrow> bool" where
  "shows_health g (Some b) \<longleftrightarrow> g = Some (if b then 1 else 0)"
| "shows_health g None \<longleftrightarrow> g = None \<or> g = Some 0"

definition gauges_show :: "Checker \<Rightarrow> bool" where
  "gauges_show c \<longleftrightarrow> map_ok (healthy c) \<and> with_metrics c \<and>
     (\<forall>l. shows_health (gauge l (metric_ops c)) (map_get (healthy c) l))"

lemma gauges_unhealthy: "gauges_show c \<Longrightarrow> gauges_show (set_unhealthy l c)"
  by (auto simp: gauges_show_def set_unhealthy_def observe_def gauge_snoc go_map_simps)

lemma gauges_observe:
  "gauges_show c \<Longrightarrow> \<forall>l v. op \<noteq> SetUpstreamHealthy l v \<Longrightarrow> gauges_show (observe op c)"
  by (auto simp: gauges_show_def observe_def gauge_snoc split: metric_op.splits)

lemma gauges_counts: "gauges_show (c\<lparr>failureCounts := m\<rparr>) = gauges_show c"
  by (simp add: gauges_show_def)

lemma gauges_recordProbe:
  assumes "gauges_show c"
  shows "gauges_show (recordProbe c r)"
proof (cases "snd r")
  case (Inl t)
  then show ?thesis
    using assms
    by (auto simp: recordProbe_def recordFailure_def Let_def gauges_counts intro!: gauges_unhealthy gauges_observe)
next
  case (Inr d)
  let ?c = "c\<lparr>failureCounts := map_put (fst r) 0 (failureCounts c), healthy := map_put (fst r) True (healthy c)\<rparr>"
  have "gauges_show (observe (SetUpstreamHealthy (fst r) 1) ?c)"
    using assms by (auto simp: gauges_show_def observe_def gauge_snoc go_map_simps)
  with Inr show ?thesis
    by (auto simp: recordProbe_def recordHealthy_def Let_def intro!: gauges_observe)
qed

lemma gauges_forget: "gauges_show c \<Longrightarrow> gauges_show (forget labels c l)"
  by (auto simp: gauges_show_def forget_def observe_def gauge_snoc go_map_simps)

lemma gauges_introduce: "gauges_show c \<Longrightarrow> gauges_show (introduce c u)"
  by (auto simp: introduce_def Let_def gauges_counts intro!: gauges_unhealthy)

lemma gauges_foldl: "gauges_show c \<Longrightarrow> (\<And>c x. gauges_show c \<Longrightarrow> gauges_show (f c x)) \<Longrightarrow> gauges_show (foldl f c xs)"
  by (induction xs arbitrary: c) simp_all

lemma gauges_update: "gauges_show c \<Longrightarrow> gauges_show (UpdateUpstreams rank us c)"
  unfolding UpdateUpstreams_def Let_def
  by (intro gauges_foldl gauges_introduce gauges_forget) (simp_all add: gauges_show_def)

lemma gauges_new: "gauges_show (NewChecker cfg True)"
  unfolding NewChecker_def Let_def
  by (intro gauges_foldl gauges_unhealthy) (simp_all add: gauges_show_def gauge_def)

datatype checker_op = Passes "probe_env list" | NewUpstreams "string \<Rightarrow> nat" "UpstreamTarget list"

fun checker_run :: "Checker \<Rightarrow> checker_op list \<Rightarrow> Checker" where
  "checker_run c [] = c"
| "checker_run c (Passes es # ops) = checker_run (runChecker es c) ops"
| "checker_run c (NewUpstreams rank us # ops) = checker_run (UpdateUpstreams rank us c) ops"

text \<open>
  The exported health is the checker's: for a checker with metrics, after any passes and
  changes of the upstreams, the gauge of an upstream is 1 exactly when it is healthy, and 0 for
  one that is tracked and not healthy or that has been removed.
\<close>

theorem gauge_is_health:
  "(gauge label (metric_ops (checker_run (NewChecker cfg True) ops)) = Some 1 \<longleftrightarrow>
      is_up (checker_run (NewChecker cfg True) ops) label) \<and>
   gauge label (metric_ops (checker_run (NewChecker cfg True) ops)) \<in> {None, Some 0, Some 1}"
proof -
  have run: "gauges_show (runChecker es c)" if "gauges_show c" for es c
  proof -
    obtain tr where "runChecker es c = foldl recordProbe c tr" using runChecker_reports by blast
    then show ?thesis using that by (auto intro: gauges_foldl gauges_recordProbe)
  qed
  have "gauges_show (checker_run c ops)" if "gauges_show c" for c
    using that by (induction c ops rule: checker_run.induct) (simp_all add: run gauges_update)
  from this [OF gauges_new, of cfg] show ?thesis
    unfolding gauges_show_def is_up_def
    by (elim conjE allE [of _ label], cases "map_get (healthy (checker_run (NewChecker cfg True) ops)) label")
      auto
qed

end
