(* ===== verification/Watcher.thy ===== *)
theory Watcher
  imports Prelude
begin

section \<open>The configuration watcher\<close>

text \<open>
  \<open>pkg/watcher/watcher.go\<close>: changes of a directory are debounced and then reloaded once.  The
  loop of \<open>Run\<close> is a state machine: \<open>react\<close> is one iteration for what the \<open>select\<close> chose, and
  \<open>watch_run\<close> the runs, each given by its trace of inputs with their times.  A timer fires only
  while its channel is still selected and not before its time.  The events themselves, and
  the errors of setting the notification up, are the fsnotify package's.
\<close>

subsection \<open>The model\<close>

definition defaultDebounceDuration :: duration where "defaultDebounceDuration = 1 * second"

record ConfigWatcher =
  configDir :: string
  debounce :: duration

definition WithDebounce :: "duration \<Rightarrow> ConfigWatcher \<Rightarrow> ConfigWatcher" where
  "WithDebounce d w = (if d > 0 then w\<lparr>debounce := d\<rparr> else w)"

definition NewWatcher :: "string \<Rightarrow> (ConfigWatcher \<Rightarrow> ConfigWatcher) option list \<Rightarrow> ConfigWatcher" where
  "NewWatcher dir options =
     foldl (\<lambda>w opt. case opt of None \<Rightarrow> w | Some f \<Rightarrow> f w)
       \<lparr>configDir = dir, debounce = defaultDebounceDuration\<rparr> options"

datatype fs_op = Create | WriteOp | Rename | Remove | Chmod

datatype watch_input =
    ContextDone
  | FsEvent "fs_op list"
  | EventsClosed
  | FsError
  | ErrorsClosed
  | TimerFired

record watch_state =
  running :: bool
  timer :: "time option"
  reloads :: "time list"

definition watch_start :: watch_state where
  "watch_start = \<lparr>running = True, timer = None, reloads = []\<rparr>"

definition is_change :: "fs_op list \<Rightarrow> bool" where
  "is_change ops \<longleftrightarrow>
     \<not> (Create \<notin> set ops \<and> WriteOp \<notin> set ops \<and> Rename \<notin> set ops \<and> Remove \<notin> set ops \<and> Chmod \<notin> set ops)"

definition react :: "ConfigWatcher \<Rightarrow> time \<Rightarrow> watch_input \<Rightarrow> watch_state \<Rightarrow> watch_state" where
  "react w now i s =
     (case i of
        ContextDone \<Rightarrow> s\<lparr>running := False\<rparr>
      | FsEvent ops \<Rightarrow> if \<not> is_change ops then s else s\<lparr>timer := Some (now + debounce w)\<rparr>
      | EventsClosed \<Rightarrow> s\<lparr>running := False\<rparr>
      | FsError \<Rightarrow> s
      | ErrorsClosed \<Rightarrow> s\<lparr>running := False\<rparr>
      | TimerFired \<Rightarrow> s\<lparr>timer := None, reloads := reloads s @ [now]\<rparr>)"

definition enabled :: "watch_state \<Rightarrow> time \<Rightarrow> watch_input \<Rightarrow> bool" where
  "enabled s now i \<longleftrightarrow>
     running s \<and> (i = TimerFired \<longrightarrow> (case timer s of None \<Rightarrow> False | Some t \<Rightarrow> t \<le> now))"

text \<open>
  \<open>Run\<close>: the notifier is created, the directory is added to it, and the loop begins; the first two
  can fail.  \<open>trace\<close> is what the loop's \<open>select\<close> chooses, with its times.
\<close>

definition runWatcher ::
  "ConfigWatcher \<Rightarrow> string option \<Rightarrow> (string \<Rightarrow> string option) \<Rightarrow> (time \<times> watch_input) list \<Rightarrow>
   string option \<times> watch_state" where
  "runWatcher w create_err add_err trace =
     (case create_err of
        Some err \<Rightarrow> (Some (''create fsnotify watcher: '' @ err), watch_start\<lparr>running := False\<rparr>)
      | None \<Rightarrow>
          (case add_err (configDir w) of
             Some err \<Rightarrow>
               (Some (''watch directory '' @ configDir w @ '': '' @ err), watch_start\<lparr>running := False\<rparr>)
           | None \<Rightarrow> (None, foldl (\<lambda>s (now, i). react w now i s) watch_start trace)))"

inductive watch_run :: "ConfigWatcher \<Rightarrow> (time \<times> watch_input) list \<Rightarrow> watch_state \<Rightarrow> bool" for w where
  run_start: "watch_run w [] watch_start"
| run_step:
    "watch_run w tr s \<Longrightarrow> enabled s now i \<Longrightarrow> watch_run w (tr @ [(now, i)]) (react w now i s)"

inductive_cases watch_run_snocE: "watch_run w (tr @ [x]) s"

subsection \<open>Debouncing\<close>

definition quiet_since :: "time \<Rightarrow> (time \<times> watch_input) list \<Rightarrow> bool" where
  "quiet_since t tr \<longleftrightarrow>
     (\<exists>pre ops post. tr = pre @ (t, FsEvent ops) # post \<and> is_change ops \<and>
        (\<forall>r \<in> set post. snd r \<noteq> TimerFired \<and> (\<forall>ops'. snd r = FsEvent ops' \<longrightarrow> \<not> is_change ops')))"

text \<open>An input that is neither a change nor the timer leaves the last change where it is.\<close>

lemma quiet_since_snoc:
  "quiet_since t (tr @ [(now, i)]) \<longleftrightarrow>
     (case i of
        FsEvent ops \<Rightarrow> if is_change ops then t = now else quiet_since t tr
      | TimerFired \<Rightarrow> False
      | _ \<Rightarrow> quiet_since t tr)"
proof -
  have last: "quiet_since t (tr @ [(now, i)]) \<longleftrightarrow>
      (\<exists>ops. t = now \<and> i = FsEvent ops \<and> is_change ops) \<or>
      quiet_since t tr \<and> i \<noteq> TimerFired \<and> (\<forall>ops. i = FsEvent ops \<longrightarrow> \<not> is_change ops)" (is "?L \<longleftrightarrow> ?R")
  proof
    assume ?L
    then obtain pre ops post where tr: "tr @ [(now, i)] = pre @ (t, FsEvent ops) # post" and c: "is_change ops"
      and q: "\<forall>r \<in> set post. snd r \<noteq> TimerFired \<and> (\<forall>ops'. snd r = FsEvent ops' \<longrightarrow> \<not> is_change ops')"
      unfolding quiet_since_def by blast
    show ?R
    proof (cases post rule: rev_cases)
      case Nil
      with tr c show ?thesis by simp
    next
      case (snoc post' r)
      with tr have "tr = pre @ (t, FsEvent ops) # post'" and "r = (now, i)" by simp_all
      with q c snoc show ?thesis unfolding quiet_since_def by fastforce
    qed
  next
    assume ?R
    then show ?L
    proof
      assume "\<exists>ops. t = now \<and> i = FsEvent ops \<and> is_change ops"
      then show ?L unfolding quiet_since_def by (metis append_Nil2 empty_iff list.set(1))
    next
      assume r: "quiet_since t tr \<and> i \<noteq> TimerFired \<and> (\<forall>ops. i = FsEvent ops \<longrightarrow> \<not> is_change ops)"
      then obtain pre ops post where tr: "tr = pre @ (t, FsEvent ops) # post" "is_change ops"
        "\<forall>r \<in> set post. snd r \<noteq> TimerFired \<and> (\<forall>ops'. snd r = FsEvent ops' \<longrightarrow> \<not> is_change ops')"
        unfolding quiet_since_def by blast
      with r show ?L
        unfolding quiet_since_def
        by (intro exI [of _ pre] exI [of _ ops] exI [of _ "post @ [(now, i)]"]) auto
    qed
  qed
  show ?thesis unfolding last by (cases i) auto
qed

lemma watch_run_timer:
  "watch_run w tr s \<Longrightarrow> (timer s = Some d \<longleftrightarrow> quiet_since (d - debounce w) tr)"
proof (induction rule: watch_run.induct)
  case run_start
  show ?case by (simp add: watch_start_def quiet_since_def)
next
  case (run_step tr s now i)
  then show ?case
    by (cases i) (auto simp: react_def quiet_since_snoc)
qed

text \<open>
  C36.  The configuration is reloaded exactly when it has been quiet: in any run that has not
  ended the reload timer may fire at a time exactly when there was a change at least the debounce
  period earlier and neither a change nor a reload since; so a burst of changes is reloaded
  once, and no change is left without a reload.
\<close>

theorem reload_when_quiet:
  assumes "watch_run w tr s" and "running s"
  shows "enabled s now TimerFired \<longleftrightarrow> (\<exists>t. t + debounce w \<le> now \<and> quiet_since t tr)"
proof -
  have "timer s = Some d \<longleftrightarrow> quiet_since (d - debounce w) tr" for d
    by (rule watch_run_timer [OF assms(1)])
  then show ?thesis
    using assms(2)
    by (auto simp: enabled_def split: option.split)
      (metis add_diff_cancel_right' diff_add_cancel option.distinct(1) option.inject)+
qed

lemma reload_when_quiet_witness:
  "\<exists>s. watch_run (NewWatcher ''/etc'' []) [(5, FsEvent [Chmod]), (6, FsEvent [])] s \<and>
     enabled s (5 + second) TimerFired \<and> \<not> enabled s (4 + second) TimerFired"
proof -
  let ?w = "NewWatcher ''/etc'' []"
  let ?s1 = "react ?w 5 (FsEvent [Chmod]) watch_start"
  have 1: "watch_run ?w ([] @ [(5, FsEvent [Chmod])]) ?s1"
    by (intro run_step run_start) (simp add: enabled_def watch_start_def)
  have 2: "watch_run ?w (([] @ [(5, FsEvent [Chmod])]) @ [(6, FsEvent [])]) (react ?w 6 (FsEvent []) ?s1)"
    by (rule run_step [OF 1]) (simp add: enabled_def watch_start_def react_def is_change_def)
  then have run: "watch_run ?w [(5, FsEvent [Chmod]), (6, FsEvent [])] (react ?w 6 (FsEvent []) ?s1)"
    by simp
  have on: "running (react ?w 6 (FsEvent []) ?s1)" by (simp add: react_def watch_start_def is_change_def)
  have q: "quiet_since t [(5, FsEvent [Chmod]), (6, FsEvent [])] \<longleftrightarrow> t = 5" for t
    using quiet_since_snoc [of t "[(5, FsEvent [Chmod])]" 6 "FsEvent []"]
      quiet_since_snoc [of t "[]" 5 "FsEvent [Chmod]"]
    by (simp add: is_change_def)
  have "debounce ?w = second" by (simp add: NewWatcher_def defaultDebounceDuration_def)
  with reload_when_quiet [OF run on] run show ?thesis by (auto simp: q)
qed

subsection \<open>What ends the watcher\<close>

lemma watch_loop_running:
  "running s \<Longrightarrow> running (foldl (\<lambda>s (now, i). react w now i s) s trace) \<longleftrightarrow>
     set (map snd trace) \<inter> {ContextDone, EventsClosed, ErrorsClosed} = {}"
proof (induction trace rule: rev_induct)
  case Nil
  then show ?case by simp
next
  case (snoc x trace)
  obtain now i where x: "x = (now, i)" by (cases x)
  have "running (react w now i t) \<longleftrightarrow> running t \<and> i \<notin> {ContextDone, EventsClosed, ErrorsClosed}" for t
    by (cases i) (auto simp: react_def)
  with snoc x show ?case by auto
qed

text \<open>
  The watcher gives up only where it cannot begin: \<open>Run\<close> returns an error exactly when the notifier
  cannot be created or the directory cannot be watched; after that neither errors of the
  notifier nor reloads end it, only its context or a closed channel.
\<close>

theorem watcher_survives:
  "(fst (runWatcher w create_err add_err trace) \<noteq> None \<longleftrightarrow> create_err \<noteq> None \<or> add_err (configDir w) \<noteq> None) \<and>
   (running (snd (runWatcher w create_err add_err trace)) \<longleftrightarrow>
      create_err = None \<and> add_err (configDir w) = None \<and>
      set (map snd trace) \<inter> {ContextDone, EventsClosed, ErrorsClosed} = {})"
  using watch_loop_running [of watch_start w trace]
  by (auto simp: runWatcher_def watch_start_def split: option.split)

end
