(* ===== verification/GoPath.thy ===== *)
theory GoPath
  imports GoNet
begin

section \<open>File paths\<close>

text \<open>
  \<open>filepath.Clean\<close>, \<open>Join\<close>, \<open>Dir\<close> and \<open>Ext\<close> of Go's standard library on a Unix system: paths
  are split at slashes, empty and dot elements are dropped and a double dot removes the
  element before it.
\<close>

fun clean_step :: "bool \<Rightarrow> string list \<Rightarrow> string \<Rightarrow> string list" where
  "clean_step rooted stack e =
     (if e = '''' \<or> e = ''.'' then stack
      else if e = ''..'' then
        (case stack of
           [] \<Rightarrow> if rooted then [] else [''..'']
         | last_one # rest \<Rightarrow> if last_one = ''..'' then ''..'' # stack else rest)
      else e # stack)"

fun join_strings :: "string \<Rightarrow> string list \<Rightarrow> string" where
  "join_strings sep [] = ''''"
| "join_strings sep [x] = x"
| "join_strings sep (x # y # ys) = x @ sep @ join_strings sep (y # ys)"

definition path_clean :: "string \<Rightarrow> string" where
  "path_clean path =
     (if path = '''' then ''.''
      else
        let rooted = (take 1 path = ''/'');
            elems = rev (foldl (clean_step rooted) [] (split_on CHR ''/'' path));
            body = join_strings ''/'' elems
        in if rooted then ''/'' @ body else if body = '''' then ''.'' else body)"

definition path_join :: "string \<Rightarrow> string \<Rightarrow> string" where
  "path_join dir name =
     (if dir \<noteq> '''' then path_clean (dir @ ''/'' @ name)
      else if name \<noteq> '''' then path_clean name
      else '''')"

definition path_dir :: "string \<Rightarrow> string" where
  "path_dir path = path_clean (rev (dropWhile (\<lambda>c. c \<noteq> CHR ''/'') (rev path)))"

definition path_ext :: "string \<Rightarrow> string" where
  "path_ext path =
     (let final = takeWhile (\<lambda>c. c \<noteq> CHR ''/'') (rev path);
          after = takeWhile (\<lambda>c. c \<noteq> CHR ''.'') final
      in if length after = length final then '''' else rev (take (Suc (length after)) final))"

lemma path_clean_nonempty [simp]: "path_clean p \<noteq> ''''"
  by (simp add: path_clean_def Let_def)

lemma path_join_nonempty [simp]: "name \<noteq> '''' \<Longrightarrow> path_join dir name \<noteq> ''''"
  by (simp add: path_join_def)

end
