(* ===== verification/EngineApi.thy ===== *)
theory EngineApi
  imports EngineTypes GoPath LineWriter
begin

section \<open>Engines as the agent sees them\<close>

text \<open>
  The configuration records and the \<open>Engine\<close> interface of the \<open>astradns-types\<close> package, with
  the fields and methods that the agent uses, and the operating system the engines run on.
  An \<open>int32\<close> of the configuration is an integer in its range; where the agent converts to
  \<open>int32\<close> the wrap-around is written out (\<open>wrap32\<close>).

  The keywords of the DNSSEC modes and of the filter's actions are those that the error texts of
  \<open>validateEngineConfig\<close> in \<open>cmd/agent/main.go\<close> name.
\<close>

subsection \<open>Configuration\<close>

definition DNSSECModeOff :: string where "DNSSECModeOff = ''off''"
definition DNSSECModeProcess :: string where "DNSSECModeProcess = ''process''"
definition DNSSECModeValidate :: string where "DNSSECModeValidate = ''validate''"

lemmas mode_defs = DNSSECModeOff_def DNSSECModeProcess_def DNSSECModeValidate_def

definition DomainFilterActionRefused :: string where "DomainFilterActionRefused = ''refused''"
definition DomainFilterActionNXDomain :: string where "DomainFilterActionNXDomain = ''nxdomain''"

record UpstreamConfig =
  Address :: string
  Port :: int
  Transport :: string
  TLSServerName :: string
  Weight :: int
  Preference :: int

record CacheConfig =
  MaxEntries :: int
  PositiveTtlMin :: int
  PositiveTtlMax :: int
  NegativeTtl :: int
  PrefetchEnabled :: bool
  PrefetchThreshold :: int

record DNSSECConfig =
  Mode :: string

record DomainFilterConfig =
  Allow :: "string list"
  Deny :: "string list"
  Action :: string

record EngineConfig =
  Upstreams :: "UpstreamConfig list"
  Cache :: CacheConfig
  ListenAddr :: string
  ListenPort :: int
  WorkerThreads :: int
  DNSSEC :: DNSSECConfig
  DomainFilter :: DomainFilterConfig

text \<open>Go's zero value, which a field that JSON does not mention keeps.\<close>

definition zero_config :: EngineConfig where
  "zero_config = \<lparr>Upstreams = [],
     Cache = \<lparr>MaxEntries = 0, PositiveTtlMin = 0, PositiveTtlMax = 0, NegativeTtl = 0,
              PrefetchEnabled = False, PrefetchThreshold = 0\<rparr>,
     ListenAddr = '''', ListenPort = 0, WorkerThreads = 0, DNSSEC = \<lparr>Mode = ''''\<rparr>,
     DomainFilter = \<lparr>Allow = [], Deny = [], Action = ''''\<rparr>\<rparr>"

definition wrap32 :: "int \<Rightarrow> int" where
  "wrap32 x = (x + 2 ^ 31) mod 2 ^ 32 - 2 ^ 31"

lemma wrap32_id: "- (2 ^ 31) \<le> x \<Longrightarrow> x < 2 ^ 31 \<Longrightarrow> wrap32 x = x"
  by (simp add: wrap32_def)

record EngineCapabilities =
  SupportsHotReload :: bool
  SupportedTransports :: "string list"
  SupportedDNSSECModes :: "string list"
  SupportsTLSServerName :: bool
  SupportsWeightedUpstreams :: bool
  SupportsPriorityUpstreams :: bool

text \<open>
  The checks and templates of the types package: \<open>ValidateTemplateConfig\<close>, \<open>NewTemplateData\<close>,
  the template texts, and \<open>text/template\<close> with its parser and evaluator.
\<close>

record ('d, 't) template_lib =
  ValidateTemplateConfig :: "EngineConfig \<Rightarrow> string option"
  NewTemplateData :: "EngineConfig \<Rightarrow> 'd"
  parse_template :: "string \<Rightarrow> string \<Rightarrow> string + 't"
  execute_template :: "'t \<Rightarrow> 'd \<Rightarrow> string + string"
  UnboundConfigTemplate :: string
  BindConfigTemplate :: string
  RecursorConfTemplate :: string
  CorefileTemplate :: string

datatype compat_error =
    TransportNotSupported nat
  | MixedTransports
  | ModeNotSupported string
  | SeveralServerNames

datatype render_error =
    Incompatible compat_error
  | InvalidTemplateConfig string
  | TemplateError string

subsection \<open>Processes and files\<close>

text \<open>
  A process the agent has started and that has not ended: its arguments and the writers its
  output goes to.  Every process gets a new identifier.
\<close>

record process =
  argv :: "string list"
  stdout :: lineWriter
  stderr :: lineWriter

record machine =
  processes :: "(nat, process) go_map"
  next_pid :: nat
  files :: "(string, string) go_map"

definition alive :: "machine \<Rightarrow> nat set" where
  "alive w = fst ` set (processes w)"

definition machine_ok :: "machine \<Rightarrow> bool" where
  "machine_ok w \<longleftrightarrow> map_ok (processes w) \<and> (\<forall>pid\<in>alive w. pid < next_pid w)"

definition spawn :: "process \<Rightarrow> machine \<Rightarrow> nat \<times> machine" where
  "spawn p w = (next_pid w, w\<lparr>processes := map_put (next_pid w) p (processes w), next_pid := Suc (next_pid w)\<rparr>)"

definition reap :: "nat \<Rightarrow> machine \<Rightarrow> machine" where
  "reap pid w = w\<lparr>processes := map_del pid (processes w)\<rparr>"

definition write_file :: "string \<Rightarrow> string \<Rightarrow> machine \<Rightarrow> machine" where
  "write_file path content w = w\<lparr>files := map_put path content (files w)\<rparr>"

lemma alive_spawn [simp]: "spawn p w = (pid, w') \<Longrightarrow> alive w' = insert pid (alive w)"
  by (auto simp: spawn_def alive_def map_put_def map_del_def image_iff)

lemma alive_reap [simp]: "alive (reap pid w) = alive w - {pid}"
  by (auto simp: reap_def alive_def map_del_def)

lemma alive_write_file [simp]: "alive (write_file path content w) = alive w"
  by (simp add: write_file_def alive_def)

lemma machine_ok_spawn: "machine_ok w \<Longrightarrow> spawn p w = (pid, w') \<Longrightarrow> machine_ok w'"
  using alive_spawn [of p w pid w'] by (auto simp: machine_ok_def spawn_def less_Suc_eq)

lemma machine_ok_reap [simp]: "machine_ok w \<Longrightarrow> machine_ok (reap pid w)"
  using alive_reap [of pid w] by (auto simp: machine_ok_def reap_def)

lemma machine_ok_write_file [simp]: "machine_ok (write_file path content w) = machine_ok w"
  using alive_write_file [of path content w] by (simp add: machine_ok_def write_file_def)

lemma spawn_fresh: "machine_ok w \<Longrightarrow> spawn p w = (pid, w') \<Longrightarrow> pid \<notin> alive w"
  by (auto simp: spawn_def machine_ok_def)

end
