(* ===== verification/ConfigContract.thy ===== *)
theory ConfigContract
  imports EngineApi
begin

section \<open>The contract of a configuration back end\<close>

text \<open>
  What the four packages under \<open>pkg/engine\<close> promise of their configurations.  A normal
  configuration has no field left to a default; every back end normalizes before it renders, and
  only renders what the engine advertises in its capabilities.
\<close>

definition normal_transport :: "string \<Rightarrow> bool" where
  "normal_transport t \<longleftrightarrow> t \<in> {UpstreamTransportDNS, UpstreamTransportDoT, UpstreamTransportDoH}"

definition normal_mode :: "string \<Rightarrow> bool" where
  "normal_mode m \<longleftrightarrow> m \<in> {DNSSECModeOff, DNSSECModeProcess, DNSSECModeValidate}"

definition normal_upstream :: "UpstreamConfig \<Rightarrow> bool" where
  "normal_upstream u \<longleftrightarrow>
     normal_transport (Transport u) \<and> Port u \<noteq> 0 \<and> 0 < Weight u \<and> 0 < Preference u \<and>
     (Transport u = UpstreamTransportDNS \<longrightarrow> TLSServerName u = '''')"

definition normal_config :: "EngineConfig \<Rightarrow> bool" where
  "normal_config c \<longleftrightarrow>
     1 \<le> WorkerThreads c \<and> WorkerThreads c \<le> 256 \<and> normal_mode (Mode (DNSSEC c)) \<and>
     (\<forall>u\<in>set (Upstreams c). normal_upstream u)"

text \<open>The keywords are what normalizing makes of them.\<close>

lemma transport_distinct [simp]:
  "UpstreamTransportDNS \<noteq> UpstreamTransportDoT" "UpstreamTransportDNS \<noteq> UpstreamTransportDoH"
  "UpstreamTransportDoT \<noteq> UpstreamTransportDoH" "UpstreamTransportDoT \<noteq> UpstreamTransportDNS"
  "UpstreamTransportDoH \<noteq> UpstreamTransportDNS" "UpstreamTransportDoH \<noteq> UpstreamTransportDoT"
  by (simp_all add: transport_defs)

lemma dnssec_mode_distinct [simp]:
  "DNSSECModeOff \<noteq> DNSSECModeProcess" "DNSSECModeOff \<noteq> DNSSECModeValidate"
  "DNSSECModeProcess \<noteq> DNSSECModeValidate" "DNSSECModeProcess \<noteq> DNSSECModeOff"
  "DNSSECModeValidate \<noteq> DNSSECModeOff" "DNSSECModeValidate \<noteq> DNSSECModeProcess"
  by (simp_all add: mode_defs)

lemma transport_trimmed [simp]:
  "to_lower (trim_space UpstreamTransportDNS) = UpstreamTransportDNS"
  "to_lower (trim_space UpstreamTransportDoT) = UpstreamTransportDoT"
  "to_lower (trim_space UpstreamTransportDoH) = UpstreamTransportDoH"
  by (simp_all add: transport_defs go_string_simps)

lemma mode_trimmed [simp]:
  "to_lower (trim_space DNSSECModeOff) = DNSSECModeOff"
  "to_lower (trim_space DNSSECModeProcess) = DNSSECModeProcess"
  "to_lower (trim_space DNSSECModeValidate) = DNSSECModeValidate"
  by (simp_all add: mode_defs go_string_simps)

text \<open>What normalizing never touches.\<close>

definition same_service :: "EngineConfig \<Rightarrow> EngineConfig \<Rightarrow> bool" where
  "same_service c d \<longleftrightarrow>
     ListenAddr c = ListenAddr d \<and> ListenPort c = ListenPort d \<and> Cache c = Cache d \<and>
     DomainFilter c = DomainFilter d \<and> map Address (Upstreams c) = map Address (Upstreams d)"

definition advertised :: "EngineCapabilities \<Rightarrow> EngineConfig \<Rightarrow> bool" where
  "advertised caps c \<longleftrightarrow>
     Mode (DNSSEC c) \<in> set (SupportedDNSSECModes caps) \<and>
     (\<forall>u\<in>set (Upstreams c). Transport u \<in> set (SupportedTransports caps))"

locale config_backend =
  fixes normalize :: "int \<Rightarrow> EngineConfig \<Rightarrow> EngineConfig"
    and compatible :: "EngineConfig \<Rightarrow> compat_error option"
    and render :: "('d, 't) template_lib \<Rightarrow> int \<Rightarrow> EngineConfig \<Rightarrow> render_error + string"
    and caps :: EngineCapabilities
  assumes normalize_normal: "normal_config (normalize cpus c)"
    and normalize_service: "same_service (normalize cpus c) c"
    and compatible_advertised:
      "normal_config c \<Longrightarrow> compatible c = None \<Longrightarrow> advertised caps c"
    and render_compatible: "render lib cpus c = Inr text \<Longrightarrow> compatible (normalize cpus c) = None"
    and render_incompatible:
      "compatible (normalize cpus c) = Some er \<Longrightarrow> render lib cpus c = Inl (Incompatible er)"
begin

text \<open>Whatever is rendered is a normal configuration within the capabilities of the engine.\<close>

lemma rendered_within_capabilities:
  assumes "render lib cpus c = Inr text"
  shows "normal_config (normalize cpus c) \<and> advertised caps (normalize cpus c)"
  using assms render_compatible compatible_advertised normalize_normal by blast

text \<open>A configuration outside the capabilities is refused, whatever the templates do.\<close>

lemma beyond_capabilities_refused:
  assumes "\<not> advertised caps (normalize cpus c)"
  shows "\<exists>er. render lib cpus c = Inl (Incompatible er)"
proof (cases "compatible (normalize cpus c)")
  case None
  with assms compatible_advertised normalize_normal show ?thesis by blast
next
  case (Some er)
  then show ?thesis using render_incompatible by blast
qed

end

lemmas normal_defs = normal_config_def normal_upstream_def normal_transport_def normal_mode_def

end
