(* ===== verification/UnboundConfig.thy ===== *)
theory UnboundConfig
  imports ConfigContract
begin

section \<open>The configuration of Unbound\<close>

text \<open>
  \<open>pkg/engine/unbound/config.go\<close>: an engine configuration is normalized, checked against what the
  engine can do and rendered by a template of the types package.  The number of processors
  (\<open>runtime.NumCPU\<close>) is an argument.
\<close>

subsection \<open>The model\<close>

definition defaultPortForTransport :: "string \<Rightarrow> int" where
  "defaultPortForTransport transport =
     (if transport = UpstreamTransportDoT then 853
      else if transport = UpstreamTransportDoH then 443
      else 53)"

definition normalizeUpstreamTransport :: "string \<Rightarrow> string" where
  "normalizeUpstreamTransport transport =
     (let trimmed = to_lower (trim_space transport) in
      if trimmed = UpstreamTransportDoT then UpstreamTransportDoT
      else if trimmed = UpstreamTransportDoH then UpstreamTransportDoH
      else UpstreamTransportDNS)"

definition normalizeDNSSECMode :: "string \<Rightarrow> string" where
  "normalizeDNSSECMode mode =
     (let trimmed = to_lower (trim_space mode) in
      if trimmed = DNSSECModeProcess then DNSSECModeProcess
      else if trimmed = DNSSECModeValidate then DNSSECModeValidate
      else DNSSECModeOff)"

definition normalizeWorkerThreads :: "int \<Rightarrow> int \<Rightarrow> int" where
  "normalizeWorkerThreads cpus value =
     (if value > 256 then 256
      else if value > 0 then value
      else
        let auto = wrap32 cpus in
        if auto \<le> 0 then 2 else if auto > 256 then 256 else auto)"

definition defaultTLSServerName :: "string \<Rightarrow> string" where
  "defaultTLSServerName address =
     (let trimmed = trim_suffix (trim_space address) ''.'' in
      if trimmed = '''' then ''''
      else if parseAddr trimmed then ''''
      else trimmed)"

text \<open>The body of the loop over the upstreams.\<close>

definition normalizeUpstream :: "UpstreamConfig \<Rightarrow> UpstreamConfig" where
  "normalizeUpstream u0 =
     (let u1 = u0\<lparr>Transport := normalizeUpstreamTransport (Transport u0)\<rparr>;
          u2 = (if Port u1 = 0 then u1\<lparr>Port := defaultPortForTransport (Transport u1)\<rparr> else u1);
          u3 = u2\<lparr>TLSServerName := trim_space (TLSServerName u2)\<rparr>;
          u4 = (if Transport u3 \<noteq> UpstreamTransportDNS \<and> TLSServerName u3 = ''''
                then u3\<lparr>TLSServerName := defaultTLSServerName (Address u3)\<rparr> else u3);
          u5 = (if Transport u4 = UpstreamTransportDNS then u4\<lparr>TLSServerName := ''''\<rparr> else u4);
          u6 = (if Weight u5 \<le> 0 then u5\<lparr>Weight := 1\<rparr> else u5)
      in if Preference u6 \<le> 0 then u6\<lparr>Preference := 100\<rparr> else u6)"

definition normalizeConfig :: "int \<Rightarrow> EngineConfig \<Rightarrow> EngineConfig" where
  "normalizeConfig cpus config =
     config\<lparr>WorkerThreads := normalizeWorkerThreads cpus (WorkerThreads config),
            DNSSEC := (DNSSEC config)\<lparr>Mode := normalizeDNSSECMode (Mode (DNSSEC config))\<rparr>,
            Upstreams := map normalizeUpstream (Upstreams config)\<rparr>"

text \<open>The loop over the upstreams, with the flags of the transports met so far.\<close>

fun unbound_transports :: "nat \<Rightarrow> bool \<Rightarrow> bool \<Rightarrow> UpstreamConfig list \<Rightarrow> compat_error + bool \<times> bool" where
  "unbound_transports i plain dot [] = Inr (plain, dot)"
| "unbound_transports i plain dot (u # us) =
     (if Transport u = UpstreamTransportDoH then Inl (TransportNotSupported i)
      else if Transport u = UpstreamTransportDoT then unbound_transports (Suc i) plain True us
      else unbound_transports (Suc i) True dot us)"

definition validateUnboundCompatibility :: "EngineConfig \<Rightarrow> compat_error option" where
  "validateUnboundCompatibility config =
     (case unbound_transports 0 False False (Upstreams config) of
        Inl er \<Rightarrow> Some er
      | Inr (hasPlainDNS, hasDoT) \<Rightarrow> if hasPlainDNS \<and> hasDoT then Some MixedTransports else None)"

definition RenderConfig :: "('d, 't) template_lib \<Rightarrow> int \<Rightarrow> EngineConfig \<Rightarrow> render_error + string" where
  "RenderConfig lib cpus config =
     (let normalized = normalizeConfig cpus config in
      case validateUnboundCompatibility normalized of
        Some er \<Rightarrow> Inl (Incompatible er)
      | None \<Rightarrow>
          (case ValidateTemplateConfig lib normalized of
             Some er \<Rightarrow> Inl (InvalidTemplateConfig er)
           | None \<Rightarrow>
               (let data = NewTemplateData lib normalized in
                case parse_template lib ''unbound'' (UnboundConfigTemplate lib) of
                  Inl er \<Rightarrow> Inl (TemplateError er)
                | Inr tmpl \<Rightarrow>
                    (case execute_template lib tmpl data of
                       Inl er \<Rightarrow> Inl (TemplateError er)
                     | Inr buf \<Rightarrow> Inr buf))))"

subsection \<open>Normal forms\<close>

lemma unbound_normalizeUpstream_fields [simp]:
  "Address (normalizeUpstream u) = Address u"
  "Transport (normalizeUpstream u) = normalizeUpstreamTransport (Transport u)"
  by (simp_all add: normalizeUpstream_def Let_def)

lemma unbound_normalizeUpstreamTransport_normal: "normal_transport (normalizeUpstreamTransport t)"
  by (simp add: normalizeUpstreamTransport_def normal_transport_def Let_def)

lemmas normalizeUpstreamTransport_cases =
  unbound_normalizeUpstreamTransport_normal [unfolded normal_transport_def insert_iff empty_iff simp_thms]

lemma unbound_defaultPort_pos: "0 < defaultPortForTransport t"
  by (simp add: defaultPortForTransport_def)

lemma unbound_normalizeUpstream_normal: "normal_upstream (normalizeUpstream u)"
  using unbound_normalizeUpstreamTransport_normal [of "Transport u"] unbound_defaultPort_pos
  by (auto simp: normal_upstream_def normalizeUpstream_def Let_def less_le)

lemma unbound_normalizeConfig_normal: "normal_config (normalizeConfig cpus c)"
  by (auto simp: normal_config_def normalizeConfig_def normalizeWorkerThreads_def normalizeDNSSECMode_def
      normal_mode_def Let_def unbound_normalizeUpstream_normal)

lemma unbound_normalizeConfig_service: "same_service (normalizeConfig cpus c) c"
  by (simp add: same_service_def normalizeConfig_def)

text \<open>A configuration whose server names are trimmed is left as it is once it is normal.\<close>

lemma unbound_normalizeUpstream_id:
  assumes "normal_upstream u"
    and "trim_space (TLSServerName u) = TLSServerName u"
    and "Transport u \<noteq> UpstreamTransportDNS \<and> TLSServerName u = '''' \<longrightarrow> defaultTLSServerName (Address u) = ''''"
  shows "normalizeUpstream u = u"
proof -
  have "normalizeUpstreamTransport (Transport u) = Transport u"
    using assms(1) by (auto simp: normal_upstream_def normal_transport_def normalizeUpstreamTransport_def)
  with assms show ?thesis
    by (intro UpstreamConfig.equality) (simp_all add: normal_upstream_def normalizeUpstream_def Let_def)
qed

lemma unbound_normalizeConfig_id:
  assumes "normal_config c"
    and "\<And>u. u \<in> set (Upstreams c) \<Longrightarrow> trim_space (TLSServerName u) = TLSServerName u"
    and "\<And>u. u \<in> set (Upstreams c) \<Longrightarrow> Transport u \<noteq> UpstreamTransportDNS \<and> TLSServerName u = '''' \<longrightarrow>
      defaultTLSServerName (Address u) = ''''"
  shows "normalizeConfig cpus c = c"
proof -
  have "map normalizeUpstream (Upstreams c) = Upstreams c"
    using assms unbound_normalizeUpstream_id by (intro map_idI) (auto simp: normal_config_def)
  with assms(1) show ?thesis
    by (auto simp: normalizeConfig_def normal_config_def normal_mode_def normalizeDNSSECMode_def
        normalizeWorkerThreads_def mode_trimmed dnssec_mode_distinct Let_def)
qed

lemma unbound_render_compatible:
  "RenderConfig lib cpus c = Inr text \<Longrightarrow> validateUnboundCompatibility (normalizeConfig cpus c) = None"
  by (auto simp: RenderConfig_def Let_def split: option.splits)

lemma unbound_render_incompatible:
  "validateUnboundCompatibility (normalizeConfig cpus c) = Some er \<Longrightarrow>
   RenderConfig lib cpus c = Inl (Incompatible er)"
  by (simp add: RenderConfig_def)

lemma unbound_render_refuses_iff:
  "(\<exists>er. RenderConfig lib cpus c = Inl (Incompatible er)) \<longleftrightarrow>
   validateUnboundCompatibility (normalizeConfig cpus c) \<noteq> None"
  by (auto simp: RenderConfig_def Let_def split: option.splits sum.splits)

subsection \<open>Compatibility\<close>

lemma unbound_transports_result:
  "unbound_transports i plain dot us = Inr (p, d) \<Longrightarrow>
     (\<forall>u\<in>set us. Transport u \<noteq> UpstreamTransportDoH) \<and>
     (p \<longleftrightarrow> plain \<or> (\<exists>u\<in>set us. Transport u \<noteq> UpstreamTransportDoT)) \<and>
     (d \<longleftrightarrow> dot \<or> (\<exists>u\<in>set us. Transport u = UpstreamTransportDoT))"
  by (induction i plain dot us rule: unbound_transports.induct) (auto simp: transport_distinct split: if_splits)

lemma unbound_transports_error:
  "unbound_transports i plain dot us = Inl er \<Longrightarrow> \<exists>u\<in>set us. Transport u = UpstreamTransportDoH"
  by (induction i plain dot us rule: unbound_transports.induct) (auto split: if_splits)

text \<open>Unbound takes plain DNS or DNS over TLS, not a mixture.\<close>

lemma validateUnboundCompatibility_iff:
  "validateUnboundCompatibility c = None \<longleftrightarrow>
     (\<forall>u\<in>set (Upstreams c). Transport u \<noteq> UpstreamTransportDoH \<and> Transport u \<noteq> UpstreamTransportDoT) \<or>
     (\<forall>u\<in>set (Upstreams c). Transport u = UpstreamTransportDoT)"
proof (cases "unbound_transports 0 False False (Upstreams c)")
  case (Inl er)
  then show ?thesis
    using unbound_transports_error [OF Inl] by (force simp: validateUnboundCompatibility_def)
next
  case (Inr flags)
  obtain p d where flags: "flags = (p, d)" by fastforce
  from unbound_transports_result [OF Inr [unfolded flags]] Inr flags show ?thesis
    by (auto simp: validateUnboundCompatibility_def)
qed

end
