(* ===== verification/EngineContract.thy ===== *)
theory EngineContract
  imports ConfigContract DnsMsg
begin

section \<open>The contract of an engine\<close>

text \<open>
  The \<open>Engine\<close> interface, through which the agent drives its DNS engine, as a record of functions
  (\<open>engine_api\<close>) on the state of the engine and of the machine.  What the operating system and
  the network answer to one call is an argument of the call (\<open>op_env\<close>): whether the context has
  ended, the results of making the directory, writing the file, starting the process, running
  the control program, signalling the process and waiting for it, the answer to the health query
  and the clock.

  The operations are atomic: the agent calls them through \<open>synchronizedEngine\<close>, which holds a lock
  for the whole call.
\<close>

subsection \<open>The environment of a call\<close>

text \<open>A file that could not be written may have been truncated or written in part.\<close>

datatype write_result = Written | WriteBroken "string option"

text \<open>
  \<open>Process.Signal\<close> returns nil, \<open>os.ErrProcessDone\<close>, \<open>ESRCH\<close> or another error.  \<open>cmd.Wait\<close> returns
  nil, an \<open>*exec.ExitError\<close> or another error, or the context ends first: that of the caller, or
  the \<open>shutdownTimeout\<close> of five seconds that \<open>Stop\<close> adds to it.
\<close>

datatype signal_result = Signalled | ErrProcessDone | ESRCH | SignalFails
datatype wait_result = WaitNil | WaitExitError | WaitOtherError | ContextFirst

record op_env =
  ctx_ended :: bool
  mkdir_ok :: bool
  write_result :: write_result
  exec_ok :: bool
  control_ok :: bool
  signal_result :: signal_result
  wait_result :: wait_result
  ask_engine :: "string \<Rightarrow> string + int option"
  op_started :: time
  op_answered :: time
  op_clock :: "nat \<Rightarrow> time"

datatype wait_error = ExitError | OtherWaitError | ShutdownTimeout

datatype engine_error =
    ContextEnded
  | RenderFailed render_error
  | MkdirFailed
  | WriteFailed
  | AlreadyRunning
  | NotConfigured
  | StartFailed
  | ReloadFailed
  | SignalFailed
  | WaitFailed wait_error
  | HealthError string

record EngineHealthStatus =
  Healthy :: bool
  Latency :: duration
  Reason :: string

text \<open>
  The state every engine of the agent keeps; the running command is known by the identifier of
  its process.  \<open>engine_config\<close> is the zero configuration until the first \<open>Configure\<close>.
\<close>

record engine_state =
  configDir :: string
  configPath :: string
  engine_config :: EngineConfig
  cmd :: "nat option"

type_synonym engine = "engine_state \<times> machine"

record engine_api =
  api_Configure :: "op_env \<Rightarrow> EngineConfig \<Rightarrow> engine \<Rightarrow> (engine_error + string) \<times> engine"
  api_Start :: "op_env \<Rightarrow> engine \<Rightarrow> engine_error option \<times> engine"
  api_Reload :: "op_env \<Rightarrow> engine \<Rightarrow> engine_error option \<times> engine"
  api_Stop :: "op_env \<Rightarrow> engine \<Rightarrow> engine_error option \<times> engine"
  api_HealthStatus :: "op_env \<Rightarrow> engine \<Rightarrow> EngineHealthStatus \<times> engine_error option"
  api_HealthCheck :: "op_env \<Rightarrow> engine \<Rightarrow> bool \<times> engine_error option"
  api_Capabilities :: EngineCapabilities
  api_Name :: string

definition tracked :: "engine \<Rightarrow> nat option" where "tracked e = cmd (fst e)"
definition living :: "engine \<Rightarrow> nat set" where "living e = alive (snd e)"
definition sound :: "engine \<Rightarrow> bool" where "sound e \<longleftrightarrow> machine_ok (snd e)"

text \<open>The configuration file an engine process would read: the file at the engine's path.\<close>

definition installed :: "engine \<Rightarrow> string option" where
  "installed e = (if configPath (fst e) = '''' then None else map_get (files (snd e)) (configPath (fst e)))"

text \<open>Everything but the configuration and its file.\<close>

definition same_processes :: "engine \<Rightarrow> engine \<Rightarrow> bool" where
  "same_processes e e' \<longleftrightarrow>
     tracked e' = tracked e \<and> processes (snd e') = processes (snd e) \<and> next_pid (snd e') = next_pid (snd e)"

lemmas contract_defs = tracked_def living_def sound_def installed_def same_processes_def

lemma same_processes_living: "same_processes e e' \<Longrightarrow> living e' = living e \<and> tracked e' = tracked e"
  by (simp add: same_processes_def living_def alive_def)

lemma same_processes_sound: "same_processes e e' \<Longrightarrow> sound e' = sound e"
  by (simp add: same_processes_def sound_def machine_ok_def alive_def)

lemma same_processes_refl [simp]: "same_processes e e"
  by (simp add: same_processes_def)

subsection \<open>The contract\<close>

text \<open>What a sequence of calls does; \<open>Crash\<close> is a process that ends on its own.\<close>

datatype engine_call =
    CallConfigure op_env EngineConfig
  | CallStart op_env
  | CallReload op_env
  | CallStop op_env
  | Crash nat

definition crash :: "nat \<Rightarrow> engine \<Rightarrow> engine" where
  "crash pid e = (fst e, reap pid (snd e))"

definition engine_step :: "engine_api \<Rightarrow> engine \<Rightarrow> engine_call \<Rightarrow> engine" where
  "engine_step api e c =
     (case c of
        CallConfigure env cfg \<Rightarrow> snd (api_Configure api env cfg e)
      | CallStart env \<Rightarrow> snd (api_Start api env e)
      | CallReload env \<Rightarrow> snd (api_Reload api env e)
      | CallStop env \<Rightarrow> snd (api_Stop api env e)
      | Crash pid \<Rightarrow> crash pid e)"

text \<open>A call in which the operating system refuses to deliver the signal.\<close>

fun signal_refused :: "engine_call \<Rightarrow> bool" where
  "signal_refused (CallStop env) \<longleftrightarrow> signal_result env = SignalFails"
| "signal_refused _ \<longleftrightarrow> False"

text \<open>A call whose context has ended; stopping is possible all the same.\<close>

fun call_ended :: "engine_call \<Rightarrow> bool" where
  "call_ended (CallStart env) \<longleftrightarrow> ctx_ended env"
| "call_ended _ \<longleftrightarrow> True"

lemma living_crash: "living (crash pid e) = living e - {pid}"
  by (simp add: crash_def living_def)

definition one_process :: "engine \<Rightarrow> bool" where
  "one_process e \<longleftrightarrow> sound e \<and> living e \<subseteq> set_option (tracked e)"

locale engine_contract =
  fixes api :: engine_api
    and render_config :: "EngineConfig \<Rightarrow> render_error + string"
    and normal_form :: "EngineConfig \<Rightarrow> EngineConfig"
    and path_of :: "engine \<Rightarrow> string"
  assumes configure_done: "api_Configure api env cfg e = (Inr path, e') \<Longrightarrow>
      same_processes e e' \<and> path = path_of e \<and> path_of e' = path_of e \<and> engine_config (fst e') = normal_form cfg \<and>
      (\<exists>text. render_config cfg = Inr text \<and> installed e' = Some text)"
    and configure_failed: "api_Configure api env cfg e = (Inl er, e') \<Longrightarrow>
      fst e' = fst e \<and> same_processes e e' \<and> (er \<noteq> WriteFailed \<longrightarrow> e' = e)"
    and configure_refuses: "render_config cfg = Inl bad \<Longrightarrow> \<exists>er e'. api_Configure api env cfg e = (Inl er, e')"
    and start_done: "api_Start api env e = (None, e') \<Longrightarrow> sound e \<Longrightarrow>
      tracked e = None \<and> sound e' \<and>
      (\<exists>pid. pid \<notin> living e \<and> tracked e' = Some pid \<and> living e' = insert pid (living e)) \<and>
      installed e' = installed e \<and> engine_config (fst e') = engine_config (fst e)"
    and start_failed: "api_Start api env e = (Some er, e') \<Longrightarrow> e' = e"
    and start_configured: "configPath (fst e) \<noteq> '''' \<Longrightarrow> tracked e = None \<Longrightarrow> \<not> ctx_ended env \<Longrightarrow> exec_ok env \<Longrightarrow>
      \<exists>e'. api_Start api env e = (None, e')"
    and start_ended: "ctx_ended env \<Longrightarrow> fst (api_Start api env e) \<noteq> None"
    and reload_keeps: "api_Reload api env e = (r, e') \<Longrightarrow> e' = e"
    and stop_result: "api_Stop api env e = (r, e') \<Longrightarrow>
      tracked e' = None \<and> engine_config (fst e') = engine_config (fst e) \<and>
      configPath (fst e') = configPath (fst e) \<and> installed e' = installed e \<and> (sound e \<longrightarrow> sound e') \<and>
      living e' = (if signal_result env = SignalFails then living e else living e - set_option (tracked e))"
    and health: "Healthy (fst (api_HealthStatus api env e)) \<longleftrightarrow>
      ListenAddr (engine_config (fst e)) \<noteq> '''' \<and> ListenPort (engine_config (fst e)) \<noteq> 0 \<and>
      ask_engine env (joinHostPort (ListenAddr (engine_config (fst e))) (itoa (ListenPort (engine_config (fst e)))))
        = Inr (Some RcodeSuccess)"
    and healthy_no_error: "Healthy (fst (api_HealthStatus api env e)) \<Longrightarrow> snd (api_HealthStatus api env e) = None"
    and health_check: "api_HealthCheck api env e =
      (Healthy (fst (api_HealthStatus api env e)), snd (api_HealthStatus api env e))"
begin

lemma stop_signalled:
  assumes "api_Stop api env e = (r, e')" "signal_result env \<noteq> SignalFails" "one_process e"
  shows "tracked e' = None \<and> living e' = {} \<and> one_process e'"
  using stop_result [OF assms(1)] assms(2,3) by (auto simp: one_process_def)

lemma one_process_configure: "one_process e \<Longrightarrow> one_process (snd (api_Configure api env cfg e))"
proof -
  obtain r e' where Pair: "api_Configure api env cfg e = (r, e')"
    by (cases "api_Configure api env cfg e" rule: prod.exhaust)
  assume "one_process e"
  moreover have "same_processes e e'"
    using configure_done configure_failed Pair by (cases r) blast+
  ultimately show ?thesis
    using same_processes_living [of e e'] same_processes_sound [of e e'] Pair by (simp add: one_process_def)
qed

lemma one_process_start: "one_process e \<Longrightarrow> one_process (snd (api_Start api env e))"
proof -
  obtain r e' where Pair: "api_Start api env e = (r, e')" by (cases "api_Start api env e" rule: prod.exhaust)
  assume one: "one_process e"
  show ?thesis
  proof (cases r)
    case None
    with start_done Pair one show ?thesis by (fastforce simp: one_process_def)
  next
    case (Some er)
    with start_failed [of env e er e'] Pair one show ?thesis by simp
  qed
qed

text \<open>At most one engine process runs, the one the engine knows of, as long as signals arrive.\<close>

lemma one_process_step:
  assumes "one_process e" "\<not> signal_refused c"
  shows "one_process (engine_step api e c)"
proof (cases c)
  case (CallStop env)
  obtain r e' where s: "api_Stop api env e = (r, e')" by (cases "api_Stop api env e" rule: prod.exhaust)
  from stop_signalled [OF s] CallStop assms s show ?thesis by (simp add: engine_step_def)
next
  case (CallReload env)
  obtain r e' where "api_Reload api env e = (r, e')" by (cases "api_Reload api env e" rule: prod.exhaust)
  with reload_keeps [OF this] CallReload assms show ?thesis by (simp add: engine_step_def)
next
  case (Crash pid)
  with assms show ?thesis
    by (auto simp: engine_step_def crash_def one_process_def sound_def living_def tracked_def)
qed (use assms one_process_configure one_process_start in \<open>simp_all add: engine_step_def\<close>)

lemma one_process_run:
  assumes "one_process e" "list_all (\<lambda>c. \<not> signal_refused c) cs"
  shows "one_process (foldl (engine_step api) e cs)"
  using assms by (induction cs arbitrary: e) (simp_all add: one_process_step)

text \<open>Once nothing lives, calls whose context has ended start nothing.\<close>

lemma ended_step:
  assumes "living e = {}" "call_ended c"
  shows "living (engine_step api e c) = {}"
proof (cases c)
  case (CallConfigure env cfg)
  obtain r e' where "api_Configure api env cfg e = (r, e')"
    by (cases "api_Configure api env cfg e" rule: prod.exhaust)
  moreover from this have "same_processes e e'"
    using configure_done configure_failed by (cases r) blast+
  ultimately show ?thesis using assms(1) CallConfigure same_processes_living by (simp add: engine_step_def)
next
  case (CallStart env)
  then obtain er e' where "api_Start api env e = (Some er, e')"
    using start_ended [of env e] assms(2) by (cases "api_Start api env e" rule: prod.exhaust) auto
  with start_failed [OF this] assms(1) CallStart show ?thesis by (simp add: engine_step_def)
next
  case (CallReload env)
  obtain r e' where "api_Reload api env e = (r, e')" by (cases "api_Reload api env e" rule: prod.exhaust)
  with reload_keeps [OF this] assms(1) CallReload show ?thesis by (simp add: engine_step_def)
next
  case (CallStop env)
  obtain r e' where "api_Stop api env e = (r, e')" by (cases "api_Stop api env e" rule: prod.exhaust)
  with stop_result [OF this] assms(1) CallStop show ?thesis by (auto simp: engine_step_def)
next
  case (Crash pid)
  with assms(1) show ?thesis by (simp add: engine_step_def living_crash)
qed

lemma ended_run: "living e = {} \<Longrightarrow> list_all call_ended cs \<Longrightarrow> living (foldl (engine_step api) e cs) = {}"
  by (induction cs arbitrary: e) (simp_all add: ended_step)

text \<open>
  When the signal is not delivered, the engine forgets a process that goes on running, and a
  restart adds a second one.
\<close>

lemma refused_signal_leaks:
  assumes e: "sound e" "living e = {pid}" "tracked e = Some pid" "configPath (fst e) \<noteq> ''''"
    and stop: "signal_result env = SignalFails" and start: "\<not> ctx_ended env'" "exec_ok env'"
  shows "\<exists>pid'. pid' \<noteq> pid \<and>
    living (engine_step api (engine_step api e (CallStop env)) (CallStart env')) = {pid, pid'} \<and>
    tracked (engine_step api (engine_step api e (CallStop env)) (CallStart env')) = Some pid'"
proof -
  obtain r e1 where s: "api_Stop api env e = (r, e1)" by (cases "api_Stop api env e" rule: prod.exhaust)
  from stop_result [OF s] e stop
  have e1: "tracked e1 = None" "living e1 = {pid}" "sound e1" "configPath (fst e1) \<noteq> ''''" by auto
  from start_configured [OF e1(4) e1(1) start] obtain e2 where t: "api_Start api env' e1 = (None, e2)" ..
  from start_done [OF t e1(3)] e1(2) obtain pid' where "pid' \<noteq> pid" "tracked e2 = Some pid'" "living e2 = {pid, pid'}"
    by auto
  with s t show ?thesis by (auto simp: engine_step_def)
qed

end

end
