(* ===== verification/EngineAdapter.thy ===== *)
theory EngineAdapter
  imports EngineContract
begin

section \<open>The common adapter of the engine back ends\<close>

text \<open>
  The four packages under \<open>pkg/engine\<close> hold copies of one adapter, which differ in the name and
  the configuration file of the engine, the command line, whether a control program is run to
  reload, and the capabilities.  \<open>adapter_api\<close> is that adapter as a reference definition; the
  contract of an engine is proved for it once, and each back end is shown equal to an instance.
\<close>

record engine_kind =
  kind_name :: string
  kind_file :: string
  kind_argv :: "engine_state \<Rightarrow> string list"
  kind_control :: bool
  kind_capabilities :: EngineCapabilities

definition adapter_configure ::
  "engine_kind \<Rightarrow> (EngineConfig \<Rightarrow> render_error + string) \<Rightarrow> (EngineConfig \<Rightarrow> EngineConfig) \<Rightarrow>
   op_env \<Rightarrow> EngineConfig \<Rightarrow> engine \<Rightarrow> (engine_error + string) \<times> engine" where
  "adapter_configure k render normal env config = (\<lambda>(e, w).
     if ctx_ended env then (Inl ContextEnded, (e, w))
     else case render config of
       Inl er \<Rightarrow> (Inl (RenderFailed er), (e, w))
     | Inr text \<Rightarrow>
         if \<not> mkdir_ok env then (Inl MkdirFailed, (e, w))
         else
           let path = path_join (configDir e) (kind_file k) in
           case write_result env of
             WriteBroken None \<Rightarrow> (Inl WriteFailed, (e, w))
           | WriteBroken (Some partial) \<Rightarrow> (Inl WriteFailed, (e, write_file path partial w))
           | Written \<Rightarrow>
               (Inr path, (e\<lparr>engine_config := normal config, configPath := path\<rparr>, write_file path text w)))"

definition adapter_start :: "engine_kind \<Rightarrow> op_env \<Rightarrow> engine \<Rightarrow> engine_error option \<times> engine" where
  "adapter_start k env = (\<lambda>(e, w).
     if cmd e \<noteq> None then (Some AlreadyRunning, (e, w))
     else if configPath e = '''' then (Some NotConfigured, (e, w))
     else if ctx_ended env then (Some ContextEnded, (e, w))
     else if \<not> exec_ok env then (Some StartFailed, (e, w))
     else
       let p = \<lparr>argv = kind_argv k e,
                stdout = NewLineWriter (kind_name k) ''stdout'' (op_clock env),
                stderr = NewLineWriter (kind_name k) ''stderr'' (op_clock env)\<rparr>
       in case spawn p w of (pid, w') \<Rightarrow> (None, (e\<lparr>cmd := Some pid\<rparr>, w')))"

definition adapter_reload :: "engine_kind \<Rightarrow> op_env \<Rightarrow> engine \<Rightarrow> engine_error option \<times> engine" where
  "adapter_reload k env e =
     (if kind_control k \<and> ctx_ended env then (Some ContextEnded, e)
      else if kind_control k \<and> \<not> control_ok env then (Some ReloadFailed, e)
      else (None, e))"

definition adapter_exit :: "op_env \<Rightarrow> engine_error option" where
  "adapter_exit env =
     (case wait_result env of
        WaitOtherError \<Rightarrow> Some (WaitFailed OtherWaitError)
      | ContextFirst \<Rightarrow> Some (WaitFailed ShutdownTimeout)
      | _ \<Rightarrow> None)"

definition adapter_stop :: "op_env \<Rightarrow> engine \<Rightarrow> engine_error option \<times> engine" where
  "adapter_stop env = (\<lambda>(e, w).
     case cmd e of
       None \<Rightarrow> (None, (e\<lparr>cmd := None\<rparr>, w))
     | Some pid \<Rightarrow>
         if signal_result env = SignalFails then (Some SignalFailed, (e\<lparr>cmd := None\<rparr>, w))
         else (adapter_exit env, (e\<lparr>cmd := None\<rparr>, reap pid w)))"

definition adapter_health ::
  "engine_kind \<Rightarrow> (int \<Rightarrow> string option) \<Rightarrow> op_env \<Rightarrow> engine \<Rightarrow> EngineHealthStatus \<times> engine_error option" where
  "adapter_health k rcodes env e =
     (let cfg = engine_config (fst e);
          ill = (\<lambda>latency reason. \<lparr>Healthy = False, Latency = latency, Reason = reason\<rparr>) in
      if ListenAddr cfg = '''' \<or> ListenPort cfg = 0
      then (ill 0 (kind_name k @ '' is not configured''), Some (HealthError (kind_name k @ '' is not configured'')))
      else
        let latency = time_sub (op_answered env) (op_started env)
        in case ask_engine env (joinHostPort (ListenAddr cfg) (itoa (ListenPort cfg))) of
             Inl er \<Rightarrow> (ill latency er, Some (HealthError er))
           | Inr None \<Rightarrow> (ill latency ''empty DNS response'', Some (HealthError ''empty DNS response''))
           | Inr (Some rc) \<Rightarrow>
               (if rc = RcodeSuccess then \<lparr>Healthy = True, Latency = latency, Reason = ''''\<rparr>
                else ill latency (''unexpected DNS rcode '' @ (case rcodes rc of None \<Rightarrow> '''' | Some s \<Rightarrow> s)), None))"

definition adapter_api ::
  "engine_kind \<Rightarrow> (EngineConfig \<Rightarrow> render_error + string) \<Rightarrow> (EngineConfig \<Rightarrow> EngineConfig) \<Rightarrow>
   (int \<Rightarrow> string option) \<Rightarrow> engine_api" where
  "adapter_api k render normal rcodes =
     \<lparr>api_Configure = adapter_configure k render normal, api_Start = adapter_start k,
      api_Reload = adapter_reload k, api_Stop = adapter_stop,
      api_HealthStatus = adapter_health k rcodes,
      api_HealthCheck = (\<lambda>env e. (Healthy (fst (adapter_health k rcodes env e)), snd (adapter_health k rcodes env e))),
      api_Capabilities = kind_capabilities k, api_Name = kind_name k\<rparr>"

lemmas adapter_defs = adapter_configure_def adapter_start_def adapter_reload_def adapter_exit_def
  adapter_stop_def adapter_health_def adapter_api_def

lemma adapter_api_simps [simp]:
  "api_Configure (adapter_api k render normal rcodes) = adapter_configure k render normal"
  "api_Start (adapter_api k render normal rcodes) = adapter_start k"
  "api_Reload (adapter_api k render normal rcodes) = adapter_reload k"
  "api_Stop (adapter_api k render normal rcodes) = adapter_stop"
  "api_HealthStatus (adapter_api k render normal rcodes) = adapter_health k rcodes"
  by (simp_all add: adapter_api_def)

subsection \<open>Its operations, case by case\<close>

lemma adapter_configure_done:
  "adapter_configure k render normal env cfg (e, w) = (Inr path, e') \<Longrightarrow>
   \<exists>text. render cfg = Inr text \<and> path = path_join (configDir e) (kind_file k) \<and>
     e' = (e\<lparr>engine_config := normal cfg, configPath := path\<rparr>, write_file path text w)"
  by (auto simp: adapter_configure_def Let_def
      split: if_splits sum.splits write_result.splits option.splits)

lemma adapter_configure_failed:
  "adapter_configure k render normal env cfg (e, w) = (Inl er, e') \<Longrightarrow>
   e' = (e, w) \<or> er = WriteFailed \<and> (\<exists>path text. e' = (e, write_file path text w))"
  by (auto simp: adapter_configure_def Let_def
      split: if_splits sum.splits write_result.splits option.splits)

lemma adapter_start_done:
  "adapter_start k env (e, w) = (None, e') \<Longrightarrow>
   cmd e = None \<and> (\<exists>p pid w'. spawn p w = (pid, w') \<and> e' = (e\<lparr>cmd := Some pid\<rparr>, w'))"
  by (auto simp: adapter_start_def Let_def split: if_splits prod.splits)

lemma adapter_stop_result:
  "adapter_stop env (e, w) = (r, e') \<Longrightarrow>
   e' = (e\<lparr>cmd := None\<rparr>,
         case cmd e of None \<Rightarrow> w | Some pid \<Rightarrow> if signal_result env = SignalFails then w else reap pid w)"
  by (auto simp: adapter_stop_def split: if_splits option.splits)

lemma map_get_write_file [simp]: "map_get (files (write_file path text w)) path = Some text"
  by (simp add: write_file_def go_map_simps)

lemma machine_files [simp]:
  "files (reap pid w) = files w" "spawn p w = (pid', w') \<Longrightarrow> files w' = files w"
  "processes (write_file path text w) = processes w" "next_pid (write_file path text w) = next_pid w"
  by (auto simp: reap_def spawn_def write_file_def)

lemma adapter_contract:
  assumes "kind_file k \<noteq> ''''"
  shows "engine_contract (adapter_api k render normal rcodes) render normal
    (\<lambda>e. path_join (configDir (fst e)) (kind_file k))"
proof unfold_locales
  fix env cfg and e e' :: engine and path
  assume "api_Configure (adapter_api k render normal rcodes) env cfg e = (Inr path, e')"
  then show "same_processes e e' \<and> path = path_join (configDir (fst e)) (kind_file k) \<and>
      path_join (configDir (fst e')) (kind_file k) = path_join (configDir (fst e)) (kind_file k) \<and>
      engine_config (fst e') = normal cfg \<and> (\<exists>text. render cfg = Inr text \<and> installed e' = Some text)"
    using assms adapter_configure_done [of k render normal env cfg "fst e" "snd e" path e']
    by (auto simp: contract_defs)
next
  fix env cfg and e e' :: engine and er
  assume "api_Configure (adapter_api k render normal rcodes) env cfg e = (Inl er, e')"
  then show "fst e' = fst e \<and> same_processes e e' \<and> (er \<noteq> WriteFailed \<longrightarrow> e' = e)"
    using adapter_configure_failed [of k render normal env cfg "fst e" "snd e" er e'] by (auto simp: contract_defs)
next
  fix cfg bad env and e :: engine
  assume "render cfg = Inl bad"
  then show "\<exists>er e'. api_Configure (adapter_api k render normal rcodes) env cfg e = (Inl er, e')"
    by (auto simp: adapter_configure_def split: prod.splits)
next
  fix env :: op_env and e e' :: engine
  assume "api_Start (adapter_api k render normal rcodes) env e = (None, e')" and "sound e"
  then show "tracked e = None \<and> sound e' \<and>
      (\<exists>pid. pid \<notin> living e \<and> tracked e' = Some pid \<and> living e' = insert pid (living e)) \<and>
      installed e' = installed e \<and> engine_config (fst e') = engine_config (fst e)"
    using adapter_start_done [of k env "fst e" "snd e" e']
    by (auto simp: contract_defs intro: machine_ok_spawn dest: spawn_fresh)
next
  fix env :: op_env and e e' :: engine and er
  assume "api_Start (adapter_api k render normal rcodes) env e = (Some er, e')"
  then show "e' = e"
    by (cases e) (auto simp: adapter_start_def Let_def split: if_splits prod.splits)
next
  fix env :: op_env and e :: engine
  assume "configPath (fst e) \<noteq> ''''" "tracked e = None" "\<not> ctx_ended env" "exec_ok env"
  then show "\<exists>e'. api_Start (adapter_api k render normal rcodes) env e = (None, e')"
    by (cases e) (auto simp: adapter_start_def tracked_def Let_def split: prod.splits)
next
  fix env :: op_env and e :: engine
  assume "ctx_ended env"
  then show "fst (api_Start (adapter_api k render normal rcodes) env e) \<noteq> None"
    by (cases e) (auto simp: adapter_start_def)
next
  fix env :: op_env and e e' :: engine and r
  assume "api_Reload (adapter_api k render normal rcodes) env e = (r, e')"
  then show "e' = e" by (auto simp: adapter_reload_def split: if_splits)
next
  fix env :: op_env and e e' :: engine and r
  assume "api_Stop (adapter_api k render normal rcodes) env e = (r, e')"
  then show "tracked e' = None \<and> engine_config (fst e') = engine_config (fst e) \<and>
      configPath (fst e') = configPath (fst e) \<and> installed e' = installed e \<and> (sound e \<longrightarrow> sound e') \<and>
      living e' = (if signal_result env = SignalFails then living e else living e - set_option (tracked e))"
    using adapter_stop_result [of env "fst e" "snd e" r e']
    by (auto simp: contract_defs split: option.splits)
next
  fix env :: op_env and e :: engine
  assume "Healthy (fst (api_HealthStatus (adapter_api k render normal rcodes) env e))"
  then show "snd (api_HealthStatus (adapter_api k render normal rcodes) env e) = None"
    by (auto simp: adapter_health_def Let_def split: sum.split_asm option.split_asm if_split_asm)
qed (auto simp: adapter_defs RcodeSuccess_def Let_def split: sum.splits option.splits)

end
