(* ===== verification/BindConfig.thy ===== *)
theory BindConfig
  imports ConfigContract
begin

section \<open>The configuration of Bind\<close>

text \<open>
  \<open>pkg/engine/bind/config.go\<close>: an engine configuration is normalized, checked against what the
  engine can do and rendered by a template of the types package.  The number of processors
  (\<open>runtime.NumCPU\<close>) is an argument.
\<close>

subsection \<open>The model\<close>

definition defaultPortForTransport :: "string \<Rightarrow> int" where
  "defaultPortForTransport transport =
     (if transport = UpstreamTransportDoT then 853
      else if transport = UpstreamTransportDoH then 443
      else 53)"

definition normalizeUpstreamTransport :: "string \<Rightarrow> string" where
  "normalizeUpstreamTransport transport =
     (let trimmed = to_lower (trim_space transport) in
      if trimmed = UpstreamTransportDoT then UpstreamTransportDoT
      else if trimmed = UpstreamTransportDoH then UpstreamTransportDoH
      else UpstreamTransportDNS)"

definition normalizeDNSSECMode :: "string \<Rightarrow> string" where
  "normalizeDNSSECMode mode =
     (let trimmed = to_lower (trim_space mode) in
      if trimmed = DNSSECModeProcess then DNSSECModeProcess
      else if trimmed = DNSSECModeValidate then DNSSECModeValidate
      else DNSSECModeOff)"

definition normalizeWorkerThreads :: "int \<Rightarrow> int \<Rightarrow> int" where
  "normalizeWorkerThreads cpus value =
     (if value > 256 then 256
      else if value > 0 then value
      else
        let auto = wrap32 cpus in
        if auto \<le> 0 then 2 else if auto > 256 then 256 else auto)"

text \<open>The body of the loop over the upstreams.\<close>

definition normalizeUpstream :: "UpstreamConfig \<Rightarrow> UpstreamConfig" where
  "normalizeUpstream u0 =
     (let u1 = u0\<lparr>Transport := normalizeUpstreamTransport (Transport u0)\<rparr>;
          u2 = (if Port u1 = 0 then u1\<lparr>Port := defaultPortForTransport (Transport u1)\<rparr> else u1);
          u3 = (if Transport u2 = UpstreamTransportDNS then u2\<lparr>TLSServerName := ''''\<rparr> else u2);
          u4 = (if Weight u3 \<le> 0 then u3\<lparr>Weight := 1\<rparr> else u3)
      in if Preference u4 \<le> 0 then u4\<lparr>Preference := 100\<rparr> else u4)"

definition normalizeConfig :: "int \<Rightarrow> EngineConfig \<Rightarrow> EngineConfig" where
  "normalizeConfig cpus config =
     config\<lparr>WorkerThreads := normalizeWorkerThreads cpus (WorkerThreads config),
            DNSSEC := (DNSSEC config)\<lparr>Mode := normalizeDNSSECMode (Mode (DNSSEC config))\<rparr>,
            Upstreams := map normalizeUpstream (Upstreams config)\<rparr>"

fun bind_transports :: "nat \<Rightarrow> UpstreamConfig list \<Rightarrow> compat_error option" where
  "bind_transports i [] = None"
| "bind_transports i (u # us) =
     (if Transport u \<noteq> UpstreamTransportDNS then Some (TransportNotSupported i)
      else bind_transports (Suc i) us)"

definition validateBindCompatibility :: "EngineConfig \<Rightarrow> compat_error option" where
  "validateBindCompatibility config = bind_transports 0 (Upstreams config)"

definition RenderConfig :: "('d, 't) template_lib \<Rightarrow> int \<Rightarrow> EngineConfig \<Rightarrow> render_error + string" where
  "RenderConfig lib cpus config =
     (let normalized = normalizeConfig cpus config in
      case validateBindCompatibility normalized of
        Some er \<Rightarrow> Inl (Incompatible er)
      | None \<Rightarrow>
          (case ValidateTemplateConfig lib normalized of
             Some er \<Rightarrow> Inl (InvalidTemplateConfig er)
           | None \<Rightarrow>
               (let data = NewTemplateData lib normalized in
                case parse_template lib ''bind'' (BindConfigTemplate lib) of
                  Inl er \<Rightarrow> Inl (TemplateError er)
                | Inr tmpl \<Rightarrow>
                    (case execute_template lib tmpl data of
                       Inl er \<Rightarrow> Inl (TemplateError er)
                     | Inr buf \<Rightarrow> Inr buf))))"

subsection \<open>Normal forms\<close>

lemma bind_normalizeUpstream_fields [simp]:
  "Address (normalizeUpstream u) = Address u"
  "Transport (normalizeUpstream u) = normalizeUpstreamTransport (Transport u)"
  by (simp_all add: normalizeUpstream_def Let_def)

lemma bind_normalizeUpstreamTransport_normal: "normal_transport (normalizeUpstreamTransport t)"
  by (simp add: normalizeUpstreamTransport_def normal_transport_def Let_def)

lemmas normalizeUpstreamTransport_cases =
  bind_normalizeUpstreamTransport_normal [unfolded normal_transport_def insert_iff empty_iff simp_thms]

lemma bind_defaultPort_pos: "0 < defaultPortForTransport t"
  by (simp add: defaultPortForTransport_def)

lemma bind_normalizeUpstream_normal: "normal_upstream (normalizeUpstream u)"
  using bind_normalizeUpstreamTransport_normal [of "Transport u"] bind_defaultPort_pos
  by (auto simp: normal_upstream_def normalizeUpstream_def Let_def less_le)

lemma bind_normalizeConfig_normal: "normal_config (normalizeConfig cpus c)"
  by (auto simp: normal_config_def normalizeConfig_def normalizeWorkerThreads_def normalizeDNSSECMode_def
      normal_mode_def Let_def bind_normalizeUpstream_normal)

lemma bind_normalizeConfig_service: "same_service (normalizeConfig cpus c) c"
  by (simp add: same_service_def normalizeConfig_def)

text \<open>A normal configuration is left as it is.\<close>

lemma bind_normalizeUpstream_id:
  assumes "normal_upstream u"
  shows "normalizeUpstream u = u"
proof -
  have "normalizeUpstreamTransport (Transport u) = Transport u"
    using assms(1) by (auto simp: normal_upstream_def normal_transport_def normalizeUpstreamTransport_def)
  with assms show ?thesis
    by (intro UpstreamConfig.equality) (simp_all add: normal_upstream_def normalizeUpstream_def Let_def)
qed

lemma bind_normalizeConfig_id:
  assumes "normal_config c"
  shows "normalizeConfig cpus c = c"
proof -
  have "map normalizeUpstream (Upstreams c) = Upstreams c"
    using assms bind_normalizeUpstream_id by (intro map_idI) (auto simp: normal_config_def)
  with assms(1) show ?thesis
    by (auto simp: normalizeConfig_def normal_config_def normal_mode_def normalizeDNSSECMode_def
        normalizeWorkerThreads_def mode_trimmed dnssec_mode_distinct Let_def)
qed

lemma bind_render_compatible:
  "RenderConfig lib cpus c = Inr text \<Longrightarrow> validateBindCompatibility (normalizeConfig cpus c) = None"
  by (auto simp: RenderConfig_def Let_def split: option.splits)

lemma bind_render_incompatible:
  "validateBindCompatibility (normalizeConfig cpus c) = Some er \<Longrightarrow>
   RenderConfig lib cpus c = Inl (Incompatible er)"
  by (simp add: RenderConfig_def)

lemma bind_render_refuses_iff:
  "(\<exists>er. RenderConfig lib cpus c = Inl (Incompatible er)) \<longleftrightarrow>
   validateBindCompatibility (normalizeConfig cpus c) \<noteq> None"
  by (auto simp: RenderConfig_def Let_def split: option.splits sum.splits)

subsection \<open>Compatibility\<close>

lemma bind_transports_None: "bind_transports i us = None \<longleftrightarrow> (\<forall>u\<in>set us. Transport u = UpstreamTransportDNS)"
  by (induction i us rule: bind_transports.induct) auto

lemma validateBindCompatibility_iff:
  "validateBindCompatibility c = None \<longleftrightarrow> (\<forall>u\<in>set (Upstreams c). Transport u = UpstreamTransportDNS)"
  by (simp add: validateBindCompatibility_def bind_transports_None)

end
