(* ===== verification/PowerDNSEngine.thy ===== *)
theory PowerDNSEngine
  imports PowerDNSConfig EngineAdapter
begin

section \<open>The PowerDNS engine\<close>

text \<open>
  \<open>pkg/engine/powerdns/engine.go\<close>: the life cycle of the engine's process.  Each operation takes what
  the operating system answers (\<open>op_env\<close>) and the engine with its machine.
\<close>

subsection \<open>The model\<close>

type_synonym PowerDNSEngine = engine_state

definition NewPowerDNSEngine :: "string \<Rightarrow> PowerDNSEngine" where
  "NewPowerDNSEngine dir = \<lparr>configDir = dir, configPath = '''', engine_config = zero_config, cmd = None\<rparr>"

definition Configure :: "('d, 't) template_lib \<Rightarrow> int \<Rightarrow> op_env \<Rightarrow> EngineConfig \<Rightarrow> engine \<Rightarrow>
    (engine_error + string) \<times> engine" where
  "Configure lib cpus env config = (\<lambda>(e, w).
     if ctx_ended env then (Inl ContextEnded, (e, w))
     else case RenderConfig lib cpus config of
       Inl er \<Rightarrow> (Inl (RenderFailed er), (e, w))
     | Inr rendered \<Rightarrow>
         if \<not> mkdir_ok env then (Inl MkdirFailed, (e, w))
         else
           let path = path_join (configDir e) ''recursor.conf'' in
           case write_result env of
             WriteBroken None \<Rightarrow> (Inl WriteFailed, (e, w))
           | WriteBroken (Some partial) \<Rightarrow> (Inl WriteFailed, (e, write_file path partial w))
           | Written \<Rightarrow>
               (Inr path, (e\<lparr>engine_config := normalizeConfig cpus config, configPath := path\<rparr>,
                           write_file path rendered w)))"

definition Start :: "op_env \<Rightarrow> engine \<Rightarrow> engine_error option \<times> engine" where
  "Start env = (\<lambda>(e, w).
     if cmd e \<noteq> None then (Some AlreadyRunning, (e, w))
     else if configPath e = '''' then (Some NotConfigured, (e, w))
     else if ctx_ended env then (Some ContextEnded, (e, w))
     else if \<not> exec_ok env then (Some StartFailed, (e, w))
     else
       let p = \<lparr>argv = [''pdns_recursor'', ''--config-dir='' @ configDir e],
                stdout = NewLineWriter ''powerdns'' ''stdout'' (op_clock env),
                stderr = NewLineWriter ''powerdns'' ''stderr'' (op_clock env)\<rparr>
       in case spawn p w of (pid, w') \<Rightarrow> (None, (e\<lparr>cmd := Some pid\<rparr>, w')))"

definition Reload :: "op_env \<Rightarrow> engine \<Rightarrow> engine_error option \<times> engine" where
  "Reload env e =
     (if ctx_ended env then (Some ContextEnded, e)
      else if \<not> control_ok env then (Some ReloadFailed, e)
      else (None, e))"

text \<open>
  A process that does not end before the context does is killed and waited for, so \<open>waitForExit\<close>
  always returns after its end.
\<close>

definition waitForExit :: "op_env \<Rightarrow> nat \<Rightarrow> machine \<Rightarrow> wait_error option \<times> machine" where
  "waitForExit env pid w =
     (case wait_result env of
        WaitNil \<Rightarrow> (None, reap pid w)
      | WaitExitError \<Rightarrow> (Some ExitError, reap pid w)
      | WaitOtherError \<Rightarrow> (Some OtherWaitError, reap pid w)
      | ContextFirst \<Rightarrow> (Some ShutdownTimeout, reap pid w))"

definition isExpectedExit :: "wait_error \<Rightarrow> bool" where
  "isExpectedExit er \<longleftrightarrow> er = ExitError"

definition Stop :: "op_env \<Rightarrow> engine \<Rightarrow> engine_error option \<times> engine" where
  "Stop env = (\<lambda>(e, w).
     let c = cmd e; e1 = e\<lparr>cmd := None\<rparr> in
     case c of
       None \<Rightarrow> (None, (e1, w))
     | Some pid \<Rightarrow>
         if signal_result env = SignalFails then (Some SignalFailed, (e1, w))
         else
           (case waitForExit env pid w of
              (None, w') \<Rightarrow> (None, (e1, w'))
            | (Some er, w') \<Rightarrow>
                if \<not> isExpectedExit er then (Some (WaitFailed er), (e1, w')) else (None, (e1, w'))))"

definition Capabilities :: EngineCapabilities where
  "Capabilities = \<lparr>SupportsHotReload = True,
     SupportedTransports = [UpstreamTransportDNS],
     SupportedDNSSECModes = [DNSSECModeOff, DNSSECModeProcess, DNSSECModeValidate],
     SupportsTLSServerName = False, SupportsWeightedUpstreams = True, SupportsPriorityUpstreams = True\<rparr>"

definition HealthStatus :: "(int \<Rightarrow> string option) \<Rightarrow> op_env \<Rightarrow> engine \<Rightarrow> EngineHealthStatus \<times> engine_error option" where
  "HealthStatus rcodes env = (\<lambda>(e, w).
     let listenAddr = ListenAddr (engine_config e); listenPort = ListenPort (engine_config e) in
     if listenAddr = '''' \<or> listenPort = 0
     then (\<lparr>Healthy = False, Latency = 0, Reason = ''powerdns is not configured''\<rparr>,
           Some (HealthError ''powerdns is not configured''))
     else
       let resp = ask_engine env (joinHostPort listenAddr (itoa listenPort));
           latency = time_sub (op_answered env) (op_started env)
       in case resp of
            Inl er \<Rightarrow> (\<lparr>Healthy = False, Latency = latency, Reason = er\<rparr>, Some (HealthError er))
          | Inr None \<Rightarrow>
              (\<lparr>Healthy = False, Latency = latency, Reason = ''empty DNS response''\<rparr>,
               Some (HealthError ''empty DNS response''))
          | Inr (Some rc) \<Rightarrow>
              if rc \<noteq> RcodeSuccess then
                (\<lparr>Healthy = False, Latency = latency, Reason = ''unexpected DNS rcode '' @
                    (case rcodes rc of None \<Rightarrow> '''' | Some s \<Rightarrow> s)\<rparr>, None)
              else (\<lparr>Healthy = True, Latency = latency, Reason = ''''\<rparr>, None))"

definition HealthCheck :: "(int \<Rightarrow> string option) \<Rightarrow> op_env \<Rightarrow> engine \<Rightarrow> bool \<times> engine_error option" where
  "HealthCheck rcodes env e = (case HealthStatus rcodes env e of (status, er) \<Rightarrow> (Healthy status, er))"

definition Name :: string where "Name = ''powerdns''"

text \<open>The method set of the type, as the agent gets it from the registry.\<close>

definition methods :: "(int \<Rightarrow> string option) \<Rightarrow> ('d, 't) template_lib \<Rightarrow> int \<Rightarrow> engine_api" where
  "methods rcodes lib cpus = \<lparr>api_Configure = Configure lib cpus, api_Start = Start, api_Reload = Reload,
     api_Stop = Stop, api_HealthStatus = HealthStatus rcodes, api_HealthCheck = HealthCheck rcodes,
     api_Capabilities = Capabilities, api_Name = Name\<rparr>"

subsection \<open>The contract\<close>

lemmas engine_defs = Configure_def Start_def Reload_def Stop_def waitForExit_def isExpectedExit_def
  HealthStatus_def HealthCheck_def methods_def

interpretation powerdns_config: config_backend normalizeConfig validatePowerDNSCompatibility RenderConfig Capabilities
proof unfold_locales
  show "normal_config (normalizeConfig cpus c)" for cpus c by (rule powerdns_normalizeConfig_normal)
  show "same_service (normalizeConfig cpus c) c" for cpus c by (rule powerdns_normalizeConfig_service)
  show "normal_config c \<Longrightarrow> validatePowerDNSCompatibility c = None \<Longrightarrow> advertised Capabilities c" for c
    by (auto simp: validatePowerDNSCompatibility_iff advertised_def Capabilities_def normal_defs)
qed (simp_all add: powerdns_render_compatible powerdns_render_incompatible)

text \<open>The package is an instance of the common adapter.\<close>

definition powerdns_kind :: engine_kind where
  "powerdns_kind = \<lparr>kind_name = ''powerdns'', kind_file = ''recursor.conf'', kind_argv = (\<lambda>e. [''pdns_recursor'', ''--config-dir='' @ configDir e]),
     kind_control = True, kind_capabilities = Capabilities\<rparr>"

lemma powerdns_methods_adapter:
  "methods rcodes lib cpus = adapter_api powerdns_kind (RenderConfig lib cpus) (normalizeConfig cpus) rcodes"
  by (simp add: engine_defs adapter_defs powerdns_kind_def Name_def fun_eq_iff Let_def split_beta
      split: option.splits sum.splits wait_result.splits)

interpretation powerdns: engine_contract "methods rcodes lib cpus" "RenderConfig lib cpus" "normalizeConfig cpus"
  "\<lambda>e. path_join (configDir (fst e)) ''recursor.conf''" for rcodes lib cpus
  using adapter_contract [of powerdns_kind "RenderConfig lib cpus" "normalizeConfig cpus" rcodes]
  by (simp add: powerdns_methods_adapter powerdns_kind_def)

end
