(* ===== verification/CoreDNSConfig.thy ===== *)
theory CoreDNSConfig
  imports ConfigContract
begin

section \<open>The configuration of CoreDNS\<close>

text \<open>
  \<open>pkg/engine/coredns/config.go\<close>: an engine configuration is normalized, checked against what the
  engine can do and rendered by a template of the types package.  The number of processors
  (\<open>runtime.NumCPU\<close>) is an argument.
\<close>

subsection \<open>The model\<close>

definition defaultPortForTransport :: "string \<Rightarrow> int" where
  "defaultPortForTransport transport =
     (if transport = UpstreamTransportDoT then 853
      else if transport = UpstreamTransportDoH then 443
      else 53)"

definition normalizeUpstreamTransport :: "string \<Rightarrow> string" where
  "normalizeUpstreamTransport transport =
     (let trimmed = to_lower (trim_space transport) in
      if trimmed = UpstreamTransportDoT then UpstreamTransportDoT
      else if trimmed = UpstreamTransportDoH then UpstreamTransportDoH
      else UpstreamTransportDNS)"

definition normalizeDNSSECMode :: "string \<Rightarrow> string" where
  "normalizeDNSSECMode mode =
     (let trimmed = to_lower (trim_space mode) in
      if trimmed = DNSSECModeProcess then DNSSECModeProcess
      else if trimmed = DNSSECModeValidate then DNSSECModeValidate
      else DNSSECModeOff)"

definition normalizeWorkerThreads :: "int \<Rightarrow> int \<Rightarrow> int" where
  "normalizeWorkerThreads cpus value =
     (if value > 256 then 256
      else if value > 0 then value
      else
        let auto = wrap32 cpus in
        if auto \<le> 0 then 2 else if auto > 256 then 256 else auto)"

definition defaultTLSServerName :: "string \<Rightarrow> string" where
  "defaultTLSServerName address =
     (let trimmed = trim_suffix (trim_space address) ''.'' in
      if trimmed = '''' then ''''
      else if parseAddr trimmed then ''''
      else trimmed)"

text \<open>The body of the loop over the upstreams.\<close>

definition normalizeUpstream :: "UpstreamConfig \<Rightarrow> UpstreamConfig" where
  "normalizeUpstream u0 =
     (let u1 = u0\<lparr>Transport := normalizeUpstreamTransport (Transport u0)\<rparr>;
          u2 = (if Port u1 = 0 then u1\<lparr>Port := defaultPortForTransport (Transport u1)\<rparr> else u1);
          u3 = u2\<lparr>TLSServerName := trim_space (TLSServerName u2)\<rparr>;
          u4 = (if Transport u3 \<noteq> UpstreamTransportDNS \<and> TLSServerName u3 = ''''
                then u3\<lparr>TLSServerName := defaultTLSServerName (Address u3)\<rparr> else u3);
          u5 = (if Transport u4 = UpstreamTransportDNS then u4\<lparr>TLSServerName := ''''\<rparr> else u4);
          u6 = (if Weight u5 \<le> 0 then u5\<lparr>Weight := 1\<rparr> else u5)
      in if Preference u6 \<le> 0 then u6\<lparr>Preference := 100\<rparr> else u6)"

definition normalizeConfig :: "int \<Rightarrow> EngineConfig \<Rightarrow> EngineConfig" where
  "normalizeConfig cpus config =
     config\<lparr>WorkerThreads := normalizeWorkerThreads cpus (WorkerThreads config),
            DNSSEC := (DNSSEC config)\<lparr>Mode := normalizeDNSSECMode (Mode (DNSSEC config))\<rparr>,
            Upstreams := map normalizeUpstream (Upstreams config)\<rparr>"

text \<open>The loop over the upstreams, with the set of server names met so far.\<close>

fun coredns_names :: "nat \<Rightarrow> string list \<Rightarrow> UpstreamConfig list \<Rightarrow> compat_error + string list" where
  "coredns_names i seen [] = Inr seen"
| "coredns_names i seen (u # us) =
     (if Transport u \<notin> {UpstreamTransportDNS, UpstreamTransportDoT, UpstreamTransportDoH}
      then Inl (TransportNotSupported i)
      else if Transport u = UpstreamTransportDNS then coredns_names (Suc i) seen us
      else if TLSServerName u = '''' then coredns_names (Suc i) seen us
      else coredns_names (Suc i) (List.insert (TLSServerName u) seen) us)"

definition validateCoreDNSCompatibility :: "EngineConfig \<Rightarrow> compat_error option" where
  "validateCoreDNSCompatibility config =
     (if Mode (DNSSEC config) \<noteq> DNSSECModeOff then Some (ModeNotSupported (Mode (DNSSEC config)))
      else
        (case coredns_names 0 [] (Upstreams config) of
           Inl er \<Rightarrow> Some er
         | Inr seenTLSServerNames \<Rightarrow>
             if length seenTLSServerNames > 1 then Some SeveralServerNames else None))"

definition RenderConfig :: "('d, 't) template_lib \<Rightarrow> int \<Rightarrow> EngineConfig \<Rightarrow> render_error + string" where
  "RenderConfig lib cpus config =
     (let normalized = normalizeConfig cpus config in
      case validateCoreDNSCompatibility normalized of
        Some er \<Rightarrow> Inl (Incompatible er)
      | None \<Rightarrow>
          (case ValidateTemplateConfig lib normalized of
             Some er \<Rightarrow> Inl (InvalidTemplateConfig er)
           | None \<Rightarrow>
               (let data = NewTemplateData lib normalized in
                case parse_template lib ''coredns'' (CorefileTemplate lib) of
                  Inl er \<Rightarrow> Inl (TemplateError er)
                | Inr tmpl \<Rightarrow>
                    (case execute_template lib tmpl data of
                       Inl er \<Rightarrow> Inl (TemplateError er)
                     | Inr buf \<Rightarrow> Inr buf))))"

subsection \<open>Normal forms\<close>

lemma coredns_normalizeUpstream_fields [simp]:
  "Address (normalizeUpstream u) = Address u"
  "Transport (normalizeUpstream u) = normalizeUpstreamTransport (Transport u)"
  by (simp_all add: normalizeUpstream_def Let_def)

lemma coredns_normalizeUpstreamTransport_normal: "normal_transport (normalizeUpstreamTransport t)"
  by (simp add: normalizeUpstreamTransport_def normal_transport_def Let_def)

lemmas normalizeUpstreamTransport_cases =
  coredns_normalizeUpstreamTransport_normal [unfolded normal_transport_def insert_iff empty_iff simp_thms]

lemma coredns_defaultPort_pos: "0 < defaultPortForTransport t"
  by (simp add: defaultPortForTransport_def)

lemma coredns_normalizeUpstream_normal: "normal_upstream (normalizeUpstream u)"
  using coredns_normalizeUpstreamTransport_normal [of "Transport u"] coredns_defaultPort_pos
  by (auto simp: normal_upstream_def normalizeUpstream_def Let_def less_le)

lemma coredns_normalizeConfig_normal: "normal_config (normalizeConfig cpus c)"
  by (auto simp: normal_config_def normalizeConfig_def normalizeWorkerThreads_def normalizeDNSSECMode_def
      normal_mode_def Let_def coredns_normalizeUpstream_normal)

lemma coredns_normalizeConfig_service: "same_service (normalizeConfig cpus c) c"
  by (simp add: same_service_def normalizeConfig_def)

text \<open>A configuration whose server names are trimmed is left as it is once it is normal.\<close>

lemma coredns_normalizeUpstream_id:
  assumes "normal_upstream u"
    and "trim_space (TLSServerName u) = TLSServerName u"
    and "Transport u \<noteq> UpstreamTransportDNS \<and> TLSServerName u = '''' \<longrightarrow> defaultTLSServerName (Address u) = ''''"
  shows "normalizeUpstream u = u"
proof -
  have "normalizeUpstreamTransport (Transport u) = Transport u"
    using assms(1) by (auto simp: normal_upstream_def normal_transport_def normalizeUpstreamTransport_def)
  with assms show ?thesis
    by (intro UpstreamConfig.equality) (simp_all add: normal_upstream_def normalizeUpstream_def Let_def)
qed

lemma coredns_normalizeConfig_id:
  assumes "normal_config c"
    and "\<And>u. u \<in> set (Upstreams c) \<Longrightarrow> trim_space (TLSServerName u) = TLSServerName u"
    and "\<And>u. u \<in> set (Upstreams c) \<Longrightarrow> Transport u \<noteq> UpstreamTransportDNS \<and> TLSServerName u = '''' \<longrightarrow>
      defaultTLSServerName (Address u) = ''''"
  shows "normalizeConfig cpus c = c"
proof -
  have "map normalizeUpstream (Upstreams c) = Upstreams c"
    using assms coredns_normalizeUpstream_id by (intro map_idI) (auto simp: normal_config_def)
  with assms(1) show ?thesis
    by (auto simp: normalizeConfig_def normal_config_def normal_mode_def normalizeDNSSECMode_def
        normalizeWorkerThreads_def mode_trimmed dnssec_mode_distinct Let_def)
qed

lemma coredns_render_compatible:
  "RenderConfig lib cpus c = Inr text \<Longrightarrow> validateCoreDNSCompatibility (normalizeConfig cpus c) = None"
  by (auto simp: RenderConfig_def Let_def split: option.splits)

lemma coredns_render_incompatible:
  "validateCoreDNSCompatibility (normalizeConfig cpus c) = Some er \<Longrightarrow>
   RenderConfig lib cpus c = Inl (Incompatible er)"
  by (simp add: RenderConfig_def)

lemma coredns_render_refuses_iff:
  "(\<exists>er. RenderConfig lib cpus c = Inl (Incompatible er)) \<longleftrightarrow>
   validateCoreDNSCompatibility (normalizeConfig cpus c) \<noteq> None"
  by (auto simp: RenderConfig_def Let_def split: option.splits sum.splits)

subsection \<open>Compatibility\<close>

definition encrypted_names :: "UpstreamConfig list \<Rightarrow> string set" where
  "encrypted_names us = {TLSServerName u | u. u \<in> set us \<and> Transport u \<noteq> UpstreamTransportDNS \<and> TLSServerName u \<noteq> ''''}"

lemma encrypted_names_Cons:
  "encrypted_names (u # us) =
     (if Transport u = UpstreamTransportDNS \<or> TLSServerName u = '''' then encrypted_names us
      else insert (TLSServerName u) (encrypted_names us))"
  by (auto simp: encrypted_names_def)

lemma coredns_names_step:
  "coredns_names i seen (u # us) =
     (if \<not> normal_transport (Transport u) then Inl (TransportNotSupported i)
      else if Transport u = UpstreamTransportDNS \<or> TLSServerName u = '''' then coredns_names (Suc i) seen us
      else coredns_names (Suc i) (List.insert (TLSServerName u) seen) us)"
  by (simp add: normal_transport_def)

lemma coredns_names_result:
  "coredns_names i seen us = Inr names \<Longrightarrow> distinct seen \<Longrightarrow>
     distinct names \<and> set names = set seen \<union> encrypted_names us \<and> (\<forall>u\<in>set us. normal_transport (Transport u))"
proof (induction us arbitrary: i seen)
  case Nil
  then show ?case by (simp add: encrypted_names_def)
next
  case (Cons u us)
  show ?case
  proof (cases "Transport u = UpstreamTransportDNS \<or> TLSServerName u = ''''")
    case True
    with Cons.prems have "normal_transport (Transport u)" "coredns_names (Suc i) seen us = Inr names"
      by (auto simp: coredns_names_step simp del: coredns_names.simps split: if_splits)
    with Cons.IH Cons.prems(2) True show ?thesis by (simp add: encrypted_names_Cons)
  next
    case False
    with Cons.prems have "normal_transport (Transport u)"
      "coredns_names (Suc i) (List.insert (TLSServerName u) seen) us = Inr names"
      by (auto simp: coredns_names_step simp del: coredns_names.simps split: if_splits)
    with Cons.IH Cons.prems(2) False show ?thesis by (simp add: encrypted_names_Cons)
  qed
qed

lemma coredns_names_error:
  "coredns_names i seen us = Inl er \<Longrightarrow> \<exists>u\<in>set us. \<not> normal_transport (Transport u)"
  by (induction us arbitrary: i seen)
    (auto simp: coredns_names_step simp del: coredns_names.simps(2) split: if_splits)

text \<open>CoreDNS takes every transport, no DNSSEC and at most one name for its encrypted upstreams.\<close>

lemma validateCoreDNSCompatibility_iff:
  "validateCoreDNSCompatibility c = None \<longleftrightarrow>
     Mode (DNSSEC c) = DNSSECModeOff \<and> (\<forall>u\<in>set (Upstreams c). normal_transport (Transport u)) \<and>
     card (encrypted_names (Upstreams c)) \<le> 1"
proof (cases "coredns_names 0 [] (Upstreams c)")
  case (Inl er)
  then show ?thesis
    using coredns_names_error [OF Inl] by (auto simp: validateCoreDNSCompatibility_def)
next
  case (Inr names)
  have "card (encrypted_names (Upstreams c)) = length names"
    using coredns_names_result [OF Inr] distinct_card [of names] by simp
  with Inr coredns_names_result [OF Inr] show ?thesis
    by (auto simp: validateCoreDNSCompatibility_def)
qed

end
