(* ===== verification/Engines.thy ===== *)
theory Engines
  imports UnboundEngine BindEngine PowerDNSEngine CoreDNSEngine
begin

section \<open>The registered engines\<close>

text \<open>
  The \<open>init\<close> function of each package under \<open>pkg/engine\<close> registers its engine under its name;
  the registry itself is the types package's.  The properties here hold of every entry.
\<close>

definition registered ::
  "(int \<Rightarrow> string option) \<Rightarrow> ('d, 't) template_lib \<Rightarrow> int \<Rightarrow> (string \<times> engine_api \<times> (string \<Rightarrow> engine_state)) list" where
  "registered rcodes lib cpus =
     [(UnboundEngine.Name, UnboundEngine.methods rcodes lib cpus, NewUnboundEngine),
      (BindEngine.Name, BindEngine.methods rcodes lib cpus, NewBindEngine),
      (PowerDNSEngine.Name, PowerDNSEngine.methods rcodes lib cpus, NewPowerDNSEngine),
      (CoreDNSEngine.Name, CoreDNSEngine.methods rcodes lib cpus, NewCoreDNSEngine)]"

lemmas engine_names = UnboundEngine.Name_def BindEngine.Name_def PowerDNSEngine.Name_def CoreDNSEngine.Name_def
lemmas new_engine_defs = NewUnboundEngine_def NewBindEngine_def NewPowerDNSEngine_def NewCoreDNSEngine_def

text \<open>Rendering and normal form of a registered engine.\<close>

definition renderer :: "('d, 't) template_lib \<Rightarrow> int \<Rightarrow> string \<Rightarrow> EngineConfig \<Rightarrow> render_error + string" where
  "renderer lib cpus name =
     (if name = UnboundEngine.Name then UnboundConfig.RenderConfig lib cpus
      else if name = BindEngine.Name then BindConfig.RenderConfig lib cpus
      else if name = PowerDNSEngine.Name then PowerDNSConfig.RenderConfig lib cpus
      else CoreDNSConfig.RenderConfig lib cpus)"

definition normalizer :: "int \<Rightarrow> string \<Rightarrow> EngineConfig \<Rightarrow> EngineConfig" where
  "normalizer cpus name =
     (if name = UnboundEngine.Name then UnboundConfig.normalizeConfig cpus
      else if name = BindEngine.Name then BindConfig.normalizeConfig cpus
      else if name = PowerDNSEngine.Name then PowerDNSConfig.normalizeConfig cpus
      else CoreDNSConfig.normalizeConfig cpus)"

definition config_file :: "string \<Rightarrow> string" where
  "config_file name =
     (if name = UnboundEngine.Name then ''unbound.conf''
      else if name = BindEngine.Name then ''named.conf''
      else if name = PowerDNSEngine.Name then ''recursor.conf''
      else ''Corefile'')"

text \<open>The contract holds of every registered engine.\<close>

lemma registered_contract:
  assumes "(name, api, new) \<in> set (registered rcodes lib cpus)"
  shows "engine_contract api (renderer lib cpus name) (normalizer cpus name)
    (\<lambda>e. path_join (configDir (fst e)) (config_file name))"
  using assms unbound.engine_contract_axioms [of rcodes lib cpus] bind.engine_contract_axioms [of rcodes lib cpus]
    powerdns.engine_contract_axioms [of rcodes lib cpus] coredns.engine_contract_axioms [of rcodes lib cpus]
  by (auto simp: registered_def renderer_def normalizer_def config_file_def engine_names)

lemma registered_new:
  assumes "(name, api, new) \<in> set (registered rcodes lib cpus)"
  shows "new dir = \<lparr>configDir = dir, configPath = '''', engine_config = zero_config, cmd = None\<rparr>"
  using assms by (auto simp: registered_def new_engine_defs)

lemma registered_capabilities:
  assumes "(name, api, new) \<in> set (registered rcodes lib cpus)" and "renderer lib cpus name c = Inr out"
  shows "normal_config (normalizer cpus name c) \<and> advertised (api_Capabilities api) (normalizer cpus name c)"
  using assms unbound_config.rendered_within_capabilities [of lib cpus c out]
    bind_config.rendered_within_capabilities [of lib cpus c out]
    powerdns_config.rendered_within_capabilities [of lib cpus c out]
    coredns_config.rendered_within_capabilities [of lib cpus c out]
  by (auto simp: registered_def renderer_def normalizer_def engine_names
      UnboundEngine.methods_def BindEngine.methods_def PowerDNSEngine.methods_def CoreDNSEngine.methods_def split: if_splits)

end
