(* ===== verification/EngineProperties.thy ===== *)
theory EngineProperties
  imports Engines
begin

section \<open>Properties of the engines\<close>

text \<open>A library of templates and an environment for the examples: every call succeeds.\<close>

definition sample_templates :: "(string, string) template_lib" where
  "sample_templates =
     \<lparr>ValidateTemplateConfig = (\<lambda>_. None), NewTemplateData = ListenAddr,
      parse_template = (\<lambda>name body. Inr (name @ body)), execute_template = (\<lambda>tmpl d. Inr (tmpl @ d)),
      UnboundConfigTemplate = ''U'', BindConfigTemplate = ''B'', RecursorConfTemplate = ''P'',
      CorefileTemplate = ''C''\<rparr>"

definition calm :: op_env where
  "calm = \<lparr>ctx_ended = False, mkdir_ok = True, write_result = Written, exec_ok = True, control_ok = True,
     signal_result = Signalled, wait_result = WaitExitError, ask_engine = (\<lambda>_. Inr (Some 0)),
     op_started = 0, op_answered = 1, op_clock = (\<lambda>_. 0)\<rparr>"

definition deaf :: op_env where "deaf = calm\<lparr>signal_result := SignalFails\<rparr>"

definition plain_upstream :: UpstreamConfig where
  "plain_upstream = \<lparr>Address = ''9.9.9.9'', Port = 0, Transport = '''', TLSServerName = '''', Weight = 0, Preference = 0\<rparr>"

definition plain_config :: EngineConfig where
  "plain_config = zero_config\<lparr>Upstreams := [plain_upstream], ListenAddr := ''127.0.0.1'', ListenPort := 5354\<rparr>"

definition empty_machine :: machine where
  "empty_machine = \<lparr>processes = [], next_pid = 1, files = []\<rparr>"

lemma empty_machine_ok [simp]: "machine_ok empty_machine"
  by (simp add: machine_ok_def empty_machine_def alive_def)

abbreviation sample_unbound :: engine_api where
  "sample_unbound \<equiv> UnboundEngine.methods (RcodeToString sample_lib) sample_templates 4"

lemma sample_registered:
  "(''unbound'', sample_unbound, NewUnboundEngine) \<in> set (registered (RcodeToString sample_lib) sample_templates 4)"
  by (simp add: registered_def UnboundEngine.Name_def)

lemma sample_rendered:
  "renderer sample_templates 4 ''unbound'' plain_config = Inr ''unboundU127.0.0.1''"
  by code_simp

text \<open>
  C9.  At most one engine process runs: whatever the operating system answers to any sequence of
  calls, and whenever the process ends on its own, the only process alive is the one the engine
  knows of, as long as no signal is refused.
\<close>

theorem one_engine_process:
  assumes "(name, api, new) \<in> set (registered rcodes lib cpus)"
    and "machine_ok w" and "processes w = []" and "list_all (\<lambda>c. \<not> signal_refused c) calls"
  shows "living (foldl (engine_step api) (new dir, w) calls) \<subseteq>
      set_option (tracked (foldl (engine_step api) (new dir, w) calls)) \<and>
    card (living (foldl (engine_step api) (new dir, w) calls)) \<le> 1"
proof -
  have "one_process (new dir, w)"
    using assms(2,3) by (simp add: one_process_def contract_defs alive_def)
  then have "one_process (foldl (engine_step api) (new dir, w) calls)"
    by (rule engine_contract.one_process_run [OF registered_contract [OF assms(1)] _ assms(4)])
  then have sub: "living (foldl (engine_step api) (new dir, w) calls) \<subseteq>
      set_option (tracked (foldl (engine_step api) (new dir, w) calls))"
    by (simp add: one_process_def)
  show ?thesis
    using sub by (cases "tracked (foldl (engine_step api) (new dir, w) calls)") (auto dest: subset_singletonD)
qed

lemma one_engine_process_witness:
  "card (living (foldl (engine_step sample_unbound) (NewUnboundEngine ''/run'', empty_machine)
     [CallConfigure calm plain_config, CallStart calm, CallStop calm, CallStart calm])) \<le> 1 \<and>
   tracked (foldl (engine_step sample_unbound) (NewUnboundEngine ''/run'', empty_machine)
     [CallConfigure calm plain_config, CallStart calm, CallStop calm, CallStart calm]) = Some 2"
proof
  show "card (living (foldl (engine_step sample_unbound) (NewUnboundEngine ''/run'', empty_machine)
     [CallConfigure calm plain_config, CallStart calm, CallStop calm, CallStart calm])) \<le> 1"
    using one_engine_process [OF sample_registered empty_machine_ok, of
        "[CallConfigure calm plain_config, CallStart calm, CallStop calm, CallStart calm]" "''/run''"]
    by (simp add: empty_machine_def calm_def)
  show "tracked (foldl (engine_step sample_unbound) (NewUnboundEngine ''/run'', empty_machine)
     [CallConfigure calm plain_config, CallStart calm, CallStop calm, CallStart calm]) = Some 2"
    by code_simp
qed

text \<open>
  C38.  When the signal to the engine process is refused, \<open>Stop\<close> has already forgotten the
  process: it runs on, and the next \<open>Start\<close> adds a second one that competes for the same port.
\<close>

theorem refused_signal_leaks_process:
  assumes "(name, api, new) \<in> set (registered rcodes lib cpus)"
    and "sound e" "living e = {pid}" "tracked e = Some pid" "configPath (fst e) \<noteq> ''''"
    and "signal_result env = SignalFails" "\<not> ctx_ended env'" "exec_ok env'"
  shows "\<exists>pid'. pid' \<noteq> pid \<and>
    living (engine_step api (engine_step api e (CallStop env)) (CallStart env')) = {pid, pid'} \<and>
    tracked (engine_step api (engine_step api e (CallStop env)) (CallStart env')) = Some pid'"
  by (rule engine_contract.refused_signal_leaks [OF registered_contract [OF assms(1)] assms(2-8)])

lemma refused_signal_leaks_process_witness:
  "\<exists>pid'. pid' \<noteq> 1 \<and> living (engine_step sample_unbound (engine_step sample_unbound
      (foldl (engine_step sample_unbound) (NewUnboundEngine ''/run'', empty_machine)
        [CallConfigure calm plain_config, CallStart calm]) (CallStop deaf)) (CallStart calm)) = {1, pid'}"
proof -
  define e where "e = foldl (engine_step sample_unbound) (NewUnboundEngine ''/run'', empty_machine)
    [CallConfigure calm plain_config, CallStart calm]"
  have "tracked e = Some 1" "map fst (processes (snd e)) = [1]" "next_pid (snd e) = 2"
    "configPath (fst e) = ''/run/unbound.conf''" unfolding e_def by code_simp+
  moreover from this have "living e = {1}"
    by (metis living_def alive_def image_set list.simps(15) set_empty2 empty_set)
  moreover from calculation have "sound e"
    by (simp only: sound_def machine_ok_def map_ok_def living_def) simp
  ultimately show ?thesis
    unfolding e_def [symmetric] using refused_signal_leaks_process [OF sample_registered, of e 1 deaf calm]
    by (auto simp: deaf_def calm_def)
qed

text \<open>
  \<open>Configure\<close> is all or nothing up to a broken write: on success the file at the path it
  returns holds the rendered text and the engine has the normalized configuration, for its health
  queries; on an error the engine keeps its configuration, and unless the write itself broke so
  does the disk.  No process is touched.
\<close>

theorem configure_installs:
  assumes "(name, api, new) \<in> set (registered rcodes lib cpus)"
    and "api_Configure api env cfg (e, w) = (r, (e', w'))"
  shows "processes w' = processes w \<and> cmd e' = cmd e \<and>
    (case r of
       Inr path \<Rightarrow> path = path_join (configDir e) (config_file name) \<and> engine_config e' = normalizer cpus name cfg \<and>
         (\<exists>out. renderer lib cpus name cfg = Inr out \<and> installed (e', w') = Some out)
     | Inl er \<Rightarrow> e' = e \<and> (er = WriteFailed \<or> w' = w))"
  using engine_contract.configure_done [OF registered_contract [OF assms(1)], of env cfg "(e, w)"]
    engine_contract.configure_failed [OF registered_contract [OF assms(1)], of env cfg "(e, w)"] assms(2)
  by (cases r) (auto simp: same_processes_def tracked_def)

lemma configure_installs_witness:
  "\<exists>e w. api_Configure sample_unbound calm plain_config (NewUnboundEngine ''/run'', empty_machine)
      = (Inr ''/run/unbound.conf'', (e, w)) \<and> installed (e, w) = Some ''unboundU127.0.0.1''"
proof -
  obtain r e w where run: "api_Configure sample_unbound calm plain_config (NewUnboundEngine ''/run'', empty_machine)
      = (r, (e, w))" by (metis prod.collapse)
  have "fst (api_Configure sample_unbound calm plain_config (NewUnboundEngine ''/run'', empty_machine))
      = Inr ''/run/unbound.conf''" by code_simp
  with run have r: "r = Inr ''/run/unbound.conf''" by simp
  from configure_installs [OF sample_registered run] run r sample_rendered show ?thesis by auto
qed

text \<open>
  C30.  What each engine refuses to be configured for, in terms of the configuration it is given:
  Unbound DNS over HTTPS and mixtures of plain DNS with DNS over TLS, BIND and PowerDNS every
  encrypted transport, CoreDNS every DNSSEC mode but off and encrypted upstreams with more than
  one server name.
\<close>

theorem refused_configurations:
  "((\<exists>er. UnboundConfig.RenderConfig lib cpus c = Inl (Incompatible er)) \<longleftrightarrow>
      (\<exists>u\<in>set (Upstreams c). UnboundConfig.normalizeUpstreamTransport (Transport u) = UpstreamTransportDoH) \<or>
      (\<exists>u\<in>set (Upstreams c). UnboundConfig.normalizeUpstreamTransport (Transport u) = UpstreamTransportDNS) \<and>
      (\<exists>u\<in>set (Upstreams c). UnboundConfig.normalizeUpstreamTransport (Transport u) = UpstreamTransportDoT)) \<and>
   ((\<exists>er. BindConfig.RenderConfig lib cpus c = Inl (Incompatible er)) \<longleftrightarrow>
      (\<exists>u\<in>set (Upstreams c). BindConfig.normalizeUpstreamTransport (Transport u) \<noteq> UpstreamTransportDNS)) \<and>
   ((\<exists>er. PowerDNSConfig.RenderConfig lib cpus c = Inl (Incompatible er)) \<longleftrightarrow>
      (\<exists>u\<in>set (Upstreams c). PowerDNSConfig.normalizeUpstreamTransport (Transport u) \<noteq> UpstreamTransportDNS)) \<and>
   ((\<exists>er. CoreDNSConfig.RenderConfig lib cpus c = Inl (Incompatible er)) \<longleftrightarrow>
      CoreDNSConfig.normalizeDNSSECMode (Mode (DNSSEC c)) \<in> {DNSSECModeProcess, DNSSECModeValidate} \<or>
      1 < card (encrypted_names (map CoreDNSConfig.normalizeUpstream (Upstreams c))))"
proof (intro conjI)
  show "(\<exists>er. UnboundConfig.RenderConfig lib cpus c = Inl (Incompatible er)) \<longleftrightarrow>
      (\<exists>u\<in>set (Upstreams c). UnboundConfig.normalizeUpstreamTransport (Transport u) = UpstreamTransportDoH) \<or>
      (\<exists>u\<in>set (Upstreams c). UnboundConfig.normalizeUpstreamTransport (Transport u) = UpstreamTransportDNS) \<and>
      (\<exists>u\<in>set (Upstreams c). UnboundConfig.normalizeUpstreamTransport (Transport u) = UpstreamTransportDoT)"
    by (simp add: UnboundConfig.unbound_render_refuses_iff validateUnboundCompatibility_iff UnboundConfig.normalizeConfig_def)
      (metis UnboundConfig.normalizeUpstreamTransport_cases transport_distinct)
  show "(\<exists>er. BindConfig.RenderConfig lib cpus c = Inl (Incompatible er)) \<longleftrightarrow>
      (\<exists>u\<in>set (Upstreams c). BindConfig.normalizeUpstreamTransport (Transport u) \<noteq> UpstreamTransportDNS)"
    by (simp add: BindConfig.bind_render_refuses_iff validateBindCompatibility_iff BindConfig.normalizeConfig_def)
  show "(\<exists>er. PowerDNSConfig.RenderConfig lib cpus c = Inl (Incompatible er)) \<longleftrightarrow>
      (\<exists>u\<in>set (Upstreams c). PowerDNSConfig.normalizeUpstreamTransport (Transport u) \<noteq> UpstreamTransportDNS)"
    by (simp add: PowerDNSConfig.powerdns_render_refuses_iff validatePowerDNSCompatibility_iff PowerDNSConfig.normalizeConfig_def)
  have mode: "CoreDNSConfig.normalizeDNSSECMode m \<in> {DNSSECModeProcess, DNSSECModeValidate} \<longleftrightarrow>
      CoreDNSConfig.normalizeDNSSECMode m \<noteq> DNSSECModeOff" for m
    by (simp add: CoreDNSConfig.normalizeDNSSECMode_def Let_def)
  show "(\<exists>er. CoreDNSConfig.RenderConfig lib cpus c = Inl (Incompatible er)) \<longleftrightarrow>
      CoreDNSConfig.normalizeDNSSECMode (Mode (DNSSEC c)) \<in> {DNSSECModeProcess, DNSSECModeValidate} \<or>
      1 < card (encrypted_names (map CoreDNSConfig.normalizeUpstream (Upstreams c)))"
    unfolding mode using CoreDNSConfig.coredns_normalizeUpstreamTransport_normal
    by (auto simp: CoreDNSConfig.coredns_render_refuses_iff validateCoreDNSCompatibility_iff CoreDNSConfig.normalizeConfig_def)
qed

text \<open>
  C31.  Whatever is rendered is within what the engine advertises: a configuration for which
  rendering succeeds has, once normalized, only transports and a DNSSEC mode of the capabilities,
  positive weights and preferences, a port for every upstream and 1 to 256 threads.
\<close>

theorem rendered_is_advertised:
  assumes "(name, api, new) \<in> set (registered rcodes lib cpus)" and "renderer lib cpus name c = Inr out"
  shows "normal_config (normalizer cpus name c) \<and> advertised (api_Capabilities api) (normalizer cpus name c)"
  using assms by (rule registered_capabilities)

lemma rendered_is_advertised_witness:
  "normal_config (normalizer 4 ''unbound'' plain_config) \<and>
   advertised UnboundEngine.Capabilities (normalizer 4 ''unbound'' plain_config)"
  using rendered_is_advertised [OF sample_registered sample_rendered] by (simp add: UnboundEngine.methods_def)

text \<open>
  The four packages are one adapter: each method set is that of the reference definition
  with the package's name, file, command line, reload program and capabilities.
\<close>

theorem engines_share_adapter:
  "UnboundEngine.methods rcodes lib cpus = adapter_api unbound_kind (UnboundConfig.RenderConfig lib cpus)
     (UnboundConfig.normalizeConfig cpus) rcodes \<and>
   BindEngine.methods rcodes lib cpus = adapter_api bind_kind (BindConfig.RenderConfig lib cpus)
     (BindConfig.normalizeConfig cpus) rcodes \<and>
   PowerDNSEngine.methods rcodes lib cpus = adapter_api powerdns_kind (PowerDNSConfig.RenderConfig lib cpus)
     (PowerDNSConfig.normalizeConfig cpus) rcodes \<and>
   CoreDNSEngine.methods rcodes lib cpus = adapter_api coredns_kind (CoreDNSConfig.RenderConfig lib cpus)
     (CoreDNSConfig.normalizeConfig cpus) rcodes"
  by (intro conjI UnboundEngine.unbound_methods_adapter BindEngine.bind_methods_adapter PowerDNSEngine.powerdns_methods_adapter
      CoreDNSEngine.coredns_methods_adapter)

end
