(* ===== verification/GoStrconv.thy ===== *)
theory GoStrconv
  imports GoPath GoFloat
begin

section \<open>Parsing numbers and flags\<close>

text \<open>
  \<open>strconv.Atoi\<close>, \<open>ParseUint\<close> with base 10 and \<open>ParseBool\<close> of Go's standard library; an error is
  \<open>None\<close>, its callers only test for it.  An \<open>int\<close> has 64 bits.
\<close>

definition all_digits :: "string \<Rightarrow> bool" where
  "all_digits s \<longleftrightarrow> s \<noteq> '''' \<and> list_all digit_char s"

definition atoi :: "string \<Rightarrow> int option" where
  "atoi s =
     (let body = (if s \<noteq> '''' \<and> (hd s = CHR ''-'' \<or> hd s = CHR ''+'') then tl s else s);
          value = (if s \<noteq> '''' \<and> hd s = CHR ''-'' then - int (decimal_value body) else int (decimal_value body))
      in if \<not> all_digits body then None
         else if value < min_int64 \<or> value > max_int64 then None
         else Some value)"

definition parse_uint16 :: "string \<Rightarrow> nat option" where
  "parse_uint16 s =
     (if \<not> all_digits s then None
      else if decimal_value s > 65535 then None
      else Some (decimal_value s))"

definition parse_bool :: "string \<Rightarrow> bool option" where
  "parse_bool s =
     (if s \<in> {''1'', ''t'', ''T'', ''TRUE'', ''true'', ''True''} then Some True
      else if s \<in> {''0'', ''f'', ''F'', ''FALSE'', ''false'', ''False''} then Some False
      else None)"

lemma all_digits_decimal [simp]: "all_digits (decimal n)"
  using decimal_are_digits by (auto simp: all_digits_def list_all_iff)

lemma decimal_sign: "hd (decimal n) \<noteq> CHR ''-'' \<and> hd (decimal n) \<noteq> CHR ''+''"
proof -
  have "digit_char (hd (decimal n))" by (rule decimal_are_digits [of _ n]) simp
  then show ?thesis by (auto simp: digit_char_def byte_def)
qed

text \<open>Reading back what was printed.\<close>

lemma atoi_itoa: "min_int64 \<le> i \<Longrightarrow> i \<le> max_int64 \<Longrightarrow> atoi (itoa i) = Some i"
  using decimal_sign [of "nat i"] by (auto simp: atoi_def itoa_def decimal_value_decimal Let_def simp del: decimal_value.simps)

lemma atoi_range: "atoi s = Some i \<Longrightarrow> min_int64 \<le> i \<and> i \<le> max_int64"
  by (auto simp: atoi_def Let_def split: if_splits)

lemma parse_uint16_decimal: "n \<le> 65535 \<Longrightarrow> parse_uint16 (decimal n) = Some n"
  by (simp add: parse_uint16_def decimal_value_decimal del: decimal_value.simps)


subsection \<open>Durations\<close>

text \<open>
  \<open>time.ParseDuration\<close>: a sign and a sequence of decimal numbers, each with a unit.  The amounts
  are 64-bit unsigned integers: a number above \<open>2 ^ 63\<close> is an error, and the sum of two
  amounts wraps.
\<close>

definition duration_unit :: "string \<Rightarrow> int option" where
  "duration_unit u =
     (if u = ''ns'' then Some 1
      else if u = ''us'' \<or> u = [CHR 0xC2, CHR 0xB5, CHR ''s''] \<or> u = [CHR 0xCE, CHR 0xBC, CHR ''s''] then Some 1000
      else if u = ''ms'' then Some 1000000
      else if u = ''s'' then Some 1000000000
      else if u = ''m'' then Some 60000000000
      else if u = ''h'' then Some 3600000000000
      else None)"

definition leading_int :: "string \<Rightarrow> int" where
  "leading_int ds = foldl (\<lambda>n c. n * 10 + int (byte c - 48)) 0 ds"

definition leading_fraction :: "string \<Rightarrow> int \<times> f64" where
  "leading_fraction ds =
     (let (x, scale, _) = foldl (\<lambda>(x, scale, overflow) c.
          if overflow then (x, scale, overflow)
          else if x > (2 ^ 63 - 1) div 10 then (x, scale, True)
          else
            let y = x * 10 + int (byte c - 48) in
            if y > 2 ^ 63 then (x, scale, True) else (y, fmul scale 10, False)) (0, 1, False) ds
      in (x, scale))"

definition duration_amount :: "int \<Rightarrow> int \<times> f64 \<Rightarrow> int \<Rightarrow> int option" where
  "duration_amount v fraction unit =
     (let (f, scale) = fraction in
      if v > 2 ^ 63 div unit then None
      else
        let v1 = v * unit;
            v2 = (if f > 0 then v1 + f_trunc (fmul (f_of_int f) (fdiv (f_of_int unit) scale)) else v1)
        in if v2 > 2 ^ 63 then None else Some v2)"

text \<open>A number and its unit: the digits before and after the dot, and the rest of the text.\<close>

definition number_part :: "string \<Rightarrow> string \<times> string \<times> string" where
  "number_part s =
     (let s1 = dropWhile digit_char s in
      if s1 \<noteq> '''' \<and> hd s1 = CHR ''.''
      then (takeWhile digit_char s, takeWhile digit_char (tl s1), dropWhile digit_char (tl s1))
      else (takeWhile digit_char s, '''', s1))"

definition unit_char :: "char \<Rightarrow> bool" where
  "unit_char c \<longleftrightarrow> c \<noteq> CHR ''.'' \<and> \<not> digit_char c"

lemma dropWhile_shorter: "length (dropWhile P xs) \<le> length xs"
  by (induction xs) auto

lemma dropWhile_taken: "takeWhile P xs \<noteq> [] \<Longrightarrow> length (dropWhile P xs) < length xs"
  by (cases xs) (auto simp: less_Suc_eq_le dropWhile_shorter split: if_splits)

lemma number_part_shorter:
  assumes "(w, f, s') = number_part s"
  shows "length s' \<le> length s"
  using assms dropWhile_shorter [of digit_char s] dropWhile_shorter [of digit_char "tl (dropWhile digit_char s)"]
  by (auto simp: number_part_def Let_def split: if_splits)

function duration_units :: "int \<Rightarrow> string \<Rightarrow> int option" where
  "duration_units d s =
     (if s = '''' then Some d
      else if \<not> (hd s = CHR ''.'' \<or> digit_char (hd s)) then None
      else
        case number_part s of (whole, digits_after, s2) \<Rightarrow>
          if leading_int whole > 2 ^ 63 then None
          else if whole = '''' \<and> digits_after = '''' then None
          else if takeWhile unit_char s2 = '''' then None
          else
            case duration_unit (takeWhile unit_char s2) of
              None \<Rightarrow> None
            | Some u \<Rightarrow>
                (case duration_amount (leading_int whole) (leading_fraction digits_after) u of
                   None \<Rightarrow> None
                 | Some v \<Rightarrow>
                     if (d + v) mod 2 ^ 64 > 2 ^ 63 then None
                     else duration_units ((d + v) mod 2 ^ 64) (dropWhile unit_char s2)))"
  by pat_completeness auto

termination duration_units
  by (relation "measure (\<lambda>(_, s). length s)")
    (auto dest!: number_part_shorter dropWhile_taken simp del: takeWhile_eq_Nil_iff)

declare duration_units.simps [simp del]

definition parse_duration :: "string \<Rightarrow> duration option" where
  "parse_duration orig =
     (let signed = (orig \<noteq> '''' \<and> (hd orig = CHR ''-'' \<or> hd orig = CHR ''+''));
          neg = (signed \<and> hd orig = CHR ''-'');
          s = (if signed then tl orig else orig)
      in if s = ''0'' then Some 0
         else if s = '''' then None
         else case duration_units 0 s of
                None \<Rightarrow> None
              | Some d \<Rightarrow>
                  if neg then Some (- d)
                  else if d > 2 ^ 63 - 1 then None
                  else Some d)"

subsection \<open>Floating point numbers\<close>

text \<open>
  \<open>strconv.ParseFloat\<close> with 64 bits: decimal and hexadecimal numbers, with underscores between
  digits, correctly rounded.  Infinities, NaN and errors are \<open>None\<close>; the agent treats them alike.
\<close>

datatype underscore_state = AtStart | SawDigit | SawUnderscore | SawOther

fun underscores_step :: "bool \<Rightarrow> underscore_state option \<Rightarrow> char \<Rightarrow> underscore_state option" where
  "underscores_step hex None c = None"
| "underscores_step hex (Some i) c =
     (if digit_char c \<or> hex \<and> hex_char c then Some SawDigit
      else if c = CHR ''_'' then (if i \<noteq> SawDigit then None else Some SawUnderscore)
      else if i = SawUnderscore then None
      else Some SawOther)"

definition base_prefix :: "string \<Rightarrow> string \<Rightarrow> bool" where
  "base_prefix letters s \<longleftrightarrow> 2 \<le> length s \<and> s ! 0 = CHR ''0'' \<and> lower_char (s ! 1) \<in> set letters"

definition underscoreOK :: "string \<Rightarrow> bool" where
  "underscoreOK s0 =
     (let s = (if s0 \<noteq> '''' \<and> (hd s0 = CHR ''-'' \<or> hd s0 = CHR ''+'') then tl s0 else s0);
          prefix = base_prefix ''box'' s; hex = base_prefix ''x'' s
      in case foldl (underscores_step hex) (Some (if prefix then SawDigit else AtStart)) (if prefix then drop 2 s else s) of
           None \<Rightarrow> False
         | Some i \<Rightarrow> i \<noteq> SawUnderscore)"

definition hex_value :: "char \<Rightarrow> nat" where
  "hex_value c = (if digit_char c then byte c - 48 else byte (lower_char c) - 87)"

text \<open>The digits before the exponent: their value, how many follow the dot, whether there are any.\<close>

fun scan_mantissa :: "bool \<Rightarrow> bool \<Rightarrow> nat \<times> nat \<times> bool \<Rightarrow> string \<Rightarrow> (nat \<times> nat \<times> bool) \<times> string" where
  "scan_mantissa hex dot acc [] = (acc, [])"
| "scan_mantissa hex dot (m, f, any) (c # cs) =
     (if c = CHR ''_'' then scan_mantissa hex dot (m, f, any) cs
      else if c = CHR ''.'' then
        (if dot then ((m, f, any), c # cs) else scan_mantissa hex True (m, f, any) cs)
      else if digit_char c \<or> hex \<and> hex_char c then
        scan_mantissa hex dot (m * (if hex then 16 else 10) + hex_value c, if dot then Suc f else f, True) cs
      else ((m, f, any), c # cs))"

text \<open>The exponent after its letter; \<open>None\<close> when it has no digit.\<close>

definition scan_exponent :: "string \<Rightarrow> (int \<times> string) option" where
  "scan_exponent s =
     (let neg = (s \<noteq> '''' \<and> hd s = CHR ''-'');
          t = (if s \<noteq> '''' \<and> (hd s = CHR ''-'' \<or> hd s = CHR ''+'') then tl s else s);
          ds = takeWhile (\<lambda>c. digit_char c \<or> c = CHR ''_'') t;
          e = foldl (\<lambda>e c. if c = CHR ''_'' then e else if e < 10000 then e * 10 + int (byte c - 48) else e) 0 ds
      in if t = '''' \<or> \<not> digit_char (hd t) then None
         else Some (if neg then - e else e, drop (length ds) t))"

text \<open>The nearest float64, \<open>None\<close> when it is out of range; below \<open>2 ^ (-1022)\<close> the spacing is fixed.\<close>

definition nearest_float :: "rat \<Rightarrow> f64 option" where
  "nearest_float x =
     (if \<bar>x\<bar> < 2 powi (- 1022) then Some (of_int (round_even (x / 2 powi (- 1074))) * 2 powi (- 1074))
      else if 2 powi 1024 \<le> \<bar>rnd x\<bar> then None
      else Some (rnd x))"

definition parse_float :: "string \<Rightarrow> f64 option" where
  "parse_float s =
     (let neg = (s \<noteq> '''' \<and> hd s = CHR ''-'');
          s1 = (if s \<noteq> '''' \<and> (hd s = CHR ''-'' \<or> hd s = CHR ''+'') then tl s else s);
          hex = (3 \<le> length s1 \<and> base_prefix ''x'' s1);
          ((m, f, any), rest) = scan_mantissa hex False (0, 0, False) (if hex then drop 2 s1 else s1);
          expChar = (if hex then CHR ''p'' else CHR ''e'');
          exponent = (if rest \<noteq> '''' \<and> lower_char (hd rest) = expChar then scan_exponent (tl rest)
                      else if hex then None else Some (0, rest))
      in if \<not> any then None
         else case exponent of
                None \<Rightarrow> None
              | Some (e, left) \<Rightarrow>
                  if left \<noteq> '''' then None
                  else if CHR ''_'' \<in> set s \<and> \<not> underscoreOK s then None
                  else
                    let magnitude = (if hex then of_nat m * 2 powi (e - 4 * int f) else of_nat m * 10 powi (e - int f))
                    in nearest_float (if neg then - magnitude else magnitude))"

end
