(* ===== verification/AgentConfig.thy ===== *)
theory AgentConfig
  imports ConfigContract GoStrconv
begin

section \<open>Loading and validating the engine configuration\<close>

text \<open>
  The part of \<open>cmd/agent/main.go\<close> that turns the configuration file into an engine configuration
  and checks it.  Reading the file and decoding its JSON into the record of the types package
  are arguments; an \<open>int32\<close> of the file is an integer in its range.  \<open>net.SplitHostPort\<close> is
  \<open>GoNet.splitHostPort\<close>.
\<close>

subsection \<open>Host names and addresses\<close>

definition label_char_ok :: "string \<Rightarrow> nat \<Rightarrow> bool" where
  "label_char_ok label i =
     (let ch = label ! i;
          isLowerAlpha = (byte CHR ''a'' \<le> byte ch \<and> byte ch \<le> byte CHR ''z'');
          isDigit = (byte CHR ''0'' \<le> byte ch \<and> byte ch \<le> byte CHR ''9'');
          isHyphen = (ch = CHR ''-'')
      in if \<not> isLowerAlpha \<and> \<not> isDigit \<and> \<not> isHyphen then False
         else \<not> ((i = 0 \<or> i = length label - 1) \<and> isHyphen))"

definition isDNS1123Label :: "string \<Rightarrow> bool" where
  "isDNS1123Label label =
     (if length label = 0 \<or> length label > 63 then False
      else list_all (label_char_ok label) [0..<length label])"

definition isDNS1123Subdomain :: "string \<Rightarrow> bool" where
  "isDNS1123Subdomain value =
     (if length value = 0 \<or> length value > 253 then False
      else list_all isDNS1123Label (split_on CHR ''.'' value))"

definition looksLikeInvalidIPv4Literal :: "string \<Rightarrow> bool" where
  "looksLikeInvalidIPv4Literal value =
     (if count_list value CHR ''.'' \<noteq> 3 then False
      else list_all (\<lambda>r. \<not> (r \<noteq> CHR ''.'' \<and> (byte r < byte CHR ''0'' \<or> byte r > byte CHR ''9''))) value)"

definition isValidUpstreamAddress :: "string \<Rightarrow> bool" where
  "isValidUpstreamAddress address =
     (let trimmed = trim_space address in
      if trimmed = '''' then False
      else if parseAddr trimmed then True
      else if looksLikeInvalidIPv4Literal trimmed then False
      else isDNS1123Subdomain trimmed)"

definition defaultTLSServerName :: "string \<Rightarrow> string" where
  "defaultTLSServerName address =
     (let trimmed = trim_suffix (trim_space address) ''.'' in
      if trimmed = '''' then ''''
      else if parseAddr trimmed then ''''
      else if \<not> isDNS1123Subdomain (to_lower trimmed) then ''''
      else trimmed)"

subsection \<open>Keywords\<close>

definition parseUpstreamTransport :: "string \<Rightarrow> string \<times> bool" where
  "parseUpstreamTransport raw =
     (let trimmed = to_lower (trim_space raw) in
      if trimmed = '''' \<or> trimmed = UpstreamTransportDNS then (UpstreamTransportDNS, True)
      else if trimmed = UpstreamTransportDoT then (UpstreamTransportDoT, True)
      else if trimmed = UpstreamTransportDoH then (UpstreamTransportDoH, True)
      else ('''', False))"

definition defaultPortForTransport :: "string \<Rightarrow> int" where
  "defaultPortForTransport transport =
     (if transport = UpstreamTransportDoT then 853
      else if transport = UpstreamTransportDoH then 443
      else 53)"

definition isSupportedDNSSECMode :: "string \<Rightarrow> bool" where
  "isSupportedDNSSECMode mode =
     (to_lower (trim_space mode) \<in> {'''', DNSSECModeOff, DNSSECModeProcess, DNSSECModeValidate})"

subsection \<open>Validation\<close>

datatype config_error =
    EmptyListenAddr | BadListenPort | BadWorkerThreads | BadDNSSECMode | NoUpstreams
  | AddressWhitespace nat | BadAddress nat | BadTransport nat | BadPort nat
  | TLSServerNameWithDNS nat | BadTLSServerName nat | BadWeight nat | BadPreference nat
  | DuplicateUpstream nat string
  | BadMaxEntries | BadPositiveTtlMin | BadPositiveTtlMax | BadNegativeTtl | BadPrefetchThreshold | TtlMinAboveMax
  | EmptyAllowPattern nat | EmptyDenyPattern nat | BadFilterAction

definition effective_port :: "string \<Rightarrow> UpstreamConfig \<Rightarrow> int" where
  "effective_port transport u = (if Port u = 0 then defaultPortForTransport transport else Port u)"

definition upstream_key :: "string \<Rightarrow> string \<Rightarrow> int \<Rightarrow> string" where
  "upstream_key transport address port = transport @ '':'' @ address @ '':'' @ itoa port"

text \<open>The loop over the upstreams, with the keys seen so far.\<close>

fun validateUpstreams :: "nat \<Rightarrow> string list \<Rightarrow> UpstreamConfig list \<Rightarrow> config_error option" where
  "validateUpstreams i seen [] = None"
| "validateUpstreams i seen (u # us) =
     (let trimmedAddress = trim_space (Address u) in
      if Address u \<noteq> trimmedAddress then Some (AddressWhitespace i)
      else if \<not> isValidUpstreamAddress trimmedAddress then Some (BadAddress i)
      else
        case parseUpstreamTransport (Transport u) of (transport, ok) \<Rightarrow>
          if \<not> ok then Some (BadTransport i)
          else
            let port = effective_port transport u; tlsServerName = trim_space (TLSServerName u) in
            if port \<le> 0 \<or> port > 65535 then Some (BadPort i)
            else if transport = UpstreamTransportDNS \<and> tlsServerName \<noteq> '''' then Some (TLSServerNameWithDNS i)
            else if tlsServerName \<noteq> '''' \<and> \<not> isDNS1123Subdomain (trim_suffix (to_lower tlsServerName) ''.'')
            then Some (BadTLSServerName i)
            else if Weight u \<le> 0 \<or> Weight u > 100 then Some (BadWeight i)
            else if Preference u \<le> 0 \<or> Preference u > 1000 then Some (BadPreference i)
            else
              let key = upstream_key transport trimmedAddress port in
              if key \<in> set seen then Some (DuplicateUpstream i key)
              else validateUpstreams (Suc i) (key # seen) us)"

fun firstBlank :: "nat \<Rightarrow> string list \<Rightarrow> nat option" where
  "firstBlank i [] = None"
| "firstBlank i (p # ps) = (if trim_space p = '''' then Some i else firstBlank (Suc i) ps)"

definition validateCacheConfig :: "CacheConfig \<Rightarrow> config_error option" where
  "validateCacheConfig c =
     (if MaxEntries c \<le> 0 then Some BadMaxEntries
      else if PositiveTtlMin c \<le> 0 then Some BadPositiveTtlMin
      else if PositiveTtlMax c \<le> 0 then Some BadPositiveTtlMax
      else if NegativeTtl c \<le> 0 then Some BadNegativeTtl
      else if PrefetchThreshold c \<le> 0 then Some BadPrefetchThreshold
      else if PositiveTtlMin c > 0 \<and> PositiveTtlMax c > 0 \<and> PositiveTtlMin c > PositiveTtlMax c
      then Some TtlMinAboveMax
      else None)"

definition validateFilterConfig :: "DomainFilterConfig \<Rightarrow> config_error option" where
  "validateFilterConfig f =
     (case firstBlank 0 (Allow f) of
        Some i \<Rightarrow> Some (EmptyAllowPattern i)
      | None \<Rightarrow>
          (case firstBlank 0 (Deny f) of
             Some i \<Rightarrow> Some (EmptyDenyPattern i)
           | None \<Rightarrow>
               if Action f \<noteq> '''' \<and> Action f \<noteq> DomainFilterActionRefused \<and> Action f \<noteq> DomainFilterActionNXDomain
               then Some BadFilterAction else None))"

definition validateEngineConfig :: "EngineConfig \<Rightarrow> config_error option" where
  "validateEngineConfig cfg =
     (if trim_space (ListenAddr cfg) = '''' then Some EmptyListenAddr
      else if ListenPort cfg \<le> 0 \<or> ListenPort cfg > 65535 then Some BadListenPort
      else if WorkerThreads cfg \<le> 0 \<or> WorkerThreads cfg > 256 then Some BadWorkerThreads
      else if \<not> isSupportedDNSSECMode (Mode (DNSSEC cfg)) then Some BadDNSSECMode
      else if length (Upstreams cfg) = 0 then Some NoUpstreams
      else
        case validateUpstreams 0 [] (Upstreams cfg) of
          Some er \<Rightarrow> Some er
        | None \<Rightarrow>
            (case validateCacheConfig (Cache cfg) of
               Some er \<Rightarrow> Some er
             | None \<Rightarrow> validateFilterConfig (DomainFilter cfg)))"


subsection \<open>Loading\<close>

text \<open>\<open>os.ReadFile\<close> finds no file, fails otherwise or returns the contents.\<close>

datatype file_read = NotExist | ReadFails | Contents string

datatype load_error = ReadError | DecodeError

definition splitHostPort :: "string \<Rightarrow> string \<Rightarrow> int \<Rightarrow> string \<times> int" where
  "splitHostPort addr defaultHost defaultPort =
     (case GoNet.splitHostPort addr of
        None \<Rightarrow> (defaultHost, defaultPort)
      | Some (host, portText) \<Rightarrow>
          (case atoi portText of
             None \<Rightarrow> (defaultHost, defaultPort)
           | Some port \<Rightarrow> (if host = '''' then defaultHost else host, port)))"

definition resolveDefaultWorkerThreads :: "int \<Rightarrow> int" where
  "resolveDefaultWorkerThreads cpus =
     (let auto = wrap32 cpus in if auto \<le> 0 then 2 else if auto > 256 then 256 else auto)"

definition defaultEngineConfig :: "int \<Rightarrow> string \<Rightarrow> EngineConfig" where
  "defaultEngineConfig cpus engineAddr =
     (case splitHostPort engineAddr ''127.0.0.1'' 5354 of (host, port) \<Rightarrow>
        \<lparr>Upstreams = [\<lparr>Address = ''1.1.1.1'', Port = 53, Transport = UpstreamTransportDNS, TLSServerName = '''',
                       Weight = 1, Preference = 100\<rparr>],
         Cache = \<lparr>MaxEntries = 10000, PositiveTtlMin = 30, PositiveTtlMax = 300, NegativeTtl = 30,
                  PrefetchEnabled = True, PrefetchThreshold = 10\<rparr>,
         ListenAddr = host, ListenPort = wrap32 port, WorkerThreads = resolveDefaultWorkerThreads cpus,
         DNSSEC = \<lparr>Mode = DNSSECModeOff\<rparr>, DomainFilter = \<lparr>Allow = [], Deny = [], Action = ''''\<rparr>\<rparr>)"

text \<open>The body of the loop over the upstreams: transport and port, server name, weight and preference.\<close>

definition loadTransport :: "UpstreamConfig \<Rightarrow> UpstreamConfig" where
  "loadTransport u =
     (case parseUpstreamTransport (Transport u) of (t, ok) \<Rightarrow>
        let transport = (if \<not> ok then UpstreamTransportDNS else t);
            u1 = u\<lparr>Transport := transport\<rparr>
        in if Port u1 = 0 then u1\<lparr>Port := defaultPortForTransport (Transport u1)\<rparr> else u1)"

definition loadServerName :: "UpstreamConfig \<Rightarrow> UpstreamConfig" where
  "loadServerName u =
     (if Transport u = UpstreamTransportDNS then u\<lparr>TLSServerName := ''''\<rparr>
      else
        let v = u\<lparr>TLSServerName := trim_space (TLSServerName u)\<rparr> in
        if TLSServerName v = '''' then v\<lparr>TLSServerName := defaultTLSServerName (Address v)\<rparr> else v)"

definition loadWeights :: "UpstreamConfig \<Rightarrow> UpstreamConfig" where
  "loadWeights u =
     (let v = (if Weight u = 0 then u\<lparr>Weight := 1\<rparr> else u)
      in if Preference v = 0 then v\<lparr>Preference := 100\<rparr> else v)"

definition loadUpstream :: "UpstreamConfig \<Rightarrow> UpstreamConfig" where
  "loadUpstream u = loadWeights (loadServerName (loadTransport u))"

definition loadCache :: "CacheConfig \<Rightarrow> CacheConfig \<Rightarrow> CacheConfig" where
  "loadCache def c =
     (if MaxEntries c = 0 then def
      else c\<lparr>PositiveTtlMin := (if PositiveTtlMin c = 0 then PositiveTtlMin def else PositiveTtlMin c),
             PositiveTtlMax := (if PositiveTtlMax c = 0 then PositiveTtlMax def else PositiveTtlMax c),
             NegativeTtl := (if NegativeTtl c = 0 then NegativeTtl def else NegativeTtl c),
             PrefetchThreshold := (if PrefetchThreshold c = 0 then PrefetchThreshold def else PrefetchThreshold c)\<rparr>)"

definition applyDefaults :: "EngineConfig \<Rightarrow> EngineConfig \<Rightarrow> EngineConfig" where
  "applyDefaults def cfg =
     (let threads = (if WorkerThreads cfg = 0 then WorkerThreads def else WorkerThreads cfg) in
      cfg\<lparr>ListenAddr := (if ListenAddr cfg = '''' then ListenAddr def else ListenAddr cfg),
          ListenPort := (if ListenPort cfg = 0 then ListenPort def else ListenPort cfg),
          WorkerThreads := (if threads > 256 then 256 else threads),
          DNSSEC := (if \<not> isSupportedDNSSECMode (Mode (DNSSEC cfg)) \<or> trim_space (Mode (DNSSEC cfg)) = ''''
                     then DNSSEC def else DNSSEC cfg),
          Upstreams := map loadUpstream (if length (Upstreams cfg) = 0 then Upstreams def else Upstreams cfg),
          Cache := loadCache (Cache def) (Cache cfg)\<rparr>)"

definition loadEngineConfig ::
  "(string \<Rightarrow> EngineConfig option) \<Rightarrow> (string \<Rightarrow> file_read) \<Rightarrow> int \<Rightarrow> string \<Rightarrow> string \<Rightarrow> load_error + EngineConfig" where
  "loadEngineConfig unmarshal readFile cpus configFile engineAddr =
     (let defaults = defaultEngineConfig cpus engineAddr in
      case readFile configFile of
        NotExist \<Rightarrow> Inr defaults
      | ReadFails \<Rightarrow> Inl ReadError
      | Contents bytes \<Rightarrow>
          (case unmarshal bytes of
             None \<Rightarrow> Inl DecodeError
           | Some cfg \<Rightarrow> Inr (applyDefaults defaults cfg)))"


subsection \<open>What is accepted\<close>

definition transport_of :: "UpstreamConfig \<Rightarrow> string" where
  "transport_of u = fst (parseUpstreamTransport (Transport u))"

definition endpoint_of :: "UpstreamConfig \<Rightarrow> string \<times> string \<times> int" where
  "endpoint_of u = (transport_of u, Address u, effective_port (transport_of u) u)"

definition upstream_valid :: "UpstreamConfig \<Rightarrow> bool" where
  "upstream_valid u \<longleftrightarrow>
     trim_space (Address u) = Address u \<and> isValidUpstreamAddress (Address u) \<and>
     snd (parseUpstreamTransport (Transport u)) \<and>
     1 \<le> effective_port (transport_of u) u \<and> effective_port (transport_of u) u \<le> 65535 \<and>
     (trim_space (TLSServerName u) = '''' \<or>
        transport_of u \<noteq> UpstreamTransportDNS \<and>
        isDNS1123Subdomain (trim_suffix (to_lower (trim_space (TLSServerName u))) ''.'')) \<and>
     1 \<le> Weight u \<and> Weight u \<le> 100 \<and> 1 \<le> Preference u \<and> Preference u \<le> 1000"

definition config_valid :: "EngineConfig \<Rightarrow> bool" where
  "config_valid c \<longleftrightarrow>
     trim_space (ListenAddr c) \<noteq> '''' \<and> 1 \<le> ListenPort c \<and> ListenPort c \<le> 65535 \<and>
     1 \<le> WorkerThreads c \<and> WorkerThreads c \<le> 256 \<and> isSupportedDNSSECMode (Mode (DNSSEC c)) \<and>
     Upstreams c \<noteq> [] \<and> (\<forall>u\<in>set (Upstreams c). upstream_valid u) \<and> distinct (map endpoint_of (Upstreams c)) \<and>
     1 \<le> MaxEntries (Cache c) \<and> 1 \<le> PositiveTtlMin (Cache c) \<and> PositiveTtlMin (Cache c) \<le> PositiveTtlMax (Cache c) \<and>
     1 \<le> NegativeTtl (Cache c) \<and> 1 \<le> PrefetchThreshold (Cache c) \<and>
     (\<forall>p\<in>set (Allow (DomainFilter c)) \<union> set (Deny (DomainFilter c)). trim_space p \<noteq> '''') \<and>
     Action (DomainFilter c) \<in> {'''', DomainFilterActionRefused, DomainFilterActionNXDomain}"

text \<open>The key of an upstream, as the loop computes it.\<close>

definition key_of :: "UpstreamConfig \<Rightarrow> string" where
  "key_of u = upstream_key (transport_of u) (Address u) (effective_port (transport_of u) u)"

lemma parseUpstreamTransport_result:
  "snd (parseUpstreamTransport t) \<Longrightarrow> normal_transport (fst (parseUpstreamTransport t))"
  by (auto simp: parseUpstreamTransport_def normal_transport_def Let_def)

lemma colon_digit [simp]: "\<not> digit_char CHR '':''"
  by (simp add: digit_char_def byte_def)

lemma itoa_no_colon: "0 \<le> i \<Longrightarrow> CHR '':'' \<notin> set (itoa i)"
  by (simp add: itoa_def decimal_no)

lemma itoa_inj: "0 \<le> i \<Longrightarrow> 0 \<le> j \<Longrightarrow> itoa i = itoa j \<Longrightarrow> i = j"
  by (auto simp: itoa_def dest!: decimal_inj)

text \<open>
  Addresses may hold colons (IPv6), transports have one length and ports are digits: keys agree
  only when all three parts do.
\<close>

lemma upstream_key_inj:
  assumes "normal_transport t" "normal_transport t'" "0 \<le> p" "0 \<le> p'"
    and eq: "upstream_key t a p = upstream_key t' a' p'"
  shows "t = t' \<and> a = a' \<and> p = p'"
proof -
  have len: "length t = length t'"
    using assms(1,2) by (auto simp: normal_transport_def transport_defs)
  from eq len have t: "t = t'" and rest: "a @ CHR '':'' # itoa p = a' @ CHR '':'' # itoa p'"
    by (simp_all add: upstream_key_def)
  from split_at_last [OF rest] itoa_no_colon assms(3,4) have "a = a'" "itoa p = itoa p'" by auto
  with t itoa_inj assms(3,4) show ?thesis by simp
qed

lemma upstream_valid_endpoint:
  "upstream_valid u \<Longrightarrow> normal_transport (transport_of u) \<and> 0 \<le> effective_port (transport_of u) u"
  using parseUpstreamTransport_result by (simp add: upstream_valid_def transport_of_def)

lemma key_of_inj:
  assumes "upstream_valid u" "upstream_valid v"
  shows "key_of u = key_of v \<longleftrightarrow> endpoint_of u = endpoint_of v"
proof
  assume "key_of u = key_of v"
  with assms show "endpoint_of u = endpoint_of v"
    using upstream_key_inj upstream_valid_endpoint unfolding key_of_def endpoint_of_def by blast
next
  assume "endpoint_of u = endpoint_of v"
  then show "key_of u = key_of v" unfolding key_of_def endpoint_of_def by (metis prod.inject)
qed

lemma distinct_keys:
  "\<forall>u\<in>set us. upstream_valid u \<Longrightarrow> distinct (map key_of us) \<longleftrightarrow> distinct (map endpoint_of us)"
  by (induction us) (auto simp: image_iff key_of_inj)

text \<open>Checks in sequence succeed when each of them does.\<close>

lemma checks_None:
  "(case x of None \<Rightarrow> y | Some er \<Rightarrow> Some er) = None \<longleftrightarrow> x = None \<and> y = None"
  "(case z of None \<Rightarrow> y | Some i \<Rightarrow> Some (f i)) = None \<longleftrightarrow> z = None \<and> y = None"
  "(if b then Some er' else y) = None \<longleftrightarrow> \<not> b \<and> y = None"
  by (auto split: option.split)

text \<open>The errors of one upstream alone, in the order of the code.\<close>

definition upstream_fault :: "nat \<Rightarrow> UpstreamConfig \<Rightarrow> config_error option" where
  "upstream_fault i u = validateUpstreams i [] [u]"

lemma validateUpstreams_Cons:
  "validateUpstreams i seen (u # us) =
     (case upstream_fault i u of
        Some er \<Rightarrow> Some er
      | None \<Rightarrow> if key_of u \<in> set seen then Some (DuplicateUpstream i (key_of u))
                else validateUpstreams (Suc i) (key_of u # seen) us)"
  by (auto simp: upstream_fault_def key_of_def transport_of_def Let_def split: prod.splits if_splits)

lemma upstream_fault_None: "upstream_fault i u = None \<longleftrightarrow> upstream_valid u"
  by (auto simp: upstream_fault_def upstream_valid_def transport_of_def Let_def split: prod.splits if_splits)

lemma validateUpstreams_None:
  "validateUpstreams i seen us = None \<longleftrightarrow>
     (\<forall>u\<in>set us. upstream_valid u) \<and> distinct (map key_of us) \<and> key_of ` set us \<inter> set seen = {}"
proof (induction us arbitrary: i seen)
  case (Cons u us)
  show ?case
    by (simp add: validateUpstreams_Cons checks_None upstream_fault_None Cons.IH del: validateUpstreams.simps(2)) auto
qed simp

lemma firstBlank_None: "firstBlank i ps = None \<longleftrightarrow> (\<forall>p\<in>set ps. trim_space p \<noteq> '''')"
  by (induction i ps rule: firstBlank.induct) auto

lemma validateCacheConfig_None:
  "validateCacheConfig c = None \<longleftrightarrow>
     1 \<le> MaxEntries c \<and> 1 \<le> PositiveTtlMin c \<and> PositiveTtlMin c \<le> PositiveTtlMax c \<and>
     1 \<le> NegativeTtl c \<and> 1 \<le> PrefetchThreshold c"
  by (auto simp: validateCacheConfig_def)

lemma validateFilterConfig_None:
  "validateFilterConfig f = None \<longleftrightarrow>
     (\<forall>p\<in>set (Allow f) \<union> set (Deny f). trim_space p \<noteq> '''') \<and>
     Action f \<in> {'''', DomainFilterActionRefused, DomainFilterActionNXDomain}"
  by (auto simp: validateFilterConfig_def firstBlank_None checks_None)

lemma validate_None: "validateEngineConfig c = None \<longleftrightarrow> config_valid c"
proof -
  have "validateUpstreams 0 [] (Upstreams c) = None \<longleftrightarrow>
      (\<forall>u\<in>set (Upstreams c). upstream_valid u) \<and> distinct (map endpoint_of (Upstreams c))"
    using distinct_keys [of "Upstreams c"] by (auto simp: validateUpstreams_None)
  then show ?thesis
    by (simp add: validateEngineConfig_def config_valid_def validateCacheConfig_None validateFilterConfig_None
        checks_None) (auto simp: not_le)
qed


subsection \<open>Properties\<close>

text \<open>
  C12.  Validation accepts exactly the valid configurations: those whose fields are in range, whose
  upstreams are valid one by one and pairwise different in transport, address and port (the
  text keys the code compares never confuse two endpoints, IPv6 addresses included), and whose
  filter has no blank pattern and a known action.
\<close>

theorem validate_accepts_iff:
  "validateEngineConfig c = None \<longleftrightarrow> config_valid c"
  by (rule validate_None)

text \<open>The upstream an error names.\<close>

fun fault_index :: "config_error \<Rightarrow> nat option" where
  "fault_index (AddressWhitespace i) = Some i"
| "fault_index (BadAddress i) = Some i"
| "fault_index (BadTransport i) = Some i"
| "fault_index (BadPort i) = Some i"
| "fault_index (TLSServerNameWithDNS i) = Some i"
| "fault_index (BadTLSServerName i) = Some i"
| "fault_index (BadWeight i) = Some i"
| "fault_index (BadPreference i) = Some i"
| "fault_index (DuplicateUpstream i _) = Some i"
| "fault_index _ = None"

lemma upstream_fault_index: "upstream_fault i u = Some er \<Longrightarrow> fault_index er = Some i"
  by (auto simp: upstream_fault_def Let_def split: prod.splits if_splits)

lemma validateUpstreams_first:
  "validateUpstreams i seen us = Some er \<Longrightarrow>
     \<exists>k<length us. fault_index er = Some (i + k) \<and> validateUpstreams i seen (take k us) = None \<and>
       validateUpstreams i seen (take (Suc k) us) = Some er"
proof (induction us arbitrary: i seen)
  case (Cons u us)
  show ?case
  proof (cases "upstream_fault i u = None \<and> key_of u \<notin> set seen")
    case False
    with Cons.prems have "validateUpstreams i seen [u] = Some er \<and> fault_index er = Some i"
      by (auto simp: validateUpstreams_Cons upstream_fault_index simp del: validateUpstreams.simps(2)
          split: option.splits)
    then show ?thesis by (intro exI [of _ 0]) simp
  next
    case True
    with Cons.prems have "validateUpstreams (Suc i) (key_of u # seen) us = Some er"
      by (simp add: validateUpstreams_Cons del: validateUpstreams.simps(2))
    from Cons.IH [OF this] obtain k where "k < length us" "fault_index er = Some (Suc i + k)"
      "validateUpstreams (Suc i) (key_of u # seen) (take k us) = None"
      "validateUpstreams (Suc i) (key_of u # seen) (take (Suc k) us) = Some er" by blast
    with True show ?thesis
      by (intro exI [of _ "Suc k"]) (simp add: validateUpstreams_Cons del: validateUpstreams.simps(2))
  qed
qed simp

text \<open>
  The error about an upstream names the first one at fault: the upstreams before it are
  accepted as they are, and the error is already found in the list that ends with it.
\<close>

theorem first_fault_reported:
  assumes "validateUpstreams 0 [] us = Some er"
  shows "\<exists>i<length us. fault_index er = Some i \<and> validateUpstreams 0 [] (take i us) = None \<and>
    validateUpstreams 0 [] (take (Suc i) us) = Some er"
  using validateUpstreams_first [OF assms] by simp

definition sample_upstream :: "string \<Rightarrow> string \<Rightarrow> UpstreamConfig" where
  "sample_upstream address transport = \<lparr>Address = address, Port = 0, Transport = transport,
     TLSServerName = '''', Weight = 1, Preference = 100\<rparr>"

lemma first_fault_reported_witness:
  "\<exists>i<3. fault_index (DuplicateUpstream 2 ''dns:9.9.9.9:53'') = Some i \<and> validateUpstreams 0 []
     (take i [sample_upstream ''9.9.9.9'' '''', sample_upstream ''9.9.9.9'' ''dot'', sample_upstream ''9.9.9.9'' '' DNS'']) = None"
proof -
  let ?us = "[sample_upstream ''9.9.9.9'' '''', sample_upstream ''9.9.9.9'' ''dot'', sample_upstream ''9.9.9.9'' '' DNS'']"
  have "validateUpstreams 0 [] ?us = Some (DuplicateUpstream 2 ''dns:9.9.9.9:53'')" by code_simp
  from first_fault_reported [OF this] show ?thesis by auto
qed

text \<open>Loading puts a keyword in the place of whatever the file says.\<close>

lemma loadTransport_fields [simp]:
  "Address (loadTransport u) = Address u"
  "Transport (loadTransport u) = (if snd (parseUpstreamTransport (Transport u))
     then fst (parseUpstreamTransport (Transport u)) else UpstreamTransportDNS)"
  by (simp_all add: loadTransport_def Let_def split: prod.split)

lemma loadServerName_fields [simp]:
  "Address (loadServerName u) = Address u" "Transport (loadServerName u) = Transport u"
  "Port (loadServerName u) = Port u"
  "Transport u = UpstreamTransportDNS \<Longrightarrow> TLSServerName (loadServerName u) = ''''"
  by (simp_all add: loadServerName_def Let_def)

lemma loadWeights_fields [simp]:
  "Address (loadWeights u) = Address u" "Transport (loadWeights u) = Transport u"
  "Port (loadWeights u) = Port u" "TLSServerName (loadWeights u) = TLSServerName u"
  by (simp_all add: loadWeights_def Let_def)

lemma loadUpstream_fields:
  "Address (loadUpstream u) = Address u"
  "Transport (loadUpstream u) = (if snd (parseUpstreamTransport (Transport u))
     then fst (parseUpstreamTransport (Transport u)) else UpstreamTransportDNS)"
  by (simp_all add: loadUpstream_def)

lemma loadUpstream_normal: "normal_transport (Transport (loadUpstream u))"
  using parseUpstreamTransport_result by (auto simp: loadUpstream_fields normal_transport_def)

lemma loadUpstream_tls:
  "Transport (loadUpstream u) = UpstreamTransportDNS \<Longrightarrow> TLSServerName (loadUpstream u) = ''''"
  by (simp add: loadUpstream_def del: loadTransport_fields)

lemma loadUpstream_port: "Port (loadUpstream u) \<noteq> 0"
  by (simp add: loadUpstream_def loadTransport_def defaultPortForTransport_def Let_def split: prod.split)

lemma parse_keyword: "normal_transport t \<Longrightarrow> parseUpstreamTransport t = (t, True)"
  by (auto simp: normal_transport_def parseUpstreamTransport_def transport_defs go_string_simps)

text \<open>Every configuration that is loaded has upstreams, all of them as the loop leaves them.\<close>

lemma loaded_upstreams:
  assumes "loadEngineConfig unmarshal readFile cpus file addr = Inr c"
  shows "\<exists>us. Upstreams c = map loadUpstream us \<and> us \<noteq> []"
proof -
  let ?d = "defaultEngineConfig cpus addr"
  have d: "Upstreams ?d \<noteq> []" "map loadUpstream (Upstreams ?d) = Upstreams ?d"
    by (auto simp: defaultEngineConfig_def loadUpstream_def loadTransport_def
        loadServerName_def loadWeights_def Let_def parse_keyword normal_transport_def split: prod.split)
  have "c = ?d \<or> (\<exists>raw. c = applyDefaults ?d raw)"
    using assms by (auto simp: loadEngineConfig_def Let_def split: file_read.splits option.splits)
  then show ?thesis
  proof (elim disjE exE)
    assume "c = ?d"
    with d show ?thesis by (metis (no_types))
  next
    fix raw
    assume "c = applyDefaults ?d raw"
    with d(1) show ?thesis by (auto simp: applyDefaults_def Let_def)
  qed
qed

lemma validateUpstreams_loaded:
  "validateUpstreams i seen (map loadUpstream us) = Some er \<Longrightarrow>
     (\<forall>k. er \<noteq> BadTransport k \<and> er \<noteq> TLSServerNameWithDNS k) \<and> fault_index er \<noteq> None"
proof (induction us arbitrary: i seen)
  case (Cons u us)
  have "upstream_fault i (loadUpstream u) = Some er \<Longrightarrow> \<forall>k. er \<noteq> BadTransport k \<and> er \<noteq> TLSServerNameWithDNS k"
    using loadUpstream_tls [of u] parse_keyword [OF loadUpstream_normal [of u]]
    by (auto simp: upstream_fault_def Let_def split: if_splits)
  with Cons show ?case
    by (auto simp: validateUpstreams_Cons upstream_fault_index simp del: validateUpstreams.simps(2)
        split: option.splits if_splits)
qed simp

text \<open>
  A typing error in a transport or in the DNSSEC mode of the file is never reported: loading
  has already put plain DNS, and the default mode (off), in its place, so that the checks of
  validation for them cannot fail on a loaded configuration; an encrypted upstream whose
  transport is misspelt is used in the clear.
\<close>

theorem misspelt_transport_unreported:
  assumes "loadEngineConfig unmarshal readFile cpus file addr = Inr c"
  shows "validateEngineConfig c \<noteq> Some BadDNSSECMode \<and> validateEngineConfig c \<noteq> Some NoUpstreams \<and>
    validateEngineConfig c \<noteq> Some (BadTransport i) \<and> validateEngineConfig c \<noteq> Some (TLSServerNameWithDNS i) \<and>
    (readFile file = Contents bytes \<and> unmarshal bytes = Some raw \<and> k < length (Upstreams raw) \<and>
       \<not> snd (parseUpstreamTransport (Transport (Upstreams raw ! k))) \<longrightarrow>
     Transport (Upstreams c ! k) = UpstreamTransportDNS)"
proof -
  let ?d = "defaultEngineConfig cpus addr"
  have d: "isSupportedDNSSECMode (Mode (DNSSEC ?d))"
    by (simp add: defaultEngineConfig_def isSupportedDNSSECMode_def split: prod.split)
  have "c = ?d \<or> (\<exists>raw. c = applyDefaults ?d raw)"
    using assms by (auto simp: loadEngineConfig_def Let_def split: file_read.splits option.splits)
  then have mode: "isSupportedDNSSECMode (Mode (DNSSEC c))"
    using d by (auto simp: applyDefaults_def Let_def)
  obtain us where us: "Upstreams c = map loadUpstream us" "us \<noteq> []"
    using loaded_upstreams [OF assms] by blast
  have rest: "validateCacheConfig (Cache c) = Some er \<Longrightarrow> er \<notin> {BadDNSSECMode, NoUpstreams, BadTransport i, TLSServerNameWithDNS i}"
    "validateFilterConfig (DomainFilter c) = Some er \<Longrightarrow> er \<notin> {BadDNSSECMode, NoUpstreams, BadTransport i, TLSServerNameWithDNS i}" for er
    by (auto simp: validateCacheConfig_def validateFilterConfig_def split: if_splits option.splits)
  have "er \<notin> {BadDNSSECMode, NoUpstreams, BadTransport i, TLSServerNameWithDNS i}"
    if "validateEngineConfig c = Some er" for er
    using that us mode validateUpstreams_loaded [of 0 "[]" us er] rest [of er]
    by (auto simp: validateEngineConfig_def split: if_splits option.splits)
  moreover have "readFile file = Contents bytes \<and> unmarshal bytes = Some raw \<and> k < length (Upstreams raw) \<and>
      \<not> snd (parseUpstreamTransport (Transport (Upstreams raw ! k))) \<longrightarrow> Transport (Upstreams c ! k) = UpstreamTransportDNS"
    using assms by (auto simp: loadEngineConfig_def applyDefaults_def Let_def loadUpstream_fields)
  ultimately show ?thesis by blast
qed

definition misspelt_config :: EngineConfig where
  "misspelt_config = zero_config\<lparr>Upstreams := [sample_upstream ''9.9.9.9'' ''dott'']\<rparr>"

lemma misspelt_transport_unreported_witness:
  "loadEngineConfig (\<lambda>_. Some misspelt_config) (\<lambda>_. Contents ''{}'') 4 ''config.json'' ''127.0.0.1:5354''
     = Inr (applyDefaults (defaultEngineConfig 4 ''127.0.0.1:5354'') misspelt_config) \<and>
   Transport (Upstreams (applyDefaults (defaultEngineConfig 4 ''127.0.0.1:5354'') misspelt_config) ! 0)
     = UpstreamTransportDNS \<and>
   validateEngineConfig (applyDefaults (defaultEngineConfig 4 ''127.0.0.1:5354'') misspelt_config) = None"
proof -
  let ?c = "applyDefaults (defaultEngineConfig 4 ''127.0.0.1:5354'') misspelt_config"
  have load: "loadEngineConfig (\<lambda>_. Some misspelt_config) (\<lambda>_. Contents ''{}'') 4 ''config.json'' ''127.0.0.1:5354'' = Inr ?c"
    by (simp add: loadEngineConfig_def)
  have bad: "\<not> snd (parseUpstreamTransport (Transport (Upstreams misspelt_config ! 0)))"
    "0 < length (Upstreams misspelt_config)" by code_simp+
  have "validateEngineConfig ?c = None" by code_simp
  with load bad misspelt_transport_unreported [OF load, of 0 "''{}''" misspelt_config 0] show ?thesis by simp
qed

text \<open>
  Without a configuration file the agent starts exactly when its engine address has a usable
  host and port; the port is cut to 32 bits before it is checked.
\<close>

theorem default_config_valid_iff:
  "validateEngineConfig (defaultEngineConfig cpus addr) = None \<longleftrightarrow>
     trim_space (fst (splitHostPort addr ''127.0.0.1'' 5354)) \<noteq> '''' \<and>
     wrap32 (snd (splitHostPort addr ''127.0.0.1'' 5354)) \<in> {1..65535}"
proof -
  obtain host port where addr: "splitHostPort addr ''127.0.0.1'' 5354 = (host, port)" by fastforce
  have threads: "resolveDefaultWorkerThreads cpus \<in> {1..256}"
    by (auto simp: resolveDefaultWorkerThreads_def Let_def)
  have up: "upstream_valid \<lparr>Address = ''1.1.1.1'', Port = 53, Transport = UpstreamTransportDNS, TLSServerName = '''',
      Weight = 1, Preference = 100\<rparr>" by code_simp
  have mode: "isSupportedDNSSECMode DNSSECModeOff" by code_simp
  show ?thesis
    using threads up mode
    by (auto simp: validate_None config_valid_def defaultEngineConfig_def addr)
qed

end
