(* ===== verification/AgentEnv.thy ===== *)
theory AgentEnv
  imports AgentConfig DnsMsg
begin

section \<open>The runtime configuration\<close>

text \<open>
  The environment variables that \<open>cmd/agent/main.go\<close> reads and their defaults.  The environment
  (\<open>os.Getenv\<close>, empty for a variable that is not set), the kind of file at a path (\<open>os.Stat\<close>) and
  the DNS library's table of query types are arguments.
\<close>

subsection \<open>Defaults\<close>

definition defaultEngineType :: string where "defaultEngineType = ''unbound''"
definition defaultListenAddr :: string where "defaultListenAddr = ''0.0.0.0:5353''"
definition defaultEngineAddr :: string where "defaultEngineAddr = ''127.0.0.1:5354''"
definition defaultMetricsAddr :: string where "defaultMetricsAddr = '':9153''"
definition defaultHealthAddr :: string where "defaultHealthAddr = '':8080''"
definition defaultConfigPath :: string where "defaultConfigPath = ''/etc/astradns/config/config.json''"
definition defaultEngineCfgDir :: string where "defaultEngineCfgDir = ''/var/run/astradns/engine''"
definition defaultConfigFile :: string where "defaultConfigFile = ''config.json''"
definition defaultLogMode :: string where "defaultLogMode = ''sampled''"
definition defaultLogSample :: f64 where "defaultLogSample = rnd (1 / 10)"
definition defaultProxyTimeout :: duration where "defaultProxyTimeout = 2 * second"
definition defaultProxyCacheTTL :: duration where "defaultProxyCacheTTL = 30 * second"
definition defaultProxyGlobalRateLimitRPS :: f64 where "defaultProxyGlobalRateLimitRPS = 2000"
definition defaultProxyGlobalRateLimitBurst :: int where "defaultProxyGlobalRateLimitBurst = 4000"
definition defaultProxyPerSourceRateLimitRPS :: f64 where "defaultProxyPerSourceRateLimitRPS = 200"
definition defaultProxyPerSourceRateLimitBurst :: int where "defaultProxyPerSourceRateLimitBurst = 400"
definition defaultProxyPerSourceRateLimitStateTTL :: duration where
  "defaultProxyPerSourceRateLimitStateTTL = 5 * minute"
definition defaultProxyPerSourceRateLimitMaxSource :: int where "defaultProxyPerSourceRateLimitMaxSource = 10000"
definition defaultProxyCacheMaxEntries :: int where "defaultProxyCacheMaxEntries = 10000"
definition defaultEngineConnPoolSize :: int where "defaultEngineConnPoolSize = 64"
definition defaultHealthProbeDomain :: string where "defaultHealthProbeDomain = ''.''"
definition defaultHealthProbeType :: "16 word" where "defaultHealthProbeType = TypeNS"
definition defaultTracingServiceName :: string where "defaultTracingServiceName = ''astradns-agent''"
definition defaultTracingEndpoint :: string where "defaultTracingEndpoint = ''localhost:4318''"
definition defaultTracingSampleRatio :: f64 where "defaultTracingSampleRatio = rnd (1 / 10)"
definition defaultDiagnosticsInterval :: duration where "defaultDiagnosticsInterval = minute"
definition defaultDiagnosticsTimeout :: duration where "defaultDiagnosticsTimeout = 3 * second"
definition defaultEngineRecoveryInterval :: duration where "defaultEngineRecoveryInterval = 5 * second"
definition defaultWorkerBuffer :: int where "defaultWorkerBuffer = 10000"
definition defaultComponentErrorBuffer :: int where "defaultComponentErrorBuffer = 5"
definition defaultConfigWatchDebounce :: duration where "defaultConfigWatchDebounce = second"

definition defaultMetricsBearerToken :: string where "defaultMetricsBearerToken = ''''"
definition defaultTracingEnabled :: bool where "defaultTracingEnabled = False"
definition defaultTracingInsecure :: bool where "defaultTracingInsecure = True"
definition defaultDiagnosticsEnabled :: bool where "defaultDiagnosticsEnabled = False"

record runtimeConfig =
  EngineType :: string
  ListenAddr :: string
  EngineAddr :: string
  MetricsAddr :: string
  HealthAddr :: string
  ConfigSourceDir :: string
  ConfigFile :: string
  EngineConfigDir :: string
  ProxyTimeout :: duration
  ProxyGlobalRateLimitRPS :: f64
  ProxyGlobalRateLimitBurst :: int
  ProxyPerSourceRateLimitRPS :: f64
  ProxyPerSourceRateLimitBurst :: int
  ProxyPerSourceRateLimitStateTTL :: duration
  ProxyPerSourceRateLimitMaxSrc :: int
  ProxyCacheMaxEntries :: int
  ProxyCacheDefaultTTL :: duration
  EngineConnectionPoolSize :: int
  HealthProbeDomain :: string
  HealthProbeType :: "16 word"
  ConfigWatchDebounce :: duration
  MetricsBearerToken :: string
  EngineRecoveryInterval :: duration
  ComponentErrorBuffer :: int
  TracingEnabled :: bool
  TracingEndpoint :: string
  TracingInsecure :: bool
  TracingSampleRatio :: f64
  TracingServiceName :: string
  DiagnosticsEnabled :: bool
  DiagnosticsTargets :: "string list"
  DiagnosticsInterval :: duration
  DiagnosticsTimeout :: duration
  LogMode :: string
  LogSampleRate :: f64

subsection \<open>Reading one variable\<close>

type_synonym environment = "string \<Rightarrow> string"

definition getEnv :: "environment \<Rightarrow> string \<Rightarrow> string \<Rightarrow> string" where
  "getEnv env key fallback = (let value = env key in if value = '''' then fallback else value)"

definition getEnvFloat :: "environment \<Rightarrow> string \<Rightarrow> f64 \<Rightarrow> f64" where
  "getEnvFloat env key fallback =
     (let value = env key in
      if value = '''' then fallback
      else case parse_float value of None \<Rightarrow> fallback | Some parsed \<Rightarrow> parsed)"

definition getEnvPositiveFloat :: "environment \<Rightarrow> string \<Rightarrow> f64 \<Rightarrow> f64" where
  "getEnvPositiveFloat env key fallback =
     (let value = env key in
      if value = '''' then fallback
      else case parse_float value of
             None \<Rightarrow> fallback
           | Some parsed \<Rightarrow> if parsed \<le> 0 then fallback else parsed)"

definition getEnvPositiveInt :: "environment \<Rightarrow> string \<Rightarrow> int \<Rightarrow> int" where
  "getEnvPositiveInt env key fallback =
     (let value = env key in
      if value = '''' then fallback
      else case atoi value of
             None \<Rightarrow> fallback
           | Some parsed \<Rightarrow> if parsed \<le> 0 then fallback else parsed)"

definition getEnvNonNegativeInt :: "environment \<Rightarrow> string \<Rightarrow> int \<Rightarrow> int" where
  "getEnvNonNegativeInt env key fallback =
     (let value = env key in
      if value = '''' then fallback
      else case atoi value of
             None \<Rightarrow> fallback
           | Some parsed \<Rightarrow> if parsed < 0 then fallback else parsed)"

definition getEnvBool :: "environment \<Rightarrow> string \<Rightarrow> bool \<Rightarrow> bool" where
  "getEnvBool env key fallback =
     (let value = trim_space (env key) in
      if value = '''' then fallback
      else case parse_bool value of None \<Rightarrow> fallback | Some parsed \<Rightarrow> parsed)"

definition getEnvDuration :: "environment \<Rightarrow> string \<Rightarrow> duration \<Rightarrow> duration" where
  "getEnvDuration env key fallback =
     (let value = env key in
      if value = '''' then fallback
      else case parse_duration value of
             None \<Rightarrow> fallback
           | Some parsed \<Rightarrow> if parsed \<le> 0 then fallback else parsed)"

definition getEnvDNSQueryType ::
  "(string \<Rightarrow> 16 word option) \<Rightarrow> environment \<Rightarrow> string \<Rightarrow> 16 word \<Rightarrow> 16 word" where
  "getEnvDNSQueryType types env key fallback =
     (let value = trim_space (env key);
          number = (case parse_uint16 value of
                      None \<Rightarrow> fallback
                    | Some n \<Rightarrow> if n = 0 then fallback else of_nat n)
      in if value = '''' then fallback
         else case types (to_upper value) of
                Some t \<Rightarrow> if t \<noteq> 0 then t else number
              | None \<Rightarrow> number)"

text \<open>\<open>os.Stat\<close> fails or tells whether the path is a directory.\<close>

definition resolveConfigPaths :: "(string \<Rightarrow> bool option) \<Rightarrow> string \<Rightarrow> string \<times> string" where
  "resolveConfigPaths stat configPath =
     (case stat configPath of
        Some isDir \<Rightarrow>
          if isDir then (configPath, path_join configPath defaultConfigFile)
          else (path_dir configPath, configPath)
      | None \<Rightarrow>
          if path_ext configPath = ''.json'' then (path_dir configPath, configPath)
          else (configPath, path_join configPath defaultConfigFile))"

text \<open>The loop over the comma-separated targets, with those seen so far.\<close>

fun collectTargets :: "string list \<Rightarrow> string list \<Rightarrow> string list" where
  "collectTargets seen [] = []"
| "collectTargets seen (part # parts) =
     (let target = trim_suffix (to_lower (trim_space part)) ''.'' in
      if target = '''' \<or> \<not> isValidUpstreamAddress target then collectTargets seen parts
      else if target \<in> set seen then collectTargets seen parts
      else target # collectTargets (target # seen) parts)"

definition parseDiagnosticsTargets :: "string \<Rightarrow> string list" where
  "parseDiagnosticsTargets raw = collectTargets [] (split_on CHR '','' raw)"

definition diagnosticsResolverAddress :: "string \<Rightarrow> string" where
  "diagnosticsResolverAddress listenAddr =
     (case GoNet.splitHostPort listenAddr of
        None \<Rightarrow> ''127.0.0.1:5353''
      | Some (host0, portText0) \<Rightarrow>
          (let host = (if host0 = '''' \<or> host0 = ''0.0.0.0'' \<or> host0 = ''::'' \<or> host0 = ''[::]''
                       then ''127.0.0.1'' else host0);
               portText = (if atoi portText0 = None then ''5353'' else portText0)
           in joinHostPort host portText))"

subsection \<open>Loading\<close>

definition loadRuntimeConfig ::
  "(string \<Rightarrow> 16 word option) \<Rightarrow> (string \<Rightarrow> bool option) \<Rightarrow> environment \<Rightarrow> runtimeConfig" where
  "loadRuntimeConfig types stat env =
     (case resolveConfigPaths stat (getEnv env ''ASTRADNS_CONFIG_PATH'' defaultConfigPath) of
        (configSourceDir, configFile) \<Rightarrow>
     \<lparr>EngineType = getEnv env ''ASTRADNS_ENGINE_TYPE'' defaultEngineType,
      ListenAddr = getEnv env ''ASTRADNS_LISTEN_ADDR'' defaultListenAddr,
      EngineAddr = getEnv env ''ASTRADNS_ENGINE_ADDR'' defaultEngineAddr,
      MetricsAddr = getEnv env ''ASTRADNS_METRICS_ADDR'' defaultMetricsAddr,
      HealthAddr = getEnv env ''ASTRADNS_HEALTH_ADDR'' defaultHealthAddr,
      ConfigSourceDir = configSourceDir,
      ConfigFile = configFile,
      EngineConfigDir = getEnv env ''ASTRADNS_ENGINE_CONFIG_DIR'' defaultEngineCfgDir,
      ProxyTimeout = getEnvDuration env ''ASTRADNS_PROXY_TIMEOUT'' defaultProxyTimeout,
      ProxyGlobalRateLimitRPS =
        getEnvPositiveFloat env ''ASTRADNS_PROXY_RATE_LIMIT_GLOBAL_RPS'' defaultProxyGlobalRateLimitRPS,
      ProxyGlobalRateLimitBurst =
        getEnvPositiveInt env ''ASTRADNS_PROXY_RATE_LIMIT_GLOBAL_BURST'' defaultProxyGlobalRateLimitBurst,
      ProxyPerSourceRateLimitRPS =
        getEnvPositiveFloat env ''ASTRADNS_PROXY_RATE_LIMIT_PER_SOURCE_RPS'' defaultProxyPerSourceRateLimitRPS,
      ProxyPerSourceRateLimitBurst =
        getEnvPositiveInt env ''ASTRADNS_PROXY_RATE_LIMIT_PER_SOURCE_BURST'' defaultProxyPerSourceRateLimitBurst,
      ProxyPerSourceRateLimitStateTTL =
        getEnvDuration env ''ASTRADNS_PROXY_RATE_LIMIT_PER_SOURCE_STATE_TTL'' defaultProxyPerSourceRateLimitStateTTL,
      ProxyPerSourceRateLimitMaxSrc =
        getEnvPositiveInt env ''ASTRADNS_PROXY_RATE_LIMIT_PER_SOURCE_MAX_SOURCES'' defaultProxyPerSourceRateLimitMaxSource,
      ProxyCacheMaxEntries =
        getEnvNonNegativeInt env ''ASTRADNS_PROXY_CACHE_MAX_ENTRIES'' defaultProxyCacheMaxEntries,
      ProxyCacheDefaultTTL = getEnvDuration env ''ASTRADNS_PROXY_CACHE_DEFAULT_TTL'' defaultProxyCacheTTL,
      EngineConnectionPoolSize = getEnvPositiveInt env ''ASTRADNS_ENGINE_CONN_POOL_SIZE'' defaultEngineConnPoolSize,
      HealthProbeDomain = getEnv env ''ASTRADNS_HEALTH_PROBE_DOMAIN'' defaultHealthProbeDomain,
      HealthProbeType = getEnvDNSQueryType types env ''ASTRADNS_HEALTH_PROBE_TYPE'' defaultHealthProbeType,
      ConfigWatchDebounce = getEnvDuration env ''ASTRADNS_CONFIG_WATCH_DEBOUNCE'' defaultConfigWatchDebounce,
      MetricsBearerToken = trim_space (getEnv env ''ASTRADNS_METRICS_BEARER_TOKEN'' defaultMetricsBearerToken),
      EngineRecoveryInterval = getEnvDuration env ''ASTRADNS_ENGINE_RECOVERY_INTERVAL'' defaultEngineRecoveryInterval,
      ComponentErrorBuffer = getEnvPositiveInt env ''ASTRADNS_COMPONENT_ERROR_BUFFER'' defaultComponentErrorBuffer,
      TracingEnabled = getEnvBool env ''ASTRADNS_TRACING_ENABLED'' defaultTracingEnabled,
      TracingEndpoint = trim_space (getEnv env ''ASTRADNS_TRACING_ENDPOINT'' defaultTracingEndpoint),
      TracingInsecure = getEnvBool env ''ASTRADNS_TRACING_INSECURE'' defaultTracingInsecure,
      TracingSampleRatio = getEnvFloat env ''ASTRADNS_TRACING_SAMPLE_RATIO'' defaultTracingSampleRatio,
      TracingServiceName = trim_space (getEnv env ''ASTRADNS_TRACING_SERVICE_NAME'' defaultTracingServiceName),
      DiagnosticsEnabled = getEnvBool env ''ASTRADNS_DIAGNOSTICS_ENABLED'' defaultDiagnosticsEnabled,
      DiagnosticsTargets = parseDiagnosticsTargets (getEnv env ''ASTRADNS_DIAGNOSTICS_TARGETS'' ''''),
      DiagnosticsInterval = getEnvDuration env ''ASTRADNS_DIAGNOSTICS_INTERVAL'' defaultDiagnosticsInterval,
      DiagnosticsTimeout = getEnvDuration env ''ASTRADNS_DIAGNOSTICS_TIMEOUT'' defaultDiagnosticsTimeout,
      LogMode = getEnv env ''ASTRADNS_LOG_MODE'' defaultLogMode,
      LogSampleRate = getEnvFloat env ''ASTRADNS_LOG_SAMPLE_RATE'' defaultLogSample\<rparr>)"


subsection \<open>Every setting is usable\<close>

lemma duration_units_range:
  "duration_units d s = Some r \<Longrightarrow> 0 \<le> d \<Longrightarrow> d \<le> 2 ^ 63 \<Longrightarrow> 0 \<le> r \<and> r \<le> 2 ^ 63"
proof (induction d s rule: duration_units.induct)
  case (1 d s)
  show ?case
  proof (cases "s = ''''")
    case True
    with "1.prems" show ?thesis by (simp add: duration_units.simps)
  next
    case False
    obtain whole digits s2 where n: "number_part s = (whole, digits, s2)" by (cases "number_part s")
    from "1.prems"(1) False n obtain u v where uv: "hd s = CHR ''.'' \<or> digit_char (hd s)"
      "\<not> leading_int whole > 2 ^ 63" "\<not> (whole = '''' \<and> digits = '''')" "takeWhile unit_char s2 \<noteq> ''''"
      "duration_unit (takeWhile unit_char s2) = Some u"
      "duration_amount (leading_int whole) (leading_fraction digits) u = Some v"
      "\<not> (d + v) mod 2 ^ 64 > 2 ^ 63" "duration_units ((d + v) mod 2 ^ 64) (dropWhile unit_char s2) = Some r"
      by (subst (asm) duration_units.simps) (auto split: if_splits option.splits)
    show ?thesis
      by (rule "1.IH" [OF False _ n [symmetric] refl uv(2-6) uv(7,8)]) (use uv in auto)
  qed
qed

lemma parse_duration_range:
  assumes "parse_duration s = Some d" and "0 < d"
  shows "d \<le> max_int64"
  using assms duration_units_range [of 0]
  by (fastforce simp: parse_duration_def max_int64_def Let_def split: if_splits option.splits)

lemma getEnvDuration_range:
  assumes "fallback \<in> {1..max_int64}"
  shows "getEnvDuration env key fallback \<in> {1..max_int64}"
  using assms parse_duration_range by (force simp: getEnvDuration_def Let_def split: option.splits)

lemma getEnvPositiveInt_range:
  assumes "fallback \<in> {1..max_int64}"
  shows "getEnvPositiveInt env key fallback \<in> {1..max_int64}"
  using assms atoi_range by (force simp: getEnvPositiveInt_def Let_def split: option.splits)

lemma getEnvNonNegativeInt_range:
  assumes "fallback \<in> {0..max_int64}"
  shows "getEnvNonNegativeInt env key fallback \<in> {0..max_int64}"
  using assms atoi_range by (force simp: getEnvNonNegativeInt_def Let_def split: option.splits)

lemma getEnvPositiveFloat_pos: "0 < fallback \<Longrightarrow> 0 < getEnvPositiveFloat env key fallback"
  by (auto simp: getEnvPositiveFloat_def Let_def split: option.splits)

lemma getEnv_nonempty: "fallback \<noteq> '''' \<Longrightarrow> getEnv env key fallback \<noteq> ''''"
  by (simp add: getEnv_def Let_def)

lemma of_nat_type_nonzero: "parse_uint16 s = Some n \<Longrightarrow> n \<noteq> 0 \<Longrightarrow> (of_nat n :: 16 word) \<noteq> 0"
  by (auto simp: parse_uint16_def word_of_nat_eq_0_iff dest: nat_dvd_not_less split: if_splits)

lemma getEnvDNSQueryType_nonzero: "fallback \<noteq> 0 \<Longrightarrow> getEnvDNSQueryType types env key fallback \<noteq> 0"
  using of_nat_type_nonzero by (auto simp: getEnvDNSQueryType_def Let_def split: option.splits)

lemma collectTargets_ok:
  "distinct (collectTargets seen parts) \<and> set (collectTargets seen parts) \<inter> set seen = {} \<and>
   list_all (\<lambda>t. t \<noteq> '''' \<and> isValidUpstreamAddress t) (collectTargets seen parts)"
  by (induction seen parts rule: collectTargets.induct) (auto simp: Let_def)

lemma resolveConfigPaths_nonempty:
  "path \<noteq> '''' \<Longrightarrow> fst (resolveConfigPaths stat path) \<noteq> '''' \<and> snd (resolveConfigPaths stat path) \<noteq> ''''"
  by (auto simp: resolveConfigPaths_def path_dir_def defaultConfigFile_def split: option.splits)


lemmas getEnv_usable =
  getEnvDuration_range [unfolded atLeastAtMost_iff] getEnvPositiveInt_range [unfolded atLeastAtMost_iff]
  getEnvNonNegativeInt_range [unfolded atLeastAtMost_iff] getEnvPositiveFloat_pos
  getEnv_nonempty [THEN not_sym] getEnvDNSQueryType_nonzero

lemmas runtime_defaults =
  defaultProxyTimeout_def defaultProxyCacheTTL_def defaultProxyGlobalRateLimitRPS_def
  defaultProxyGlobalRateLimitBurst_def defaultProxyPerSourceRateLimitRPS_def
  defaultProxyPerSourceRateLimitBurst_def defaultProxyPerSourceRateLimitStateTTL_def
  defaultProxyPerSourceRateLimitMaxSource_def defaultProxyCacheMaxEntries_def defaultEngineConnPoolSize_def
  defaultHealthProbeDomain_def defaultHealthProbeType_def defaultDiagnosticsInterval_def
  defaultDiagnosticsTimeout_def defaultEngineRecoveryInterval_def defaultComponentErrorBuffer_def
  defaultConfigWatchDebounce_def defaultEngineType_def defaultListenAddr_def defaultEngineAddr_def
  defaultConfigPath_def defaultMetricsAddr_def defaultHealthAddr_def defaultEngineCfgDir_def defaultLogMode_def TypeNS_def

text \<open>
  C32.  Every environment gives a usable configuration, whatever the variables hold, garbage and
  out-of-range numbers included.  The seven durations are positive 64-bit numbers, and so are the
  two bursts, the number of sources, the size of the connection pool and the buffer of component
  errors; the entries of the cache are a 64-bit number that may be 0, and the rates of the two limiters
  are positive.  The engine's type, the four addresses the agent listens at or asks (DNS, engine,
  metrics, health), the file and the directory of the configuration, the engine's directory, the
  name that is probed and the log mode are not empty.  The probe type is not zero and the diagnostics targets
  are distinct valid addresses.  Nothing is said of the tracing endpoint and service name, which may be empty,
  and of the two sampling ratios.
\<close>

theorem runtime_config_usable:
  "let c = loadRuntimeConfig types stat env in
     {ProxyTimeout c, ProxyPerSourceRateLimitStateTTL c, ProxyCacheDefaultTTL c, ConfigWatchDebounce c,
      EngineRecoveryInterval c, DiagnosticsInterval c, DiagnosticsTimeout c} \<subseteq> {1..max_int64} \<and>
     {ProxyGlobalRateLimitBurst c, ProxyPerSourceRateLimitBurst c, ProxyPerSourceRateLimitMaxSrc c,
      EngineConnectionPoolSize c, ComponentErrorBuffer c} \<subseteq> {1..max_int64} \<and>
     ProxyCacheMaxEntries c \<in> {0..max_int64} \<and> 0 < ProxyGlobalRateLimitRPS c \<and> 0 < ProxyPerSourceRateLimitRPS c \<and>
     '''' \<notin> {EngineType c, ListenAddr c, EngineAddr c, MetricsAddr c, HealthAddr c, ConfigFile c, ConfigSourceDir c,
       EngineConfigDir c, HealthProbeDomain c, LogMode c} \<and>
     HealthProbeType c \<noteq> 0 \<and> distinct (DiagnosticsTargets c) \<and>
     list_all isValidUpstreamAddress (DiagnosticsTargets c)"
proof -
  let ?path = "getEnv env ''ASTRADNS_CONFIG_PATH'' defaultConfigPath"
  obtain dir cfile where paths: "resolveConfigPaths stat ?path = (dir, cfile)" by fastforce
  have "?path \<noteq> ''''" by (rule getEnv_nonempty) (simp add: runtime_defaults)
  from resolveConfigPaths_nonempty [OF this, of stat] paths have "dir \<noteq> ''''" "cfile \<noteq> ''''" by auto
  moreover have "{1, 5, 64, 200, 400, 2000, 4000, 10000, second, 2 * second, 3 * second, 5 * second, 30 * second,
      minute, 5 * minute} \<subseteq> {1..max_int64}"
    by (simp add: max_int64_def go_time_simps)
  ultimately show ?thesis
    using collectTargets_ok [of "[]"]
    unfolding loadRuntimeConfig_def paths prod.case
    by (simp add: getEnv_usable parseDiagnosticsTargets_def runtime_defaults list_all_iff)
qed

text \<open>
  C33.  A number written in decimal is read back: a setting of a count that holds the text of a
  positive 64-bit number gives the configuration that number, for the burst of the global rate
  limit, the burst and the number of sources of the per-source limit, the entries of the cache,
  the connections of the engine pool and the buffer of component errors.
\<close>

theorem settings_roundtrip:
  assumes "0 < n" and "n \<le> max_int64"
  shows
    "(env ''ASTRADNS_PROXY_RATE_LIMIT_GLOBAL_BURST'' = itoa n \<longrightarrow>
        ProxyGlobalRateLimitBurst (loadRuntimeConfig types stat env) = n) \<and>
     (env ''ASTRADNS_PROXY_RATE_LIMIT_PER_SOURCE_BURST'' = itoa n \<longrightarrow>
        ProxyPerSourceRateLimitBurst (loadRuntimeConfig types stat env) = n) \<and>
     (env ''ASTRADNS_PROXY_RATE_LIMIT_PER_SOURCE_MAX_SOURCES'' = itoa n \<longrightarrow>
        ProxyPerSourceRateLimitMaxSrc (loadRuntimeConfig types stat env) = n) \<and>
     (env ''ASTRADNS_PROXY_CACHE_MAX_ENTRIES'' = itoa n \<longrightarrow>
        ProxyCacheMaxEntries (loadRuntimeConfig types stat env) = n) \<and>
     (env ''ASTRADNS_ENGINE_CONN_POOL_SIZE'' = itoa n \<longrightarrow>
        EngineConnectionPoolSize (loadRuntimeConfig types stat env) = n) \<and>
     (env ''ASTRADNS_COMPONENT_ERROR_BUFFER'' = itoa n \<longrightarrow>
        ComponentErrorBuffer (loadRuntimeConfig types stat env) = n)"
proof -
  have "itoa n \<noteq> ''''" by (simp add: itoa_def)
  moreover have "atoi (itoa n) = Some n"
    using assms by (intro atoi_itoa) (auto simp: min_int64_def)
  ultimately have "env k = itoa n \<Longrightarrow> getEnvPositiveInt env k d = n"
    "env k = itoa n \<Longrightarrow> getEnvNonNegativeInt env k d = n" for k d
    using assms by (simp_all add: getEnvPositiveInt_def getEnvNonNegativeInt_def)
  then show ?thesis by (simp add: loadRuntimeConfig_def split: prod.split)
qed

lemma settings_roundtrip_witness:
  "ProxyGlobalRateLimitBurst (loadRuntimeConfig (\<lambda>_. None) (\<lambda>_. None) (\<lambda>_. itoa 12345)) = 12345"
  using settings_roundtrip [of 12345 "\<lambda>_. itoa 12345" "\<lambda>_. None" "\<lambda>_. None"] by (simp add: max_int64_def)

end
