(* ===== verification/Agent.thy ===== *)
theory Agent
  imports Engines AgentConfig AgentEnv Health Proxy
begin

section \<open>The agent\<close>

text \<open>
  The part of \<open>cmd/agent/main.go\<close> that ties the components together: start-up, the reload of the
  configuration with its rollback, the supervision of the engine and the shutdown.  The engine is
  any entry of the registry, driven through \<open>synchronizedEngine\<close>.  Log records and trace spans,
  with the hashes that only they show, are left out; of the metrics the operations on the agent's
  own counters are kept (\<open>agent_ops\<close>).

  The watcher's goroutine reloads and the supervisor's restarts; each call to the engine is atomic,
  a reload is not.  What the supervisor and the operating system do to the engine between the
  calls of a reload is an argument of the reload (\<open>restart_call\<close>).
\<close>

subsection \<open>The synchronized engine\<close>

text \<open>
  Each method holds the lock for the whole call to the inner engine, so calls never overlap: here
  they are atomic.
\<close>

definition synchronizedEngine :: "engine_api \<Rightarrow> engine_api" where
  "synchronizedEngine inner =
     \<lparr>api_Configure = api_Configure inner, api_Start = api_Start inner, api_Reload = api_Reload inner,
      api_Stop = api_Stop inner, api_HealthStatus = api_HealthStatus inner,
      api_HealthCheck = (\<lambda>env e. case api_HealthStatus inner env e of (status, er) \<Rightarrow> (Healthy status, er)),
      api_Capabilities = api_Capabilities inner, api_Name = api_Name inner\<rparr>"

subsection \<open>What the components are given of a configuration\<close>

definition upstreamTargetsFromConfig :: "EngineConfig \<Rightarrow> UpstreamTarget list" where
  "upstreamTargetsFromConfig cfg =
     map (\<lambda>u. \<lparr>UpstreamTarget.Address = UpstreamConfig.Address u, Port = UpstreamConfig.Port u,
             Transport = UpstreamConfig.Transport u, TLSServerName = UpstreamConfig.TLSServerName u\<rparr>)
       (EngineConfig.Upstreams cfg)"

definition fallbackUpstreamsFromConfig :: "EngineConfig \<Rightarrow> string list" where
  "fallbackUpstreamsFromConfig cfg =
     map (\<lambda>u. UpstreamConfig.Address u @ '':'' @
            itoa (if UpstreamConfig.Port u = 0 then 53 else UpstreamConfig.Port u))
       (filter (\<lambda>u. \<not> UpstreamConfig.Transport u \<noteq> UpstreamTransportDNS) (EngineConfig.Upstreams cfg))"

definition filterRcodeFromConfig :: "EngineConfig \<Rightarrow> int" where
  "filterRcodeFromConfig cfg =
     (if Action (DomainFilter cfg) = DomainFilterActionNXDomain then RcodeNameError else RcodeRefused)"

subsection \<open>Reloading\<close>

datatype restart_call = RestartStop op_env | RestartStart op_env | ProcessEnds nat

definition restart_step :: "engine_api \<Rightarrow> engine \<Rightarrow> restart_call \<Rightarrow> engine" where
  "restart_step eng e c =
     engine_step eng e (case c of RestartStop env \<Rightarrow> CallStop env | RestartStart env \<Rightarrow> CallStart env
                        | ProcessEnds pid \<Rightarrow> Crash pid)"

definition meanwhile :: "engine_api \<Rightarrow> restart_call list \<Rightarrow> engine \<Rightarrow> engine" where
  "meanwhile eng cs e = foldl (restart_step eng) e cs"

text \<open>\<open>applyConfigReload\<close>: configure, then reload, each with what happens before it and what the machine answers to it.\<close>

datatype apply_error = ReconfigureFailed engine_error | EngineReloadFailed engine_error

record apply_env =
  before_configure :: "restart_call list"
  configure_env :: op_env
  before_reload :: "restart_call list"
  reload_env :: op_env

definition applyConfigReload :: "engine_api \<Rightarrow> apply_env \<Rightarrow> EngineConfig \<Rightarrow> engine \<Rightarrow> apply_error option \<times> engine" where
  "applyConfigReload eng env cfg e =
     (case api_Configure eng (configure_env env) cfg (meanwhile eng (before_configure env) e) of
        (Inl er, e1) \<Rightarrow> (Some (ReconfigureFailed er), e1)
      | (Inr _, e1) \<Rightarrow>
          (case api_Reload eng (reload_env env) (meanwhile eng (before_reload env) e1) of
             (Some er, e2) \<Rightarrow> (Some (EngineReloadFailed er), e2)
           | (None, e2) \<Rightarrow> (None, e2)))"

record agent =
  agent_engine :: engine
  currentConfig :: EngineConfig
  agent_checker :: Checker
  agent_proxy :: Proxy
  agent_ops :: "metric_op list"

definition count_op :: "counter \<Rightarrow> agent \<Rightarrow> agent" where
  "count_op c a = a\<lparr>agent_ops := agent_ops a @ [Inc c]\<rparr>"

datatype reload_error =
    ReloadReadFailed load_error
  | ReloadInvalid config_error
  | ReloadCanceled apply_error
  | RollbackFailed apply_error apply_error
  | RolledBack apply_error

text \<open>
  What one run of the reload callback meets: the file and its decoding, the machine for the new
  configuration and for the rollback, whether the context has ended when applying has failed, the
  order in which the checker's map is enumerated, and the probes of \<open>CheckNow\<close>.
\<close>

record reload_run =
  unmarshal :: "string \<Rightarrow> EngineConfig option"
  readFile :: "string \<Rightarrow> file_read"
  apply_env :: apply_env
  rollback_env :: apply_env
  reload_ended :: bool
  label_rank :: "string \<Rightarrow> nat"
  probes :: probe_env

text \<open>
  What follows when the engine has taken the new configuration, one call after the other: the
  upstreams of the checker, its probes of all of them, which may take seconds, the filter with its
  response code, the fallback servers, the configuration itself and the count.
\<close>

definition adoptSteps :: "reload_run \<Rightarrow> EngineConfig \<Rightarrow> (agent \<Rightarrow> agent) list" where
  "adoptSteps r newConfig =
     [\<lambda>a. a\<lparr>agent_checker := UpdateUpstreams (label_rank r) (upstreamTargetsFromConfig newConfig) (agent_checker a)\<rparr>,
      \<lambda>a. a\<lparr>agent_checker := checkAll (probes r) (agent_checker a)\<rparr>,
      \<lambda>a. a\<lparr>agent_proxy := UpdateFilter (agent_proxy a) (Allow (DomainFilter newConfig))
               (Deny (DomainFilter newConfig)) (filterRcodeFromConfig newConfig)\<rparr>,
      \<lambda>a. a\<lparr>agent_proxy := UpdateFallbackUpstreams (agent_proxy a) (fallbackUpstreamsFromConfig newConfig)\<rparr>,
      \<lambda>a. a\<lparr>currentConfig := newConfig\<rparr>,
      count_op AgentConfigReloadTotal]"

definition run_steps :: "(agent \<Rightarrow> agent) list \<Rightarrow> agent \<Rightarrow> agent" where
  "run_steps steps a = foldl (\<lambda>a step. step a) a steps"

definition adoptConfig :: "reload_run \<Rightarrow> EngineConfig \<Rightarrow> agent \<Rightarrow> agent" where
  "adoptConfig r newConfig a = run_steps (adoptSteps r newConfig) a"

definition onReload ::
  "engine_api \<Rightarrow> int \<Rightarrow> runtimeConfig \<Rightarrow> reload_run \<Rightarrow> agent \<Rightarrow> reload_error option \<times> agent" where
  "onReload eng cpus cfg r a =
     (case loadEngineConfig (unmarshal r) (readFile r) cpus (ConfigFile cfg) (runtimeConfig.EngineAddr cfg) of
        Inl er \<Rightarrow> (Some (ReloadReadFailed er), count_op AgentConfigReloadErrorsTotal a)
      | Inr newConfig \<Rightarrow>
          (case validateEngineConfig newConfig of
             Some er \<Rightarrow> (Some (ReloadInvalid er), count_op AgentConfigReloadErrorsTotal a)
           | None \<Rightarrow>
               (case applyConfigReload eng (apply_env r) newConfig (agent_engine a) of
                  (None, e1) \<Rightarrow> (None, adoptConfig r newConfig (a\<lparr>agent_engine := e1\<rparr>))
                | (Some er, e1) \<Rightarrow>
                    (let a1 = count_op AgentConfigReloadErrorsTotal (a\<lparr>agent_engine := e1\<rparr>) in
                     if reload_ended r then (Some (ReloadCanceled er), a1)
                     else
                       case applyConfigReload eng (rollback_env r) (currentConfig a1) (agent_engine a1) of
                         (Some er', e2) \<Rightarrow> (Some (RollbackFailed er er'), a1\<lparr>agent_engine := e2\<rparr>)
                       | (None, e2) \<Rightarrow> (Some (RolledBack er), a1\<lparr>agent_engine := e2\<rparr>)))))"

subsection \<open>Supervision\<close>

text \<open>\<open>isEngineResponsive\<close>: the query to the engine fails, is answered by nothing or is answered.\<close>

definition isEngineResponsive :: "string + int option \<Rightarrow> bool" where
  "isEngineResponsive resp =
     (case resp of Inl _ \<Rightarrow> False | Inr None \<Rightarrow> False | Inr (Some _) \<Rightarrow> True)"

record tick =
  engine_answer :: "string + int option"
  stop_env :: op_env
  start_env :: op_env

definition superviseTick :: "engine_api \<Rightarrow> tick \<Rightarrow> engine \<times> metric_op list \<Rightarrow> engine \<times> metric_op list" where
  "superviseTick eng t s =
     (let (e, ops) = s in
      if isEngineResponsive (engine_answer t) then (e, ops)
      else
        let ops1 = ops @ [Inc AgentEngineRecoveryAttemptsTotal];
            (_, e1) = api_Stop eng (stop_env t) e;
            (startErr, e2) = api_Start eng (start_env t) e1
        in if startErr \<noteq> None then (e2, ops1 @ [Inc AgentEngineRecoveryErrorsTotal])
           else (e2, ops1 @ [Inc AgentEngineRecoverySuccessTotal]))"

text \<open>The ticks before the context ends.\<close>

definition superviseEngine :: "engine_api \<Rightarrow> duration \<Rightarrow> tick list \<Rightarrow> engine \<times> metric_op list \<Rightarrow> engine \<times> metric_op list" where
  "superviseEngine eng interval ticks s =
     (if interval \<le> 0 then s else foldl (\<lambda>s t. superviseTick eng t s) s ticks)"

subsection \<open>Starting\<close>

definition proxyConfigOf :: "runtimeConfig \<Rightarrow> EngineConfig \<Rightarrow> ProxyConfig" where
  "proxyConfigOf cfg engineConfig =
     \<lparr>ProxyConfig.ListenAddr = runtimeConfig.ListenAddr cfg,
      EngineAddr = runtimeConfig.EngineAddr cfg,
      QueryTimeout = ProxyTimeout cfg,
      EngineConnectionPoolSize = runtimeConfig.EngineConnectionPoolSize cfg,
      EventChanSize = defaultWorkerBuffer,
      CacheMaxEntries = ProxyCacheMaxEntries cfg,
      CacheDefaultTTL = ProxyCacheDefaultTTL cfg,
      OnEventDrop = True,
      GlobalRateLimitRPS = ProxyGlobalRateLimitRPS cfg,
      GlobalRateLimitBurst = ProxyGlobalRateLimitBurst cfg,
      PerSourceRateLimitRPS = ProxyPerSourceRateLimitRPS cfg,
      PerSourceRateLimitBurst = ProxyPerSourceRateLimitBurst cfg,
      PerSourceRateLimitStateTTL = ProxyPerSourceRateLimitStateTTL cfg,
      PerSourceRateLimitMaxSources = ProxyPerSourceRateLimitMaxSrc cfg,
      DomainFilterAllow = Allow (DomainFilter engineConfig),
      DomainFilterDeny = Deny (DomainFilter engineConfig),
      DomainFilterDenyRcode = filterRcodeFromConfig engineConfig,
      FallbackUpstreams = fallbackUpstreamsFromConfig engineConfig\<rparr>"

definition checkerConfigOf :: "runtimeConfig \<Rightarrow> EngineConfig \<Rightarrow> CheckerConfig" where
  "checkerConfigOf cfg engineConfig =
     \<lparr>Upstreams = upstreamTargetsFromConfig engineConfig, IntervalSeconds = 10, TimeoutSeconds = 2,
      FailureThreshold = 3, ProbeDomain = HealthProbeDomain cfg, ProbeType = HealthProbeType cfg\<rparr>"

datatype start_error =
    EngineUnknown
  | StartLoadFailed load_error
  | StartInvalid config_error
  | StartConfigureFailed engine_error
  | StartEngineFailed engine_error

record start_run =
  start_unmarshal :: "string \<Rightarrow> EngineConfig option"
  start_readFile :: "string \<Rightarrow> file_read"
  start_configure :: op_env
  start_engine :: op_env
  start_probes :: probe_env
  start_now :: time

text \<open>
  \<open>main\<close> up to the components: the engine of the configured type (\<open>engine.New\<close>, from the registry),
  its configuration, its process, the proxy and the health checker after its first pass.  Each
  error ends the program with code 1.
\<close>

definition startAgent ::
  "(string \<times> engine_api \<times> (string \<Rightarrow> engine_state)) list \<Rightarrow> int \<Rightarrow> runtimeConfig \<Rightarrow> start_run \<Rightarrow> machine \<Rightarrow>
   start_error + engine_api \<times> agent" where
  "startAgent registry cpus cfg run w =
     (case map_of registry (EngineType cfg) of
        None \<Rightarrow> Inl EngineUnknown
      | Some (baseEngine, new) \<Rightarrow>
          (let eng = synchronizedEngine baseEngine in
           case loadEngineConfig (start_unmarshal run) (start_readFile run) cpus (ConfigFile cfg)
                  (runtimeConfig.EngineAddr cfg) of
             Inl er \<Rightarrow> Inl (StartLoadFailed er)
           | Inr engineConfig \<Rightarrow>
               (case validateEngineConfig engineConfig of
                  Some er \<Rightarrow> Inl (StartInvalid er)
                | None \<Rightarrow>
                    (case api_Configure eng (start_configure run) engineConfig (new (EngineConfigDir cfg), w) of
                       (Inl er, _) \<Rightarrow> Inl (StartConfigureFailed er)
                     | (Inr _, e1) \<Rightarrow>
                         (case api_Start eng (start_engine run) e1 of
                            (Some er, _) \<Rightarrow> Inl (StartEngineFailed er)
                          | (None, e2) \<Rightarrow>
                              Inr (eng,
                                \<lparr>agent_engine = e2, currentConfig = engineConfig,
                                 agent_checker = checkAll (start_probes run) (NewChecker (checkerConfigOf cfg engineConfig) True),
                                 agent_proxy = New (proxyConfigOf cfg engineConfig) (start_now run),
                                 agent_ops = []\<rparr>))))))"

subsection \<open>Components and shutdown\<close>

text \<open>How the function of a component ends: an error that is \<open>context.Canceled\<close> is told apart.\<close>

datatype fn_end = ReturnsNil | ReturnsCanceled | ReturnsError string | Panics string

text \<open>
  The channel of component errors is never closed; a report that finds it full is dropped and
  counted by \<open>onDrop\<close>, when it is not nil.
\<close>

definition reportComponentErr :: "bool \<Rightarrow> string \<Rightarrow> string chan \<times> metric_op list \<Rightarrow> (string chan \<times> metric_op list) option" where
  "reportComponentErr has_onDrop err = (\<lambda>(errs, ops).
     (case trySend errs err of
        None \<Rightarrow> None
      | Some (True, errs') \<Rightarrow> Some (errs', ops)
      | Some (False, errs') \<Rightarrow>
          Some (errs', if has_onDrop then ops @ [Inc ComponentErrorBufferOverflowsTotal] else ops)))"

definition startComponent ::
  "string \<Rightarrow> fn_end \<Rightarrow> string chan \<times> metric_op list \<Rightarrow> (string chan \<times> metric_op list) option" where
  "startComponent name result s =
     (case result of
        Panics recovered \<Rightarrow> reportComponentErr True (name @ '' panicked: '' @ recovered) s
      | ReturnsError err \<Rightarrow> reportComponentErr True (name @ '' failed: '' @ err) s
      | ReturnsCanceled \<Rightarrow> Some s
      | ReturnsNil \<Rightarrow> Some s)"

text \<open>The final \<open>select\<close>: the context ended, or the first component error (\<open>runErr\<close>).\<close>

definition awaitEnd :: "bool \<Rightarrow> string chan \<Rightarrow> string option" where
  "awaitEnd signalled errs =
     (if signalled then None else case recv errs of (Got err, _) \<Rightarrow> Some err | _ \<Rightarrow> None)"

text \<open>The shutdown of proxy and engine, and the exit code; closing the proxy twice would panic.\<close>

definition shutdown :: "engine_api \<Rightarrow> op_env \<Rightarrow> string option \<Rightarrow> agent \<Rightarrow> (int \<times> agent) option" where
  "shutdown eng env runErr a =
     (case Proxy.Stop (agent_proxy a) of
        None \<Rightarrow> None
      | Some (p, _) \<Rightarrow>
          (let (_, e) = api_Stop eng env (agent_engine a) in
           Some (if runErr \<noteq> None then 1 else 0,
             a\<lparr>agent_proxy := p, agent_engine := e, agent_ops := agent_ops a @ [SetAgentUp 0]\<rparr>)))"

subsection \<open>Runs\<close>

text \<open>What happens to a started agent, in the order in which it happens.\<close>

datatype agent_event = ConfigChanged reload_run | SupervisorTick tick | EngineEnds nat

definition agent_step :: "engine_api \<Rightarrow> int \<Rightarrow> runtimeConfig \<Rightarrow> agent \<Rightarrow> agent_event \<Rightarrow> agent" where
  "agent_step eng cpus cfg a ev =
     (case ev of
        ConfigChanged r \<Rightarrow> snd (onReload eng cpus cfg r a)
      | SupervisorTick t \<Rightarrow>
          (case superviseTick eng t (agent_engine a, agent_ops a) of
             (e, ops) \<Rightarrow> a\<lparr>agent_engine := e, agent_ops := ops\<rparr>)
      | EngineEnds pid \<Rightarrow> a\<lparr>agent_engine := crash pid (agent_engine a)\<rparr>)"

end
