(* ===== verification/AgentProperties.thy ===== *)
theory AgentProperties
  imports Agent EngineProperties
begin

section \<open>Properties of the agent\<close>

text \<open>
  The agent is a client of the engine contract: what it needs of an engine is proved inside the
  locale, for any engine, and used for the engines of the registry behind \<open>synchronizedEngine\<close>.
\<close>

subsection \<open>The agent as a client of an engine\<close>

text \<open>The engine has a configuration: it answers health queries for it and its file holds the rendered text.\<close>

definition engine_follows ::
  "(EngineConfig \<Rightarrow> render_error + string) \<Rightarrow> (EngineConfig \<Rightarrow> EngineConfig) \<Rightarrow> EngineConfig \<Rightarrow> engine \<Rightarrow> bool" where
  "engine_follows render nf c e \<longleftrightarrow>
     engine_config (fst e) = nf c \<and> (\<exists>out. render c = Inr out \<and> installed e = Some out)"

fun restart_refused :: "restart_call \<Rightarrow> bool" where
  "restart_refused (RestartStop env) \<longleftrightarrow> signal_result env = SignalFails"
| "restart_refused _ \<longleftrightarrow> False"

definition apply_signals :: "apply_env \<Rightarrow> bool" where
  "apply_signals env \<longleftrightarrow>
     list_all (\<lambda>c. \<not> restart_refused c) (before_configure env) \<and> list_all (\<lambda>c. \<not> restart_refused c) (before_reload env)"

context engine_contract
begin

lemma synchronized: "engine_contract (synchronizedEngine api) render_config normal_form path_of"
  using engine_contract_axioms
  by (simp add: engine_contract_def synchronizedEngine_def split: prod.split) (metis fst_conv snd_conv health_check)

lemma stop_keeps:
  assumes "sound e"
  shows "sound (snd (api_Stop api env e)) \<and>
    (engine_follows render_config normal_form c e \<longrightarrow>
       engine_follows render_config normal_form c (snd (api_Stop api env e)))"
proof -
  obtain r e' where "api_Stop api env e = (r, e')" by (cases "api_Stop api env e" rule: prod.exhaust)
  with stop_result [OF this] assms show ?thesis by (simp add: engine_follows_def)
qed

lemma start_keeps:
  assumes "sound e"
  shows "sound (snd (api_Start api env e)) \<and>
    (engine_follows render_config normal_form c e \<longrightarrow>
       engine_follows render_config normal_form c (snd (api_Start api env e)))"
proof -
  obtain r e' where s: "api_Start api env e = (r, e')" by (cases "api_Start api env e" rule: prod.exhaust)
  show ?thesis
  proof (cases r)
    case None
    with s start_done [of env e e'] assms show ?thesis by (simp add: engine_follows_def)
  next
    case (Some er)
    with s start_failed [of env e er e'] assms show ?thesis by simp
  qed
qed

lemma crash_keeps:
  "sound e \<Longrightarrow> sound (crash pid e) \<and>
    (engine_follows render_config normal_form c e \<longrightarrow> engine_follows render_config normal_form c (crash pid e))"
  by (simp add: crash_def sound_def engine_follows_def installed_def reap_def [symmetric])

lemma meanwhile_keeps:
  assumes "sound e"
  shows "sound (meanwhile api cs e) \<and>
    (engine_follows render_config normal_form c e \<longrightarrow> engine_follows render_config normal_form c (meanwhile api cs e))"
  using assms
proof (induction cs arbitrary: e)
  case Nil
  then show ?case by (simp add: meanwhile_def)
next
  case (Cons k cs)
  have "sound (restart_step api e k) \<and>
    (engine_follows render_config normal_form c e \<longrightarrow> engine_follows render_config normal_form c (restart_step api e k))"
    using Cons.prems stop_keeps start_keeps crash_keeps
    by (cases k) (simp_all add: restart_step_def engine_step_def)
  with Cons.IH show ?case by (simp add: meanwhile_def)
qed

lemma meanwhile_one_process:
  "one_process e \<Longrightarrow> list_all (\<lambda>c. \<not> restart_refused c) cs \<Longrightarrow> one_process (meanwhile api cs e)"
proof (induction cs arbitrary: e)
  case Nil
  then show ?case by (simp add: meanwhile_def)
next
  case (Cons k cs)
  then have "one_process (restart_step api e k)"
    unfolding restart_step_def by (cases k) (auto intro: one_process_step)
  with Cons show ?case by (simp add: meanwhile_def)
qed

lemma configure_one_process: "one_process e \<Longrightarrow> api_Configure api env cfg e = (r, e') \<Longrightarrow> one_process e'"
  using one_process_configure [of e env cfg] by simp

text \<open>Applying a configuration: on success the engine has it.\<close>

lemma apply_result:
  assumes run: "applyConfigReload api env c e = (r, e')" and "sound e"
  shows "sound e' \<and> (r = None \<longrightarrow> engine_follows render_config normal_form c e')"
proof -
  let ?e0 = "meanwhile api (before_configure env) e"
  obtain s e1 where conf: "api_Configure api (configure_env env) c ?e0 = (s, e1)"
    by (cases "api_Configure api (configure_env env) c ?e0" rule: prod.exhaust)
  have "same_processes ?e0 e1"
    using conf configure_done configure_failed by (cases s) blast+
  with meanwhile_keeps [OF assms(2)] have sound1: "sound e1" by (simp add: same_processes_sound)
  show ?thesis
  proof (cases s)
    case (Inl er)
    with run conf sound1 show ?thesis by (auto simp: applyConfigReload_def)
  next
    case (Inr path)
    let ?e1 = "meanwhile api (before_reload env) e1"
    obtain t e2 where re: "api_Reload api (reload_env env) ?e1 = (t, e2)"
      by (cases "api_Reload api (reload_env env) ?e1" rule: prod.exhaust)
    have "engine_follows render_config normal_form c e1"
      using configure_done [of "configure_env env" c ?e0 path e1] conf Inr by (simp add: engine_follows_def)
    with meanwhile_keeps [OF sound1] reload_keeps [OF re] have "sound e2 \<and> engine_follows render_config normal_form c e2" by simp
    with run conf Inr re show ?thesis by (auto simp: applyConfigReload_def split: option.splits)
  qed
qed

lemma apply_one_process:
  assumes run: "applyConfigReload api env c e = (r, e')" and "one_process e" and sig: "apply_signals env"
  shows "one_process e'"
proof -
  let ?e0 = "meanwhile api (before_configure env) e"
  obtain s e1 where conf: "api_Configure api (configure_env env) c ?e0 = (s, e1)"
    by (cases "api_Configure api (configure_env env) c ?e0" rule: prod.exhaust)
  have one1: "one_process e1"
    using meanwhile_one_process [OF assms(2)] sig configure_one_process [OF _ conf] by (simp add: apply_signals_def)
  let ?e1 = "meanwhile api (before_reload env) e1"
  obtain t e2 where re: "api_Reload api (reload_env env) ?e1 = (t, e2)"
    by (cases "api_Reload api (reload_env env) ?e1" rule: prod.exhaust)
  have "one_process e2"
    using meanwhile_one_process [OF one1] sig reload_keeps [OF re] by (simp add: apply_signals_def)
  with run conf one1 re show ?thesis by (cases s) (auto simp: applyConfigReload_def split: option.splits)
qed

end

lemmas agent_contract = engine_contract.synchronized [OF registered_contract]

subsection \<open>Reloading\<close>

text \<open>
  Checker and proxy work with a configuration.  The checker watches its upstreams, in their order
  and each with its address, port, transport and server name; the proxy's filter is that of its
  patterns and decides as they say, and denies with NXDOMAIN (3) when its action says so and with REFUSED (5) otherwise; the
  fallback servers are its plain DNS upstreams, address and port joined by a colon.
\<close>

definition checker_follows :: "EngineConfig \<Rightarrow> agent \<Rightarrow> bool" where
  "checker_follows c a \<longleftrightarrow>
     map (\<lambda>t. (UpstreamTarget.Address t, UpstreamTarget.Port t, UpstreamTarget.Transport t, UpstreamTarget.TLSServerName t))
       (CheckerConfig.Upstreams (checker_config (agent_checker a))) =
     map (\<lambda>u. (UpstreamConfig.Address u, UpstreamConfig.Port u, UpstreamConfig.Transport u, UpstreamConfig.TLSServerName u))
       (EngineConfig.Upstreams c)"

definition filter_follows :: "EngineConfig \<Rightarrow> agent \<Rightarrow> bool" where
  "filter_follows c a \<longleftrightarrow>
     domain_filter (agent_proxy a) = newDomainFilter (Allow (DomainFilter c)) (Deny (DomainFilter c)) \<and>
     (\<forall>name. Allowed (domain_filter (agent_proxy a)) name \<longleftrightarrow>
        allowed_spec (Allow (DomainFilter c)) (Deny (DomainFilter c)) name) \<and>
     filterRcode (agent_proxy a) = (if Action (DomainFilter c) = ''nxdomain'' then 3 else 5)"

definition fallbacks_follow :: "EngineConfig \<Rightarrow> agent \<Rightarrow> bool" where
  "fallbacks_follow c a \<longleftrightarrow>
     fallbackUpstreams (agent_proxy a) =
       [UpstreamConfig.Address u @ '':'' @ itoa (UpstreamConfig.Port u).
          u \<leftarrow> EngineConfig.Upstreams c, UpstreamConfig.Transport u = ''dns'']"

definition components_follow :: "agent \<Rightarrow> bool" where
  "components_follow a \<longleftrightarrow>
     checker_follows (currentConfig a) a \<and> filter_follows (currentConfig a) a \<and> fallbacks_follow (currentConfig a) a"

lemmas follow_defs = checker_follows_def filter_follows_def fallbacks_follow_def

text \<open>The engine and the counts do not matter.\<close>

lemma follow_other [simp]:
  "components_follow (a\<lparr>agent_engine := e\<rparr>) = components_follow a"
  "components_follow (a\<lparr>agent_ops := ops\<rparr>) = components_follow a"
  by (simp_all add: components_follow_def follow_defs)

lemma follow_cong:
  "currentConfig a' = currentConfig a \<Longrightarrow> agent_checker a' = agent_checker a \<Longrightarrow> agent_proxy a' = agent_proxy a \<Longrightarrow>
     components_follow a' = components_follow a"
  by (simp add: components_follow_def follow_defs)

lemma count_op_fields [simp]:
  "agent_engine (count_op k a) = agent_engine a" "currentConfig (count_op k a) = currentConfig a"
  "agent_checker (count_op k a) = agent_checker a" "agent_proxy (count_op k a) = agent_proxy a"
  "agent_ops (count_op k a) = agent_ops a @ [Inc k]"
  by (simp_all add: count_op_def)

lemma filterRcode_kept:
  "rcode_or_refused (filterRcodeFromConfig c) = (if Action (DomainFilter c) = ''nxdomain'' then 3 else 5)"
  by (simp add: rcode_or_refused_def filterRcodeFromConfig_def DomainFilterActionNXDomain_def rcode_defs)

lemma checkAll_config: "checker_config (checkAll e c) = checker_config c"
proof -
  have "checker_config (check_targets e us c) = checker_config c" for us
    using check_targets_reports [of e us c] by auto
  then show ?thesis by (simp add: checkAll_def)
qed

lemmas adopt_defs = adoptConfig_def adoptSteps_def run_steps_def

lemma adoptConfig_fields:
  "agent_engine (adoptConfig r c a) = agent_engine a" "currentConfig (adoptConfig r c a) = c"
  "agent_ops (adoptConfig r c a) = agent_ops a @ [Inc AgentConfigReloadTotal]"
  by (simp_all add: adopt_defs)

text \<open>
  A configuration that was loaded and is valid keeps all its upstreams in the checker: their labels
  differ when their endpoints do.
\<close>

lemma joinHostPort_inj:
  assumes "joinHostPort h (itoa p) = joinHostPort h' (itoa p')" and "0 \<le> p" and "0 \<le> p'"
  shows "h = h' \<and> p = p'"
proof -
  define front where "front h = (if CHR '':'' \<in> set h then ''['' @ h @ '']'' else h)" for h
  have join: "joinHostPort h (itoa p) = front h @ CHR '':'' # itoa p" for h p
    by (simp add: joinHostPort_def front_def)
  from split_at_last [OF assms(1) [unfolded join]] itoa_no_colon assms(2,3)
  have "front h = front h'" and port: "itoa p = itoa p'" by auto
  then have "h = h'"
    by (auto simp: front_def split: if_splits)
  with port itoa_inj assms(2,3) show ?thesis by simp
qed

lemma joinHostPort_no_scheme:
  assumes "joinHostPort h (itoa p) = t @ ''://'' @ rest" and "normal_transport t" and "0 \<le> p"
  shows False
proof (cases "CHR '':'' \<in> set h")
  case True
  with assms(1,2) show False
    by (auto simp: joinHostPort_def normal_transport_def transport_defs)
next
  case False
  with assms(1) have eq: "h @ CHR '':'' # itoa p = t @ CHR '':'' # ''//'' @ rest" by (simp add: joinHostPort_def)
  have "CHR '':'' \<notin> set t" using assms(2) by (auto simp: normal_transport_def transport_defs)
  moreover have "dropWhile (\<lambda>c. c \<noteq> CHR '':'') (xs @ CHR '':'' # ys) = CHR '':'' # ys"
    if "CHR '':'' \<notin> set xs" for xs ys using that by (induction xs) auto
  ultimately have "itoa p = ''//'' @ rest"
    using arg_cong [OF eq, of "dropWhile (\<lambda>c. c \<noteq> CHR '':'')"] False by simp
  then have "CHR ''/'' \<in> set (itoa p)" by simp
  moreover have "\<not> digit_char CHR ''/''" by (simp add: digit_char_def byte_def)
  ultimately show False using assms(3) decimal_no by (simp add: itoa_def)
qed

definition upstream_loaded :: "UpstreamConfig \<Rightarrow> bool" where
  "upstream_loaded u \<longleftrightarrow>
     normal_transport (UpstreamConfig.Transport u) \<and> UpstreamConfig.Port u \<noteq> 0 \<and>
     (UpstreamConfig.Transport u = UpstreamTransportDNS \<longrightarrow> UpstreamConfig.TLSServerName u = '''')"

lemma loaded_config:
  assumes "loadEngineConfig decode read cpus path addr = Inr c"
  shows "list_all upstream_loaded (EngineConfig.Upstreams c)"
  using loaded_upstreams [OF assms] loadUpstream_normal loadUpstream_port loadUpstream_tls
  by (auto simp: upstream_loaded_def list_all_iff)

abbreviation target_of :: "UpstreamConfig \<Rightarrow> UpstreamTarget" where
  "target_of u \<equiv> \<lparr>UpstreamTarget.Address = UpstreamConfig.Address u, Port = UpstreamConfig.Port u,
     Transport = UpstreamConfig.Transport u, TLSServerName = UpstreamConfig.TLSServerName u\<rparr>"

lemma label_of_loaded:
  assumes "upstream_loaded u"
  shows "upstreamLabel (target_of u) =
    (let endpoint = joinHostPort (UpstreamConfig.Address u) (itoa (UpstreamConfig.Port u)) in
     if UpstreamConfig.Transport u = UpstreamTransportDNS then endpoint
     else UpstreamConfig.Transport u @ ''://'' @ endpoint)"
proof -
  have "normalizeUpstreamTransport (UpstreamConfig.Transport u) = UpstreamConfig.Transport u"
    using assms by (auto simp: upstream_loaded_def normal_transport_def)
  with assms show ?thesis by (simp add: upstreamLabel_def upstream_loaded_def Let_def)
qed

lemma label_of_loaded_inj:
  assumes "upstream_loaded u" "upstream_loaded v" "0 \<le> UpstreamConfig.Port u" "0 \<le> UpstreamConfig.Port v"
    and "upstreamLabel (target_of u) = upstreamLabel (target_of v)"
  shows "UpstreamConfig.Transport u = UpstreamConfig.Transport v \<and>
    UpstreamConfig.Address u = UpstreamConfig.Address v \<and> UpstreamConfig.Port u = UpstreamConfig.Port v"
proof -
  have n: "normal_transport (UpstreamConfig.Transport u)" "normal_transport (UpstreamConfig.Transport v)"
    using assms(1,2) by (simp_all add: upstream_loaded_def)
  note eq = assms(5) [unfolded label_of_loaded [OF assms(1)] label_of_loaded [OF assms(2)] Let_def]
  have "UpstreamConfig.Transport u = UpstreamTransportDNS \<longleftrightarrow> UpstreamConfig.Transport v = UpstreamTransportDNS"
    using eq joinHostPort_no_scheme [OF _ n(1) assms(4)] joinHostPort_no_scheme [OF _ n(2) assms(3)]
    by (auto split: if_splits) (metis)+
  moreover have "length (UpstreamConfig.Transport u) = length (UpstreamConfig.Transport v)"
    using n by (auto simp: normal_transport_def transport_defs)
  ultimately have "UpstreamConfig.Transport u = UpstreamConfig.Transport v"
    and "joinHostPort (UpstreamConfig.Address u) (itoa (UpstreamConfig.Port u)) =
      joinHostPort (UpstreamConfig.Address v) (itoa (UpstreamConfig.Port v))"
    using eq by (auto split: if_splits)
  with joinHostPort_inj assms(3,4) show ?thesis by blast
qed

lemma distinct_targets_id:
  "(\<forall>t\<in>set ts. normalize_target t = t) \<Longrightarrow> distinct (map upstreamLabel ts) \<Longrightarrow>
     set labels \<inter> upstreamLabel ` set ts = {} \<Longrightarrow> distinct_targets labels ts = ts"
  by (induction ts arbitrary: labels) (auto simp: Let_def)

lemma watched_targets:
  assumes "list_all upstream_loaded (EngineConfig.Upstreams c)" and "validateEngineConfig c = None"
  shows "distinct_targets [] (upstreamTargetsFromConfig c) = upstreamTargetsFromConfig c"
proof (rule distinct_targets_id)
  let ?us = "EngineConfig.Upstreams c"
  have loaded: "upstream_loaded u" if "u \<in> set ?us" for u
    using assms(1) that by (simp add: list_all_iff)
  have valid: "config_valid c" using assms(2) by (simp add: validate_None)
  have part: "endpoint_of u = (UpstreamConfig.Transport u, UpstreamConfig.Address u, UpstreamConfig.Port u) \<and>
      0 \<le> UpstreamConfig.Port u" if "u \<in> set ?us" for u
  proof -
    have transport: "transport_of u = UpstreamConfig.Transport u"
      using loaded [OF that] by (simp add: transport_of_def parse_keyword upstream_loaded_def)
    have port: "effective_port t u = UpstreamConfig.Port u" for t
      using loaded [OF that] by (simp add: effective_port_def upstream_loaded_def)
    have "1 \<le> effective_port (transport_of u) u"
      using valid that by (auto simp: config_valid_def upstream_valid_def)
    then show ?thesis by (simp add: endpoint_of_def transport port)
  qed
  have "normalize_target (target_of u) = target_of u" if "u \<in> set ?us" for u
    using loaded [OF that]
    by (auto simp: normalize_target_def upstream_loaded_def normal_transport_def Let_def)
  then show "\<forall>t\<in>set (upstreamTargetsFromConfig c). normalize_target t = t"
    by (simp add: upstreamTargetsFromConfig_def)
  have same: "endpoint_of u = endpoint_of v" if "u \<in> set ?us" "v \<in> set ?us"
    "upstreamLabel (target_of u) = upstreamLabel (target_of v)" for u v
    using label_of_loaded_inj [OF loaded [OF that(1)] loaded [OF that(2)] _ _ that(3)] part [OF that(1)] part [OF that(2)]
    by simp
  have "distinct ?us" and inj: "inj_on endpoint_of (set ?us)"
    using valid by (simp_all add: config_valid_def distinct_map)
  moreover have "inj_on (\<lambda>u. upstreamLabel (target_of u)) (set ?us)"
    by (rule inj_onI) (blast intro: same inj_onD [OF inj])
  ultimately have "distinct (map (\<lambda>u. upstreamLabel (target_of u)) ?us)" by (simp add: distinct_map)
  then show "distinct (map upstreamLabel (upstreamTargetsFromConfig c))"
    by (simp add: upstreamTargetsFromConfig_def comp_def)
  show "set [] \<inter> upstreamLabel ` set (upstreamTargetsFromConfig c) = {}" by simp
qed

lemma fallbacks_of_loaded:
  assumes "list_all upstream_loaded (EngineConfig.Upstreams c)"
  shows "fallbackUpstreamsFromConfig c =
    [UpstreamConfig.Address u @ '':'' @ itoa (UpstreamConfig.Port u).
       u \<leftarrow> EngineConfig.Upstreams c, UpstreamConfig.Transport u = ''dns'']"
proof -
  have "map (\<lambda>u. UpstreamConfig.Address u @ '':'' @
            itoa (if UpstreamConfig.Port u = 0 then 53 else UpstreamConfig.Port u))
          (filter (\<lambda>u. \<not> UpstreamConfig.Transport u \<noteq> UpstreamTransportDNS) us) =
      [UpstreamConfig.Address u @ '':'' @ itoa (UpstreamConfig.Port u). u \<leftarrow> us, UpstreamConfig.Transport u = ''dns'']"
    if "list_all upstream_loaded us" for us
    using that by (induction us) (simp_all add: upstream_loaded_def transport_defs)
  with assms show ?thesis by (simp add: fallbackUpstreamsFromConfig_def)
qed

lemma checker_targets: "map (\<lambda>t. (UpstreamTarget.Address t, UpstreamTarget.Port t, UpstreamTarget.Transport t,
      UpstreamTarget.TLSServerName t)) (upstreamTargetsFromConfig c) =
    map (\<lambda>u. (UpstreamConfig.Address u, UpstreamConfig.Port u, UpstreamConfig.Transport u, UpstreamConfig.TLSServerName u))
      (EngineConfig.Upstreams c)"
  by (simp add: upstreamTargetsFromConfig_def)

text \<open>Each step of adopting a configuration moves one component to it.\<close>

lemma adopt_moment:
  fixes r :: reload_run
  assumes "components_follow a"
    and "list_all upstream_loaded (EngineConfig.Upstreams c)" and "validateEngineConfig c = None"
  defines "m \<equiv> \<lambda>k. run_steps (take k (adoptSteps r c)) a" and "old \<equiv> currentConfig a"
  shows "checker_follows (if k = 0 then old else c) (m k) \<and> filter_follows (if k \<le> 2 then old else c) (m k) \<and>
    fallbacks_follow (if k \<le> 3 then old else c) (m k) \<and> currentConfig (m k) = (if k \<le> 4 then old else c)"
proof -
  consider "k = 0" | "k = 1" | "k = 2" | "k = 3" | "k = 4" | "k = 5" | "6 \<le> k" by linarith
  then show ?thesis
    using assms(1) watched_targets [OF assms(2,3)]
    by cases (simp_all add: m_def old_def run_steps_def adoptSteps_def numeral_eq_Suc components_follow_def follow_defs
        checkAll_config UpdateUpstreams_config UpdateFilter_def UpdateFallbackUpstreams_def filterRcode_kept
        newDomainFilter_decides checker_targets fallbacks_of_loaded [OF assms(2)])
qed

lemma adoptConfig_follow:
  assumes "list_all upstream_loaded (EngineConfig.Upstreams c)" and "validateEngineConfig c = None"
  shows "components_follow (adoptConfig r c a)"
  using watched_targets [OF assms]
  by (simp add: components_follow_def follow_defs adopt_defs checkAll_config UpdateUpstreams_config UpdateFilter_def
      UpdateFallbackUpstreams_def filterRcode_kept newDomainFilter_decides checker_targets
      fallbacks_of_loaded [OF assms(1)])

context engine_contract
begin

text \<open>The outcome of one reload, from the engine's side and from the agent's.\<close>

lemma reload_outcome:
  assumes run: "onReload api cpus cfg r a = (res, a')" and "sound (agent_engine a)"
  shows "sound (agent_engine a') \<and>
    (case res of
       None \<Rightarrow>
         loadEngineConfig (unmarshal r) (readFile r) cpus (ConfigFile cfg) (runtimeConfig.EngineAddr cfg) = Inr (currentConfig a') \<and>
         validateEngineConfig (currentConfig a') = None \<and>
         engine_follows render_config normal_form (currentConfig a') (agent_engine a') \<and> components_follow a' \<and>
         agent_ops a' = agent_ops a @ [Inc AgentConfigReloadTotal]
     | Some er \<Rightarrow>
         currentConfig a' = currentConfig a \<and> agent_checker a' = agent_checker a \<and> agent_proxy a' = agent_proxy a \<and>
         agent_ops a' = agent_ops a @ [Inc AgentConfigReloadErrorsTotal] \<and>
         (case er of
            ReloadReadFailed _ \<Rightarrow> agent_engine a' = agent_engine a
          | ReloadInvalid _ \<Rightarrow> agent_engine a' = agent_engine a
          | RolledBack _ \<Rightarrow> engine_follows render_config normal_form (currentConfig a) (agent_engine a')
          | _ \<Rightarrow> True))"
proof (cases "loadEngineConfig (unmarshal r) (readFile r) cpus (ConfigFile cfg) (runtimeConfig.EngineAddr cfg)")
  case (Inl er)
  with run assms(2) show ?thesis by (auto simp: onReload_def)
next
  case load: (Inr new)
  show ?thesis
  proof (cases "validateEngineConfig new")
    case (Some er)
    with run load assms(2) show ?thesis by (auto simp: onReload_def)
  next
    case valid: None
    obtain s e1 where applied: "applyConfigReload api (apply_env r) new (agent_engine a) = (s, e1)"
      by (cases "applyConfigReload api (apply_env r) new (agent_engine a)" rule: prod.exhaust)
    note first = apply_result [OF applied assms(2)]
    show ?thesis
    proof (cases s)
      case None
      with run load valid applied first show ?thesis
        by (auto simp: onReload_def adoptConfig_fields intro: adoptConfig_follow loaded_config)
    next
      case (Some er)
      obtain t e2 where undone: "applyConfigReload api (rollback_env r) (currentConfig a) e1 = (t, e2)"
        by (cases "applyConfigReload api (rollback_env r) (currentConfig a) e1" rule: prod.exhaust)
      from first have "sound e1" by simp
      note second = apply_result [OF undone this]
      from run load valid applied Some undone first second show ?thesis
        by (cases "reload_ended r"; cases t) (auto simp: onReload_def Let_def)
    qed
  qed
qed

end

text \<open>
  C2.  A reload that succeeds moves every component to the configuration it loaded, which is
  valid: the engine's file holds its text, and the checker and the proxy use its upstreams, its
  filter and its fallbacks.  One that fails leaves the agent's configuration, checker and proxy as
  they were and is counted; a file that cannot be read or is invalid does not reach the engine,
  and after a roll-back the engine has the configuration in use again, whatever the supervisor
  did to its process in between.
\<close>

theorem reload_all_or_nothing:
  assumes "(name, api, new) \<in> set (registered rcodes tmpls cpus)"
    and "onReload (synchronizedEngine api) cpus cfg r a = (res, a')" and "sound (agent_engine a)"
  shows "case res of
      None \<Rightarrow>
        loadEngineConfig (unmarshal r) (readFile r) cpus (ConfigFile cfg) (runtimeConfig.EngineAddr cfg) = Inr (currentConfig a') \<and>
        validateEngineConfig (currentConfig a') = None \<and>
        engine_follows (renderer tmpls cpus name) (normalizer cpus name) (currentConfig a') (agent_engine a') \<and>
        components_follow a' \<and> agent_ops a' = agent_ops a @ [Inc AgentConfigReloadTotal]
    | Some er \<Rightarrow>
        currentConfig a' = currentConfig a \<and> agent_checker a' = agent_checker a \<and> agent_proxy a' = agent_proxy a \<and>
        agent_ops a' = agent_ops a @ [Inc AgentConfigReloadErrorsTotal] \<and>
        (case er of
           ReloadReadFailed _ \<Rightarrow> agent_engine a' = agent_engine a
         | ReloadInvalid _ \<Rightarrow> agent_engine a' = agent_engine a
         | RolledBack _ \<Rightarrow> engine_follows (renderer tmpls cpus name) (normalizer cpus name) (currentConfig a) (agent_engine a')
         | _ \<Rightarrow> True)"
  using engine_contract.reload_outcome [OF agent_contract [OF assms(1)] assms(2,3)] by simp

subsection \<open>A run of the agent\<close>

definition reload_signals :: "reload_run \<Rightarrow> bool" where
  "reload_signals r \<longleftrightarrow> apply_signals (apply_env r) \<and> apply_signals (rollback_env r)"

definition event_signals :: "agent_event \<Rightarrow> bool" where
  "event_signals ev =
     (case ev of ConfigChanged r \<Rightarrow> reload_signals r
      | SupervisorTick t \<Rightarrow> signal_result (stop_env t) \<noteq> SignalFails
      | EngineEnds _ \<Rightarrow> True)"

text \<open>A reload that leaves the engine between two configurations.\<close>

fun unresolved :: "reload_error option \<Rightarrow> bool" where
  "unresolved (Some (ReloadCanceled _)) \<longleftrightarrow> True"
| "unresolved (Some (RollbackFailed _ _)) \<longleftrightarrow> True"
| "unresolved _ \<longleftrightarrow> False"

text \<open>The configuration is valid, the components work with it, and the proxy has not been stopped.\<close>

definition agent_ok :: "agent \<Rightarrow> bool" where
  "agent_ok a \<longleftrightarrow> sound (agent_engine a) \<and> validateEngineConfig (currentConfig a) = None \<and> components_follow a \<and>
     \<not> stopped (agent_proxy a) \<and> \<not> chan_closed (events (agent_proxy a))"

lemma supervise_fields:
  "fst (superviseTick eng t (e, ops)) =
     (if isEngineResponsive (engine_answer t) then e
      else snd (api_Start eng (start_env t) (snd (api_Stop eng (stop_env t) e))))"
  by (simp add: superviseTick_def Let_def split: prod.split)

lemma adoptConfig_proxy:
  "stopped (agent_proxy (adoptConfig r c a)) = stopped (agent_proxy a)"
  "events (agent_proxy (adoptConfig r c a)) = events (agent_proxy a)"
  by (simp_all add: adopt_defs UpdateFilter_def UpdateFallbackUpstreams_def)

lemma onReload_proxy:
  "stopped (agent_proxy (snd (onReload eng cpus cfg r a))) = stopped (agent_proxy a) \<and>
   events (agent_proxy (snd (onReload eng cpus cfg r a))) = events (agent_proxy a)"
  by (simp add: onReload_def Let_def adoptConfig_proxy split: sum.split option.split prod.split)

context engine_contract
begin

lemma supervise_keeps:
  "sound e \<Longrightarrow> sound (fst (superviseTick api t (e, ops))) \<and>
    (engine_follows render_config normal_form c e \<longrightarrow>
       engine_follows render_config normal_form c (fst (superviseTick api t (e, ops))))"
  using stop_keeps [of e "stop_env t" c] start_keeps [of "snd (api_Stop api (stop_env t) e)" "start_env t" c]
  by (simp add: supervise_fields)

lemma agent_step_ok:
  assumes "agent_ok a"
  shows "agent_ok (agent_step api cpus cfg a ev)"
proof (cases ev)
  case (ConfigChanged r)
  obtain res a' where run: "onReload api cpus cfg r a = (res, a')" by fastforce
  from reload_outcome [OF run] assms onReload_proxy [of api cpus cfg r a] run ConfigChanged show ?thesis
    by (cases res) (auto simp: agent_ok_def agent_step_def follow_cong [of a' a])
next
  case (SupervisorTick t)
  obtain e ops where "superviseTick api t (agent_engine a, agent_ops a) = (e, ops)" by fastforce
  with supervise_keeps [of "agent_engine a" t "agent_ops a"] SupervisorTick assms show ?thesis
    by (auto simp: agent_ok_def agent_step_def)
next
  case (EngineEnds pid)
  with crash_keeps [of "agent_engine a" pid] assms show ?thesis
    by (auto simp: agent_ok_def agent_step_def)
qed

lemma agent_run_ok: "agent_ok a \<Longrightarrow> agent_ok (foldl (agent_step api cpus cfg) a evs)"
  by (induction evs arbitrary: a) (simp_all add: agent_step_ok)

lemma agent_step_follows:
  assumes "agent_ok a" "engine_follows render_config normal_form (currentConfig a) (agent_engine a)"
    and "\<And>r. ev = ConfigChanged r \<Longrightarrow> \<not> unresolved (fst (onReload api cpus cfg r a))"
  shows "engine_follows render_config normal_form (currentConfig (agent_step api cpus cfg a ev))
    (agent_engine (agent_step api cpus cfg a ev))"
proof (cases ev)
  case (ConfigChanged r)
  obtain res a' where run: "onReload api cpus cfg r a = (res, a')" by fastforce
  with assms ConfigChanged have settled: "\<not> unresolved res" by simp
  have "sound (agent_engine a)" using assms(1) by (simp add: agent_ok_def)
  note outcome = reload_outcome [OF run this]
  show ?thesis
  proof (cases res)
    case None
    with outcome run ConfigChanged show ?thesis by (simp add: agent_step_def)
  next
    case (Some er)
    with outcome settled run ConfigChanged assms(2) show ?thesis by (cases er) (simp_all add: agent_step_def)
  qed
next
  case (SupervisorTick t)
  obtain e ops where "superviseTick api t (agent_engine a, agent_ops a) = (e, ops)" by fastforce
  with supervise_keeps [of "agent_engine a" t "agent_ops a"] SupervisorTick assms(1,2) show ?thesis
    by (auto simp: agent_ok_def agent_step_def)
next
  case (EngineEnds pid)
  with crash_keeps [of "agent_engine a" pid] assms(1,2) show ?thesis
    by (auto simp: agent_ok_def agent_step_def)
qed

lemma agent_run_follows:
  assumes "agent_ok a" "engine_follows render_config normal_form (currentConfig a) (agent_engine a)"
    and "\<And>pre r post. evs = pre @ ConfigChanged r # post \<Longrightarrow>
      \<not> unresolved (fst (onReload api cpus cfg r (foldl (agent_step api cpus cfg) a pre)))"
  shows "engine_follows render_config normal_form (currentConfig (foldl (agent_step api cpus cfg) a evs))
    (agent_engine (foldl (agent_step api cpus cfg) a evs))"
  using assms(3)
proof (induction evs rule: rev_induct)
  case Nil
  then show ?case using assms(2) by simp
next
  case (snoc ev evs)
  have "engine_follows render_config normal_form (currentConfig (foldl (agent_step api cpus cfg) a evs))
    (agent_engine (foldl (agent_step api cpus cfg) a evs))"
    by (rule snoc.IH) (rule snoc.prems, simp)
  then have "engine_follows render_config normal_form
      (currentConfig (agent_step api cpus cfg (foldl (agent_step api cpus cfg) a evs) ev))
      (agent_engine (agent_step api cpus cfg (foldl (agent_step api cpus cfg) a evs) ev))"
    by (rule agent_step_follows [OF agent_run_ok [OF assms(1)]]) (rule snoc.prems, simp)
  then show ?case by simp
qed

lemma supervise_one_process:
  assumes "one_process e" "signal_result (stop_env t) \<noteq> SignalFails"
  shows "one_process (fst (superviseTick api t (e, ops)))"
proof -
  have "one_process (snd (api_Stop api (stop_env t) e))"
    using stop_signalled [of "stop_env t" e] assms by (metis prod.collapse)
  with assms show ?thesis by (simp add: supervise_fields one_process_start)
qed

lemma reload_one_process:
  assumes "one_process (agent_engine a)" "reload_signals r"
  shows "one_process (agent_engine (snd (onReload api cpus cfg r a)))"
proof -
  have first: "one_process (snd (applyConfigReload api (apply_env r) c (agent_engine a)))" for c
    using apply_one_process [of "apply_env r" c "agent_engine a"] assms
    by (cases "applyConfigReload api (apply_env r) c (agent_engine a)" rule: prod.exhaust)
      (simp add: reload_signals_def)
  have second: "one_process (snd (applyConfigReload api (rollback_env r) c e))" if "one_process e" for c e
    using apply_one_process [of "rollback_env r" c e] assms(2) that
    by (cases "applyConfigReload api (rollback_env r) c e" rule: prod.exhaust) (simp add: reload_signals_def)
  show ?thesis
  proof (cases "loadEngineConfig (unmarshal r) (readFile r) cpus (ConfigFile cfg) (runtimeConfig.EngineAddr cfg)")
    case (Inl er)
    with assms show ?thesis by (simp add: onReload_def)
  next
    case (Inr new)
    obtain s e1 where s: "applyConfigReload api (apply_env r) new (agent_engine a) = (s, e1)"
      by (cases "applyConfigReload api (apply_env r) new (agent_engine a)" rule: prod.exhaust)
    obtain t e2 where t: "applyConfigReload api (rollback_env r) (currentConfig a) e1 = (t, e2)"
      by (cases "applyConfigReload api (rollback_env r) (currentConfig a) e1" rule: prod.exhaust)
    from first [of new] s second [of e1 "currentConfig a"] t have "one_process e1" "one_process e2" by simp_all
    with Inr s t assms(1) show ?thesis
      by (cases "validateEngineConfig new"; cases s; cases "reload_ended r"; cases t)
        (simp_all add: onReload_def Let_def adoptConfig_fields)
  qed
qed

lemma agent_one_process:
  assumes "one_process (agent_engine a)" "list_all event_signals evs"
  shows "one_process (agent_engine (foldl (agent_step api cpus cfg) a evs))"
  using assms
proof (induction evs arbitrary: a)
  case Nil
  then show ?case by simp
next
  case (Cons ev evs)
  have "one_process (agent_engine (agent_step api cpus cfg a ev))"
  proof (cases ev)
    case (ConfigChanged r)
    with Cons.prems reload_one_process show ?thesis by (simp add: agent_step_def event_signals_def)
  next
    case (SupervisorTick t)
    with Cons.prems supervise_one_process [of "agent_engine a" t "agent_ops a"] show ?thesis
      by (auto simp: agent_step_def event_signals_def split: prod.split)
  next
    case (EngineEnds pid)
    with Cons.prems one_process_step [of "agent_engine a" "Crash pid"] show ?thesis
      by (simp add: agent_step_def engine_step_def)
  qed
  with Cons show ?case by simp
qed

end

lemma set_unhealthy_foldl: "checker_config (foldl (\<lambda>k u. set_unhealthy (f u) k) k0 us) = checker_config k0"
  by (induction us arbitrary: k0) simp_all

lemma NewChecker_config: "checker_config (NewChecker cfg m) = checker_defaults cfg"
  by (simp add: NewChecker_def set_unhealthy_foldl)

lemma start_state:
  assumes start: "startAgent (registered rcodes tmpls cpus) cpus cfg run w = Inr (eng, a)"
    and "machine_ok w" "processes w = []"
  shows "\<exists>api new. (EngineType cfg, api, new) \<in> set (registered rcodes tmpls cpus) \<and> eng = synchronizedEngine api \<and>
    agent_ok a \<and> agent_ops a = [] \<and> one_process (agent_engine a) \<and>
    engine_follows (renderer tmpls cpus (EngineType cfg)) (normalizer cpus (EngineType cfg)) (currentConfig a) (agent_engine a)"
proof -
  from start obtain api new where reg: "map_of (registered rcodes tmpls cpus) (EngineType cfg) = Some (api, new)"
    by (auto simp: startAgent_def split: option.splits)
  then have entry: "(EngineType cfg, api, new) \<in> set (registered rcodes tmpls cpus)" by (rule map_of_SomeD)
  let ?eng = "synchronizedEngine api" and ?e0 = "(new (EngineConfigDir cfg), w)"
  note contract = agent_contract [OF entry]
  note go = start [unfolded startAgent_def reg option.case prod.case Let_def]
  obtain c where load:
      "loadEngineConfig (start_unmarshal run) (start_readFile run) cpus (ConfigFile cfg) (runtimeConfig.EngineAddr cfg) = Inr c"
    using go by (auto split: sum.splits)
  note go1 = go [unfolded load sum.case]
  have valid: "validateEngineConfig c = None" using go1 by (auto split: option.splits)
  note go2 = go1 [unfolded valid option.case]
  obtain path e1 where conf: "api_Configure ?eng (start_configure run) c ?e0 = (Inr path, e1)"
    using go2 by (cases "api_Configure ?eng (start_configure run) c ?e0" rule: prod.exhaust) (auto split: sum.splits)
  note go3 = go2 [unfolded conf prod.case sum.case]
  obtain e2 where started: "api_Start ?eng (start_engine run) e1 = (None, e2)"
    using go3 by (cases "api_Start ?eng (start_engine run) e1" rule: prod.exhaust) (auto split: option.splits)
  from go3 started have a: "eng = ?eng" "agent_engine a = e2" "currentConfig a = c" "agent_ops a = []"
      "agent_checker a = checkAll (start_probes run) (NewChecker (checkerConfigOf cfg c) True)"
      "agent_proxy a = New (proxyConfigOf cfg c) (start_now run)"
    by auto
  have zero: "one_process ?e0"
    using assms(2,3) by (simp add: one_process_def contract_defs alive_def)
  have one1: "one_process e1"
    using engine_contract.configure_one_process [OF contract zero conf] .
  have one2: "one_process e2"
    using engine_contract.one_process_start [OF contract one1, of "start_engine run"] started by simp
  have "engine_follows (renderer tmpls cpus (EngineType cfg)) (normalizer cpus (EngineType cfg)) c e1"
    using engine_contract.configure_done [OF contract conf] by (simp add: engine_follows_def)
  then have follows: "engine_follows (renderer tmpls cpus (EngineType cfg)) (normalizer cpus (EngineType cfg)) c e2"
    using engine_contract.start_keeps [OF contract, of e1 "start_engine run" c] one1 started by (simp add: one_process_def)
  have "CheckerConfig.Upstreams (checker_config (agent_checker a)) = upstreamTargetsFromConfig c"
    by (simp add: a checkAll_config NewChecker_config checker_defaults_def checkerConfigOf_def)
  then have "components_follow a"
    by (simp add: components_follow_def follow_defs a(3) checker_targets)
      (simp add: a(6) New_def Let_def withDefaults_def proxyConfigOf_def filterRcode_kept newDomainFilter_decides
        fallbacks_of_loaded [OF loaded_config [OF load]])
  with a valid follows one2 have "agent_ok a"
    by (simp add: agent_ok_def one_process_def New_def Let_def make_chan_def)
  with entry a follows one2 show ?thesis by auto
qed

text \<open>What has happened when a reload begins to adopt what it has read: the engine has taken it.\<close>

definition engine_takes ::
  "engine_api \<Rightarrow> int \<Rightarrow> runtimeConfig \<Rightarrow> reload_run \<Rightarrow> agent \<Rightarrow> EngineConfig \<Rightarrow> engine \<Rightarrow> bool" where
  "engine_takes eng cpus cfg r a c e \<longleftrightarrow>
     loadEngineConfig (unmarshal r) (readFile r) cpus (ConfigFile cfg) (runtimeConfig.EngineAddr cfg) = Inr c \<and>
     validateEngineConfig c = None \<and> applyConfigReload eng (apply_env r) c (agent_engine a) = (None, e)"

text \<open>
  C6.  Between the events of a run, whatever reloads, restarts and crashes have happened, the
  agent's configuration is one that validation accepts, the health checker watches exactly its
  upstreams, with their addresses, ports, transports and server names, and the proxy filters by its
  patterns, denies with its response code and falls back to its plain DNS upstreams.  Inside a reload
  whose configuration the engine has taken, after \<open>k\<close> of the steps that adopt it, each of these
  is still that of the old configuration or already that of the new: the checker changes first, then, after
  its probes, the filter with its code, the fallback servers, and last the agent's configuration; the
  end of the steps is the end of the reload.
\<close>

theorem agent_components_follow:
  assumes "startAgent (registered rcodes tmpls cpus) cpus cfg run w = Inr (eng, a0)"
    and "machine_ok w" "processes w = []"
    and "a = foldl (agent_step eng cpus cfg) a0 evs"
  shows "validateEngineConfig (currentConfig a) = None \<and> components_follow a \<and>
    (\<forall>r c e k. engine_takes eng cpus cfg r a c e \<longrightarrow>
      (let m = run_steps (take k (adoptSteps r c)) (a\<lparr>agent_engine := e\<rparr>); old = currentConfig a in
         checker_follows (if k = 0 then old else c) m \<and> filter_follows (if k \<le> 2 then old else c) m \<and>
         fallbacks_follow (if k \<le> 3 then old else c) m \<and> currentConfig m = (if k \<le> 4 then old else c) \<and>
         (6 \<le> k \<longrightarrow> agent_step eng cpus cfg a (ConfigChanged r) = m)))"
proof -
  obtain api new where "(EngineType cfg, api, new) \<in> set (registered rcodes tmpls cpus)"
    "eng = synchronizedEngine api" "agent_ok a0"
    using start_state [OF assms(1-3)] by blast
  then have "agent_ok a"
    using engine_contract.agent_run_ok [OF agent_contract] assms(4) by blast
  then have follow: "validateEngineConfig (currentConfig a) = None" "components_follow a" by (simp_all add: agent_ok_def)
  have moment: "checker_follows (if k = 0 then currentConfig a else c) m \<and> filter_follows (if k \<le> 2 then currentConfig a else c) m \<and>
      fallbacks_follow (if k \<le> 3 then currentConfig a else c) m \<and> currentConfig m = (if k \<le> 4 then currentConfig a else c) \<and>
      (6 \<le> k \<longrightarrow> agent_step eng cpus cfg a (ConfigChanged r) = m)"
    if takes: "engine_takes eng cpus cfg r a c e"
      and m: "m = run_steps (take k (adoptSteps r c)) (a\<lparr>agent_engine := e\<rparr>)" for r c e k m
  proof -
    have old: "components_follow (a\<lparr>agent_engine := e\<rparr>)" "currentConfig (a\<lparr>agent_engine := e\<rparr>) = currentConfig a"
      using follow(2) by simp_all
    have new: "list_all upstream_loaded (EngineConfig.Upstreams c)" "validateEngineConfig c = None"
      using takes loaded_config by (auto simp: engine_takes_def)
    have "checker_follows (if k = 0 then currentConfig a else c) m \<and> filter_follows (if k \<le> 2 then currentConfig a else c) m \<and>
      fallbacks_follow (if k \<le> 3 then currentConfig a else c) m \<and> currentConfig m = (if k \<le> 4 then currentConfig a else c)"
      using adopt_moment [OF old(1) new, where r = r and k = k] unfolding m old(2) .
    moreover have "agent_step eng cpus cfg a (ConfigChanged r) = m" if "6 \<le> k"
      using takes that by (simp add: m engine_takes_def agent_step_def onReload_def adoptConfig_def adoptSteps_def)
    ultimately show ?thesis by blast
  qed
  show ?thesis
    unfolding Let_def
    by (rule conjI [OF follow(1) conjI [OF follow(2)]], intro allI impI, rule moment [OF _ refl])
qed

text \<open>
  C19.  The engine keeps up with the agent: as long as no reload was canceled half-way and no
  roll-back failed, the engine's file holds the text of the agent's configuration and its health
  is judged at that configuration's address.
\<close>

theorem agent_engine_follows:
  assumes "startAgent (registered rcodes tmpls cpus) cpus cfg run w = Inr (eng, a0)"
    and "machine_ok w" "processes w = []"
    and "a = foldl (agent_step eng cpus cfg) a0 evs"
    and "\<And>pre r post. evs = pre @ ConfigChanged r # post \<Longrightarrow>
      \<not> unresolved (fst (onReload eng cpus cfg r (foldl (agent_step eng cpus cfg) a0 pre)))"
  shows "engine_follows (renderer tmpls cpus (EngineType cfg)) (normalizer cpus (EngineType cfg)) (currentConfig a) (agent_engine a)"
proof -
  obtain api new where entry: "(EngineType cfg, api, new) \<in> set (registered rcodes tmpls cpus)"
    and s: "eng = synchronizedEngine api" "agent_ok a0"
      "engine_follows (renderer tmpls cpus (EngineType cfg)) (normalizer cpus (EngineType cfg)) (currentConfig a0) (agent_engine a0)"
    using start_state [OF assms(1-3)] by blast
  show ?thesis
    unfolding assms(4) s(1)
    by (rule engine_contract.agent_run_follows [OF agent_contract [OF entry] s(2,3)]) (use assms(5) s(1) in simp)
qed


subsection \<open>Examples\<close>

definition sample_cfg :: runtimeConfig where
  "sample_cfg = loadRuntimeConfig (\<lambda>_. None) (\<lambda>_. None) (\<lambda>_. '''')"

definition quiet_probes :: probe_env where
  "quiet_probes = \<lparr>exchangeContext = (\<lambda>_ _ _ _ _ _. \<lparr>response = None, rtt = 0, probe_err = Some (OtherError ''no route to host'')\<rparr>),
     Fqdn = (\<lambda>s. s), cancelled = (\<lambda>_ _. False)\<rparr>"

definition sample_start :: start_run where
  "sample_start = \<lparr>start_unmarshal = (\<lambda>_. None), start_readFile = (\<lambda>_. NotExist), start_configure = calm,
     start_engine = calm, start_probes = quiet_probes, start_now = 0\<rparr>"

definition calm_apply :: apply_env where
  "calm_apply = \<lparr>before_configure = [], configure_env = calm, before_reload = [], reload_env = calm\<rparr>"

definition sample_reload :: reload_run where
  "sample_reload = \<lparr>unmarshal = (\<lambda>_. Some plain_config), readFile = (\<lambda>_. Contents ''{}''), apply_env = calm_apply,
     rollback_env = calm_apply, reload_ended = False, label_rank = (\<lambda>_. 0), probes = quiet_probes\<rparr>"

definition sample_tick :: tick where
  "sample_tick = \<lparr>engine_answer = Inl ''timeout'', stop_env = calm, start_env = calm\<rparr>"

abbreviation sample_started :: "start_error + engine_api \<times> agent" where
  "sample_started \<equiv> startAgent (registered (RcodeToString sample_lib) sample_templates 4) 4 sample_cfg sample_start empty_machine"

lemma sample_run_evaluated:
  "case sample_started of Inl _ \<Rightarrow> False
   | Inr (eng, a) \<Rightarrow>
       (let (r, a') = onReload eng 4 sample_cfg sample_reload a in
        r = None \<and> map UpstreamConfig.Address (EngineConfig.Upstreams (currentConfig a')) = [''9.9.9.9''])"
  by code_simp

lemma empty_machine_idle: "processes empty_machine = []"
  by (simp add: empty_machine_def)

lemma sample_cfg_engine: "EngineType sample_cfg = ''unbound''"
  by (simp add: sample_cfg_def loadRuntimeConfig_def getEnv_def defaultEngineType_def split: prod.split)

lemma sample_agent:
  obtains a a' where "sample_started = Inr (synchronizedEngine sample_unbound, a)" "sound (agent_engine a)"
    "one_process (agent_engine a)" "installed (agent_engine a) \<noteq> None"
    "onReload (synchronizedEngine sample_unbound) 4 sample_cfg sample_reload a = (None, a')"
    "map UpstreamConfig.Address (EngineConfig.Upstreams (currentConfig a')) = [''9.9.9.9'']"
proof -
  obtain eng a where s: "sample_started = Inr (eng, a)"
    using sample_run_evaluated by (cases sample_started) (auto simp: Let_def)
  obtain r a' where r: "onReload eng 4 sample_cfg sample_reload a = (r, a')" by fastforce
  have run: "r = None" "map UpstreamConfig.Address (EngineConfig.Upstreams (currentConfig a')) = [''9.9.9.9'']"
    using sample_run_evaluated unfolding s by (simp_all add: r)
  from start_state [OF s empty_machine_ok empty_machine_idle] obtain api new where
    "(''unbound'', api, new) \<in> set (registered (RcodeToString sample_lib) sample_templates 4)"
    and eng: "eng = synchronizedEngine api" and a: "agent_ok a" "one_process (agent_engine a)" "installed (agent_engine a) \<noteq> None"
    by (auto simp: sample_cfg_engine engine_follows_def)
  then have "api = sample_unbound"
    by (simp add: registered_def engine_names)
  with eng s r run a that show ?thesis by (simp add: agent_ok_def)
qed

lemma reload_all_or_nothing_witness:
  "\<exists>a a'. sample_started = Inr (synchronizedEngine sample_unbound, a) \<and>
     onReload (synchronizedEngine sample_unbound) 4 sample_cfg sample_reload a = (None, a') \<and>
     components_follow a' \<and> map UpstreamConfig.Address (EngineConfig.Upstreams (currentConfig a')) = [''9.9.9.9'']"
proof (rule sample_agent)
  fix a a'
  assume a: "sample_started = Inr (synchronizedEngine sample_unbound, a)" "sound (agent_engine a)"
    and r: "onReload (synchronizedEngine sample_unbound) 4 sample_cfg sample_reload a = (None, a')"
    and up: "map UpstreamConfig.Address (EngineConfig.Upstreams (currentConfig a')) = [''9.9.9.9'']"
  from reload_all_or_nothing [OF sample_registered r a(2)] have "components_follow a'" by simp
  with a(1) r up show ?thesis by (intro exI conjI)
qed

lemma reload_takes:
  assumes "onReload eng cpus cfg r a = (None, a')"
  obtains c e where "engine_takes eng cpus cfg r a c e"
  using assms by (auto simp: onReload_def engine_takes_def Let_def split: sum.splits option.splits prod.splits if_splits)

text \<open>After the probes of a reload the checker is new, filter and fallback servers are not.\<close>

lemma agent_components_follow_witness:
  "\<exists>a c e. sample_started = Inr (synchronizedEngine sample_unbound, a) \<and>
     components_follow (foldl (agent_step (synchronizedEngine sample_unbound) 4 sample_cfg) a
       [ConfigChanged sample_reload, EngineEnds 1, SupervisorTick sample_tick]) \<and>
     engine_takes (synchronizedEngine sample_unbound) 4 sample_cfg sample_reload a c e \<and>
     checker_follows c (run_steps (take 2 (adoptSteps sample_reload c)) (a\<lparr>agent_engine := e\<rparr>)) \<and>
     filter_follows (currentConfig a) (run_steps (take 2 (adoptSteps sample_reload c)) (a\<lparr>agent_engine := e\<rparr>))"
proof (rule sample_agent)
  fix a a' assume a: "sample_started = Inr (synchronizedEngine sample_unbound, a)"
    and r: "onReload (synchronizedEngine sample_unbound) 4 sample_cfg sample_reload a = (None, a')"
  note always = agent_components_follow [OF a empty_machine_ok empty_machine_idle refl]
  obtain c e where takes: "engine_takes (synchronizedEngine sample_unbound) 4 sample_cfg sample_reload a c e"
    using r by (rule reload_takes)
  have "components_follow (foldl (agent_step (synchronizedEngine sample_unbound) 4 sample_cfg) a
       [ConfigChanged sample_reload, EngineEnds 1, SupervisorTick sample_tick])"
    using always [of "[ConfigChanged sample_reload, EngineEnds 1, SupervisorTick sample_tick]"] by blast
  moreover have "checker_follows (if (2 :: nat) = 0 then currentConfig a else c)
        (run_steps (take 2 (adoptSteps sample_reload c)) (a\<lparr>agent_engine := e\<rparr>)) \<and>
      filter_follows (if (2 :: nat) \<le> 2 then currentConfig a else c)
        (run_steps (take 2 (adoptSteps sample_reload c)) (a\<lparr>agent_engine := e\<rparr>))"
    using always [of "[]"] takes unfolding foldl_Nil Let_def by blast
  ultimately show ?thesis
    using a takes by (intro exI [of _ a] exI [of _ c] exI [of _ e]) simp
qed

lemma agent_engine_follows_witness:
  "\<exists>a. sample_started = Inr (synchronizedEngine sample_unbound, a) \<and>
     engine_follows (renderer sample_templates 4 ''unbound'') (normalizer 4 ''unbound'')
       (currentConfig (snd (onReload (synchronizedEngine sample_unbound) 4 sample_cfg sample_reload a)))
       (agent_engine (snd (onReload (synchronizedEngine sample_unbound) 4 sample_cfg sample_reload a)))"
proof (rule sample_agent)
  fix a a' assume a: "sample_started = Inr (synchronizedEngine sample_unbound, a)"
    and r: "onReload (synchronizedEngine sample_unbound) 4 sample_cfg sample_reload a = (None, a')"
  have "engine_follows (renderer sample_templates 4 (EngineType sample_cfg)) (normalizer 4 (EngineType sample_cfg))
      (currentConfig (foldl (agent_step (synchronizedEngine sample_unbound) 4 sample_cfg) a [ConfigChanged sample_reload]))
      (agent_engine (foldl (agent_step (synchronizedEngine sample_unbound) 4 sample_cfg) a [ConfigChanged sample_reload]))"
    by (rule agent_engine_follows [OF a empty_machine_ok empty_machine_idle refl])
      (auto simp: Cons_eq_append_conv r)
  then show ?thesis using a by (auto simp: sample_cfg_engine agent_step_def)
qed


subsection \<open>Supervision\<close>

context engine_contract
begin

lemma supervise_run:
  assumes "one_process e" "list_all (\<lambda>t. signal_result (stop_env t) \<noteq> SignalFails) ts"
    and "engine_follows render_config normal_form c e"
  shows "one_process (fst (foldl (\<lambda>s t. superviseTick api t s) (e, ops) ts)) \<and>
    engine_follows render_config normal_form c (fst (foldl (\<lambda>s t. superviseTick api t s) (e, ops) ts))"
  using assms
proof (induction ts arbitrary: e ops)
  case Nil
  then show ?case by simp
next
  case (Cons t ts)
  obtain e1 ops1 where step: "superviseTick api t (e, ops) = (e1, ops1)" by fastforce
  have "one_process e1" using supervise_one_process [of e t ops] Cons.prems step by simp
  moreover have "engine_follows render_config normal_form c e1"
    using supervise_keeps [of e t ops c] Cons.prems step by (simp add: one_process_def)
  ultimately show ?case using Cons.IH [of e1 ops1] Cons.prems(2) step by simp
qed

lemma supervise_restart:
  assumes "one_process e" "engine_follows render_config normal_form c e" "\<not> isEngineResponsive (engine_answer t)"
    and "signal_result (stop_env t) \<noteq> SignalFails" "\<not> ctx_ended (start_env t)" "exec_ok (start_env t)"
  shows "\<exists>e' pid. superviseTick api t (e, ops) =
      (e', ops @ [Inc AgentEngineRecoveryAttemptsTotal, Inc AgentEngineRecoverySuccessTotal]) \<and>
    living e' = {pid} \<and> tracked e' = Some pid \<and> engine_follows render_config normal_form c e'"
proof -
  obtain r e1 where stop: "api_Stop api (stop_env t) e = (r, e1)" by (cases "api_Stop api (stop_env t) e" rule: prod.exhaust)
  note stopped = stop_signalled [OF stop assms(4,1)]
  have follows1: "engine_follows render_config normal_form c e1" "sound e1"
    using stop_keeps [of e "stop_env t" c] assms(1,2) stop by (simp_all add: one_process_def)
  then have path: "configPath (fst e1) \<noteq> ''''" by (auto simp: engine_follows_def installed_def split: if_splits)
  have idle: "tracked e1 = None" using stopped by simp
  from start_configured [OF path idle assms(5,6)]
  obtain e2 where start: "api_Start api (start_env t) e1 = (None, e2)" ..
  obtain pid where pid: "tracked e2 = Some pid" "living e2 = insert pid (living e1)"
    using start_done [OF start follows1(2)] by blast
  then have "living e2 = {pid}" using stopped by simp
  moreover note pid(1)
  moreover have "engine_follows render_config normal_form c e2"
    using start_keeps [OF follows1(2), of "start_env t" c] follows1(1) start by simp
  moreover have "superviseTick api t (e, ops) =
      (e2, ops @ [Inc AgentEngineRecoveryAttemptsTotal, Inc AgentEngineRecoverySuccessTotal])"
    using assms(3) stop start by (simp add: superviseTick_def)
  ultimately show ?thesis by blast
qed

end

text \<open>
  C21.  The supervisor brings a dead engine back, as long as no signal to a process is refused, at this
  tick or at one before: whatever else happened at the ticks before, failed starts included, a
  tick that finds no answer and can start a process leaves exactly one engine process, the one
  the engine knows of, with the same configuration, and counts one recovery.  (What a refused
  signal does is C38.)
\<close>

theorem supervisor_restores_engine:
  assumes "(name, api, new) \<in> set (registered rcodes tmpls cpus)"
    and "one_process e" "engine_follows (renderer tmpls cpus name) (normalizer cpus name) c e" and "0 < interval"
    and "list_all (\<lambda>t. signal_result (stop_env t) \<noteq> SignalFails) (ts @ [t])"
    and "\<not> isEngineResponsive (engine_answer t)" "\<not> ctx_ended (start_env t)" "exec_ok (start_env t)"
    and "superviseEngine (synchronizedEngine api) interval (ts @ [t]) (e, ops) = (e', ops')"
  shows "(\<exists>pid. living e' = {pid} \<and> tracked e' = Some pid) \<and>
    engine_follows (renderer tmpls cpus name) (normalizer cpus name) c e' \<and>
    ops' = snd (superviseEngine (synchronizedEngine api) interval ts (e, ops)) @
      [Inc AgentEngineRecoveryAttemptsTotal, Inc AgentEngineRecoverySuccessTotal]"
proof -
  note contract = agent_contract [OF assms(1)]
  obtain e1 ops1 where before: "foldl (\<lambda>s t. superviseTick (synchronizedEngine api) t s) (e, ops) ts = (e1, ops1)"
    by fastforce
  have "one_process e1 \<and> engine_follows (renderer tmpls cpus name) (normalizer cpus name) c e1"
    using engine_contract.supervise_run [OF contract assms(2) _ assms(3), of ts ops] before assms(5) by simp
  then show ?thesis
    using engine_contract.supervise_restart [OF contract, of e1 c t ops1] assms(4-9) before
    by (auto simp: superviseEngine_def)
qed

lemma supervisor_restores_engine_witness:
  "\<exists>a e' ops' pid. sample_started = Inr (synchronizedEngine sample_unbound, a) \<and>
     superviseEngine (synchronizedEngine sample_unbound) 1
       ([sample_tick\<lparr>start_env := calm\<lparr>exec_ok := False\<rparr>\<rparr>] @ [sample_tick]) (agent_engine a, []) = (e', ops') \<and>
     living e' = {pid}"
proof (rule sample_agent)
  fix a
  assume a: "sample_started = Inr (synchronizedEngine sample_unbound, a)" "one_process (agent_engine a)"
  have follows: "engine_follows (renderer sample_templates 4 ''unbound'') (normalizer 4 ''unbound'') (currentConfig a) (agent_engine a)"
    using start_state [OF a(1) empty_machine_ok empty_machine_idle] by (auto simp: sample_cfg_engine)
  let ?ts = "[sample_tick\<lparr>start_env := calm\<lparr>exec_ok := False\<rparr>\<rparr>]"
  obtain e' ops' where run: "superviseEngine (synchronizedEngine sample_unbound) 1 (?ts @ [sample_tick]) (agent_engine a, []) = (e', ops')"
    by fastforce
  have "\<exists>pid. living e' = {pid}"
    using supervisor_restores_engine [OF sample_registered a(2) follows _ _ _ _ _ run]
    by (auto simp: sample_tick_def calm_def isEngineResponsive_def)
  with a(1) run show ?thesis by blast
qed

definition ops_count :: "counter \<Rightarrow> agent \<Rightarrow> nat" where
  "ops_count k a = count_list (agent_ops a) (Inc k)"

fun is_reload :: "agent_event \<Rightarrow> bool" where
  "is_reload (ConfigChanged _) \<longleftrightarrow> True"
| "is_reload _ \<longleftrightarrow> False"

fun is_unanswered :: "agent_event \<Rightarrow> bool" where
  "is_unanswered (SupervisorTick t) \<longleftrightarrow> \<not> isEngineResponsive (engine_answer t)"
| "is_unanswered _ \<longleftrightarrow> False"

lemma onReload_ops:
  "agent_ops (snd (onReload eng cpus cfg r a)) = agent_ops a @ [Inc AgentConfigReloadTotal] \<or>
   agent_ops (snd (onReload eng cpus cfg r a)) = agent_ops a @ [Inc AgentConfigReloadErrorsTotal]"
  by (simp add: onReload_def Let_def adoptConfig_fields split: sum.split option.split prod.split)

lemma superviseTick_ops:
  "snd (superviseTick eng t (e, ops)) = ops @
     (if isEngineResponsive (engine_answer t) then []
      else [Inc AgentEngineRecoveryAttemptsTotal,
            Inc (if fst (api_Start eng (start_env t) (snd (api_Stop eng (stop_env t) e))) \<noteq> None
                 then AgentEngineRecoveryErrorsTotal else AgentEngineRecoverySuccessTotal)])"
  by (simp add: superviseTick_def Let_def split: prod.split)

text \<open>
  The agent's counters add up: over any run, with any engine, applied and failed reloads
  count exactly the changes of the configuration, recovery attempts count the ticks without an
  answer, and each attempt is counted once more as a success or as an error.
\<close>

theorem agent_counters_add_up:
  "ops_count AgentConfigReloadTotal (foldl (agent_step eng cpus cfg) a evs) +
     ops_count AgentConfigReloadErrorsTotal (foldl (agent_step eng cpus cfg) a evs) =
   ops_count AgentConfigReloadTotal a + ops_count AgentConfigReloadErrorsTotal a + length (filter is_reload evs) \<and>
   ops_count AgentEngineRecoveryAttemptsTotal (foldl (agent_step eng cpus cfg) a evs) =
   ops_count AgentEngineRecoveryAttemptsTotal a + length (filter is_unanswered evs) \<and>
   ops_count AgentEngineRecoverySuccessTotal (foldl (agent_step eng cpus cfg) a evs) +
     ops_count AgentEngineRecoveryErrorsTotal (foldl (agent_step eng cpus cfg) a evs) =
   ops_count AgentEngineRecoverySuccessTotal a + ops_count AgentEngineRecoveryErrorsTotal a +
     length (filter is_unanswered evs)"
proof (induction evs arbitrary: a)
  case Nil
  then show ?case by simp
next
  case (Cons ev evs)
  define a1 where "a1 = agent_step eng cpus cfg a ev"
  have "ops_count AgentConfigReloadTotal a1 + ops_count AgentConfigReloadErrorsTotal a1 =
      ops_count AgentConfigReloadTotal a + ops_count AgentConfigReloadErrorsTotal a + (if is_reload ev then 1 else 0) \<and>
    ops_count AgentEngineRecoveryAttemptsTotal a1 =
      ops_count AgentEngineRecoveryAttemptsTotal a + (if is_unanswered ev then 1 else 0) \<and>
    ops_count AgentEngineRecoverySuccessTotal a1 + ops_count AgentEngineRecoveryErrorsTotal a1 =
      ops_count AgentEngineRecoverySuccessTotal a + ops_count AgentEngineRecoveryErrorsTotal a +
      (if is_unanswered ev then 1 else 0)"
  proof (cases ev)
    case (ConfigChanged r)
    with onReload_ops [of eng cpus cfg r a] show ?thesis by (auto simp: a1_def agent_step_def ops_count_def)
  next
    case (SupervisorTick t)
    have "agent_ops a1 = snd (superviseTick eng t (agent_engine a, agent_ops a))"
      using SupervisorTick by (simp add: a1_def agent_step_def split: prod.split)
    with SupervisorTick show ?thesis by (simp add: superviseTick_ops ops_count_def)
  next
    case (EngineEnds pid)
    then show ?thesis by (simp add: a1_def agent_step_def ops_count_def)
  qed
  with Cons.IH [of a1] show ?case by (simp add: a1_def [symmetric])
qed

subsection \<open>Settings that do not arrive\<close>

text \<open>
  The size 0 of the proxy's cache, which the setting accepts and for which the cache would
  be left out, does not reach it: the proxy replaces it by 10000 and caches.
\<close>

theorem zero_cache_size_ignored:
  "ProxyCacheMaxEntries (loadRuntimeConfig types stat (env(''ASTRADNS_PROXY_CACHE_MAX_ENTRIES'' := ''0''))) = 0 \<and>
   CacheMaxEntries (config (New (proxyConfigOf
     (loadRuntimeConfig types stat (env(''ASTRADNS_PROXY_CACHE_MAX_ENTRIES'' := ''0''))) c) now)) = 10000 \<and>
   cache (New (proxyConfigOf
     (loadRuntimeConfig types stat (env(''ASTRADNS_PROXY_CACHE_MAX_ENTRIES'' := ''0''))) c) now) \<noteq> None \<and>
   newResponseCache 0 ttl = None"
proof -
  have "atoi ''0'' = Some 0" by code_simp
  then have zero: "ProxyCacheMaxEntries (loadRuntimeConfig types stat (env(''ASTRADNS_PROXY_CACHE_MAX_ENTRIES'' := ''0''))) = 0"
    by (simp add: loadRuntimeConfig_def getEnvNonNegativeInt_def split: prod.split)
  have size: "CacheMaxEntries (config (New (proxyConfigOf cfg c) now)) = 10000 \<and> cache (New (proxyConfigOf cfg c) now) \<noteq> None"
    if "ProxyCacheMaxEntries cfg = 0" for cfg
    using that by (simp add: New_def withDefaults_def proxyConfigOf_def or_default_def ProxyConfig.defaultProxyCacheMaxEntries_def
        newResponseCache_def Let_def)
  from zero size [OF zero] show ?thesis by (simp add: newResponseCache_def)
qed

subsection \<open>Component errors\<close>

definition failure_of :: "string \<times> fn_end \<Rightarrow> string option" where
  "failure_of = (\<lambda>(name, result).
     case result of Panics recovered \<Rightarrow> Some (name @ '' panicked: '' @ recovered)
     | ReturnsError err \<Rightarrow> Some (name @ '' failed: '' @ err) | _ \<Rightarrow> None)"

text \<open>The components end one after the other.\<close>

fun componentsEnd :: "(string \<times> fn_end) list \<Rightarrow> string chan \<times> metric_op list \<Rightarrow> (string chan \<times> metric_op list) option" where
  "componentsEnd [] s = Some s"
| "componentsEnd ((name, result) # rest) s =
     (case startComponent name result s of None \<Rightarrow> None | Some s' \<Rightarrow> componentsEnd rest s')"

definition errors_kept :: "nat \<Rightarrow> metric_op list \<Rightarrow> string list \<Rightarrow> string chan \<times> metric_op list \<Rightarrow> bool" where
  "errors_kept n ops fs = (\<lambda>(errs, ops').
     \<not> chan_closed errs \<and> capacity errs = int n \<and> buffer errs = take n fs \<and>
     ops' = ops @ replicate (length fs - n) (Inc ComponentErrorBufferOverflowsTotal))"

lemma startComponent_kept:
  assumes "errors_kept n ops fs s"
  shows "\<exists>s'. startComponent name result s = Some s' \<and> errors_kept n ops (fs @ (case failure_of (name, result) of None \<Rightarrow> [] | Some f \<Rightarrow> [f])) s'"
proof -
  have report: "\<exists>s'. reportComponentErr True f s = Some s' \<and> errors_kept n ops (fs @ [f]) s'" for f
    using assms
    by (cases s; cases "length fs < n")
      (auto simp: errors_kept_def reportComponentErr_def trySend_def Suc_diff_le replicate_append_same [symmetric])
  show ?thesis
    using report assms by (cases result) (simp_all add: startComponent_def failure_of_def)
qed

lemma componentsEnd_kept:
  "errors_kept n ops fs s \<Longrightarrow> \<exists>s'. componentsEnd ends s = Some s' \<and> errors_kept n ops (fs @ List.map_filter failure_of ends) s'"
proof (induction ends arbitrary: fs s)
  case Nil
  then show ?case by (simp add: List.map_filter_def)
next
  case (Cons c ends)
  obtain name result where c: "c = (name, result)" by fastforce
  from startComponent_kept [OF Cons.prems, of name result] obtain s1 where "startComponent name result s = Some s1"
    "errors_kept n ops (fs @ (case failure_of c of None \<Rightarrow> [] | Some f \<Rightarrow> [f])) s1" by (auto simp: c)
  with Cons.IH [OF this(2)] c show ?case
    by (auto simp: List.map_filter_def split: option.split)
qed

text \<open>
  The agent ends with the first failure: of the components that end with an error or a
  panic, in any number, the first is the one the agent reports and exits with; returns and
  cancelations do not end it, and the reports that do not fit the buffer are counted.
\<close>

theorem first_failure_ends_agent:
  assumes "0 < n"
  shows "\<exists>errs ops'. componentsEnd ends (make_chan (int n), ops) = Some (errs, ops') \<and>
    awaitEnd False errs = (case List.map_filter failure_of ends of [] \<Rightarrow> None | f # _ \<Rightarrow> Some f) \<and>
    ops' = ops @ replicate (length (List.map_filter failure_of ends) - n) (Inc ComponentErrorBufferOverflowsTotal)"
proof -
  have "errors_kept n ops [] (make_chan (int n), ops)" by (simp add: errors_kept_def make_chan_def)
  from componentsEnd_kept [OF this, of ends] obtain errs ops' where
    "componentsEnd ends (make_chan (int n), ops) = Some (errs, ops')"
    "errors_kept n ops (List.map_filter failure_of ends) (errs, ops')" by auto
  with assms show ?thesis
    by (cases n; cases "List.map_filter failure_of ends") (auto simp: errors_kept_def awaitEnd_def recv_def)
qed

lemma first_failure_ends_agent_witness:
  "\<exists>errs ops. componentsEnd [(''fanout'', ReturnsNil), (''proxy'', ReturnsError ''bind''), (''watcher'', Panics ''nil'')]
      (make_chan 1, []) = Some (errs, ops) \<and> awaitEnd False errs = Some ''proxy failed: bind'' \<and> length ops = 1"
  using first_failure_ends_agent [of 1 "[(''fanout'', ReturnsNil), (''proxy'', ReturnsError ''bind''), (''watcher'', Panics ''nil'')]" "[]"]
  by (auto simp: failure_of_def List.map_filter_def)

end
