(* ===== verification/Diagnostics.thy ===== *)
theory Diagnostics
  imports GoPath GoFloat DnsMsg GoNet "HOL-Library.Char_ord" "HOL-Library.List_Lexorder"
begin

section \<open>The diagnostics runner\<close>

text \<open>
  The runner of \<open>pkg/diagnostics/runner.go\<close>: it probes targets (DNS, TCP, TLS with and without
  SNI, HTTPS), classifies what it finds and keeps the latest result of each target.  What the
  network answers during the probe of one target is an argument (\<open>probe_net\<close>): the DNS exchange
  with its round trip time, the dialers for TCP and TLS with the time they took, the HTTPS request
  and the clock.  An error is the text \<open>Error()\<close> returns.

  Go orders strings by their bytes, as \<open>List_Lexorder\<close> orders lists of characters.
\<close>

subsection \<open>Data\<close>

definition defaultResolverAddr :: string where "defaultResolverAddr = ''127.0.0.1:5353''"
definition defaultInterval :: duration where "defaultInterval = minute"
definition defaultTimeout :: duration where "defaultTimeout = 3 * second"

datatype Diagnosis =
    DiagnosisHealthy
  | DiagnosisDNSResolutionFailed
  | DiagnosisEgressBlockedOrNetwork
  | DiagnosisTLSHandshakeFailed
  | DiagnosisTLSSNIRequired
  | DiagnosisProviderBlockSuspected

record Config =
  Targets :: "string list"
  ResolverAddr :: string
  Interval :: duration
  Timeout :: duration

record Result =
  Target :: string
  ObservedAt :: time
  Diagnosis :: Diagnosis
  Summary :: string
  Resolver :: string
  DNSRcode :: string
  DNSLatencyMs :: f64
  ResolvedIPs :: "string list"
  TestedEndpoint :: string
  TCPReachable :: bool
  TCPConnectLatencyMs :: f64
  TLSWithSNI :: bool
  TLSWithSNILatencyMs :: f64
  TLSWithoutSNI :: bool
  HTTPSStatusCode :: int
  Error :: string
  Evidence :: "string list"

record Snapshot =
  SnapshotAt :: time
  Results :: "Result list"

record Runner =
  runner_cfg :: Config
  results :: "(string, Result) go_map"
  lastUpdated :: time

text \<open>
  The answers to the probes of one target.  The DNS client returns an error or a message;
  \<open>rr_address\<close> is the address text of an A or AAAA record.  A TLS dial is given the name it
  sends, empty when \<open>ServerName\<close> is not set.
\<close>

record probe_net =
  net_exchange :: "duration \<Rightarrow> string \<Rightarrow> 16 word \<Rightarrow> string \<Rightarrow> (string + dns_msg) \<times> duration"
  net_fqdn :: "string \<Rightarrow> string"
  rr_address :: "rr \<Rightarrow> string option"
  rcode_names :: "int \<Rightarrow> string option"
  dial_tcp :: "duration \<Rightarrow> string \<Rightarrow> string option \<times> duration"
  dial_tls :: "duration \<Rightarrow> string \<Rightarrow> string \<Rightarrow> string option \<times> duration"
  https_head :: "duration \<Rightarrow> string \<Rightarrow> string \<Rightarrow> string + int"
  net_now :: time

subsection \<open>Targets\<close>

definition hostname_char_ok :: "string \<Rightarrow> nat \<Rightarrow> bool" where
  "hostname_char_ok label i =
     (let ch = label ! i;
          isLowerAlpha = (byte CHR ''a'' \<le> byte ch \<and> byte ch \<le> byte CHR ''z'');
          isDigit = (byte CHR ''0'' \<le> byte ch \<and> byte ch \<le> byte CHR ''9'');
          isHyphen = (ch = CHR ''-'')
      in if \<not> isLowerAlpha \<and> \<not> isDigit \<and> \<not> isHyphen then False
         else \<not> ((i = 0 \<or> i = length label - 1) \<and> isHyphen))"

text \<open>\<open>net.ParseIP\<close> accepts what \<open>netip.ParseAddr\<close> does, except for zones.\<close>

definition parseIP :: "string \<Rightarrow> bool" where
  "parseIP s \<longleftrightarrow> parseAddr s \<and> CHR ''%'' \<notin> set s"

definition isTargetHostname :: "string \<Rightarrow> bool" where
  "isTargetHostname value =
     (if value = '''' then False
      else if parseIP value then True
      else if length value > 253 then False
      else list_all (\<lambda>label. if length label = 0 \<or> length label > 63 then False
                          else list_all (hostname_char_ok label) [0..<length label])
             (split_on CHR ''.'' value))"

definition normalizeTarget :: "string \<Rightarrow> string" where
  "normalizeTarget target = trim_suffix (to_lower (trim_space target)) ''.''"

text \<open>The loop of \<open>NewRunner\<close> over the targets, with those seen so far.\<close>

fun normalizedTargets :: "string list \<Rightarrow> string list \<Rightarrow> string list" where
  "normalizedTargets seen [] = []"
| "normalizedTargets seen (target # ts) =
     (let normalized = normalizeTarget target in
      if normalized = '''' \<or> \<not> isTargetHostname normalized then normalizedTargets seen ts
      else if normalized \<in> set seen then normalizedTargets seen ts
      else normalized # normalizedTargets (normalized # seen) ts)"

definition NewRunner :: "Config \<Rightarrow> Runner" where
  "NewRunner cfg =
     \<lparr>runner_cfg =
        \<lparr>Targets = sort (normalizedTargets [] (Targets cfg)),
         ResolverAddr = (if trim_space (ResolverAddr cfg) = '''' then defaultResolverAddr else ResolverAddr cfg),
         Interval = (if Interval cfg \<le> 0 then defaultInterval else Interval cfg),
         Timeout = (if Timeout cfg \<le> 0 then defaultTimeout else Timeout cfg)\<rparr>,
      results = [], lastUpdated = 0\<rparr>"

subsection \<open>Resolving\<close>

definition TypeA :: "16 word" where "TypeA = 1"
definition TypeAAAA :: "16 word" where "TypeAAAA = 28"

definition rcode_name :: "probe_net \<Rightarrow> int \<Rightarrow> string" where
  "rcode_name net rc = (case rcode_names net rc of None \<Rightarrow> '''' | Some s \<Rightarrow> s)"

record resolution =
  ips :: "(string, unit) go_map"
  first_rcode :: string
  latency :: duration
  firstErr :: "string option"

definition collect_ips :: "probe_net \<Rightarrow> rr list \<Rightarrow> (string, unit) go_map \<Rightarrow> (string, unit) go_map" where
  "collect_ips net answers m =
     foldl (\<lambda>m record. case rr_address net record of None \<Rightarrow> m | Some ip \<Rightarrow> map_put ip () m) m answers"

text \<open>The loop over the query types; an early return is \<open>Inl\<close>.\<close>

fun queryLoop ::
  "probe_net \<Rightarrow> Config \<Rightarrow> string \<Rightarrow> nat \<Rightarrow> 16 word list \<Rightarrow> resolution \<Rightarrow>
   (string list \<times> string \<times> duration \<times> string option) + resolution" where
  "queryLoop net cfg target index [] st = Inr st"
| "queryLoop net cfg target index (queryType # qs) st =
     (let (response, rtt) = net_exchange net (Timeout cfg) (net_fqdn net target) queryType (ResolverAddr cfg);
          st1 = (if index = 0 then st\<lparr>latency := rtt\<rparr> else st)
      in case response of
           Inl err \<Rightarrow>
             queryLoop net cfg target (Suc index) qs
               (if firstErr st1 = None then st1\<lparr>firstErr := Some err\<rparr> else st1)
         | Inr m \<Rightarrow>
             (let st2 = (if index = 0 then st1\<lparr>first_rcode := rcode_name net (rcode m)\<rparr> else st1) in
              if rcode m \<noteq> RcodeSuccess then
                (if index = 0 then
                   Inl ([], rcode_name net (rcode m), latency st2,
                        Some (''dns returned rcode '' @ rcode_name net (rcode m)))
                 else queryLoop net cfg target (Suc index) qs st2)
              else queryLoop net cfg target (Suc index) qs
                     (st2\<lparr>ips := collect_ips net (answer m) (ips st2)\<rparr>)))"

definition resolveTarget ::
  "probe_net \<Rightarrow> Config \<Rightarrow> string \<Rightarrow> string list \<times> string \<times> duration \<times> string option" where
  "resolveTarget net cfg target =
     (case queryLoop net cfg target 0 [TypeA, TypeAAAA]
             \<lparr>ips = [], first_rcode = '''', latency = 0, firstErr = None\<rparr> of
        Inl early \<Rightarrow> early
      | Inr st \<Rightarrow>
          if length (ips st) = 0 then
            (if firstErr st \<noteq> None then ([], first_rcode st, latency st, firstErr st)
             else ([], first_rcode st, latency st,
                   Some ''dns query succeeded but no A/AAAA records were returned''))
          else
            let resolved = sort (map fst (ips st));
                rc = (if first_rcode st = '''' then rcode_name net RcodeSuccess else first_rcode st)
            in (resolved, rc, latency st, None))"

subsection \<open>Probing\<close>

fun tcpLoop :: "probe_net \<Rightarrow> Config \<Rightarrow> string list \<Rightarrow> string list \<Rightarrow> string \<times> duration \<times> string option" where
  "tcpLoop net cfg errs [] =
     (if length errs = 0 then ('''', 0, Some ''no resolved ip addresses available for tcp probe'')
      else ('''', 0, Some (''tcp probe failed for all resolved endpoints: '' @ join_strings ''; '' errs)))"
| "tcpLoop net cfg errs (ip # rest) =
     (let endpoint = joinHostPort ip ''443'' in
      case dial_tcp net (Timeout cfg) endpoint of
        (Some err, _) \<Rightarrow> tcpLoop net cfg (errs @ [endpoint @ '': '' @ err]) rest
      | (None, spent) \<Rightarrow> (endpoint, spent, None))"

definition probeTCPReachability :: "probe_net \<Rightarrow> Config \<Rightarrow> string list \<Rightarrow> string \<times> duration \<times> string option" where
  "probeTCPReachability net cfg addrs = tcpLoop net cfg [] addrs"

definition probeTLS ::
  "probe_net \<Rightarrow> Config \<Rightarrow> string \<Rightarrow> string \<Rightarrow> bool \<Rightarrow> bool \<times> duration \<times> string option" where
  "probeTLS net cfg endpoint target withSNI =
     (let serverName = (if withSNI then target else '''') in
      case dial_tls net (Timeout cfg) endpoint serverName of
        (Some err, spent) \<Rightarrow> (False, spent, Some err)
      | (None, spent) \<Rightarrow> (True, spent, None))"

definition probeHTTPSStatus :: "probe_net \<Rightarrow> Config \<Rightarrow> string \<Rightarrow> string \<Rightarrow> int \<times> string option" where
  "probeHTTPSStatus net cfg target endpoint =
     (case https_head net (Timeout cfg) target endpoint of
        Inl err \<Rightarrow> (0, Some err)
      | Inr status \<Rightarrow> (status, None))"

record probeOutcome =
  dnsErr :: "string option"
  dnsRcode :: string
  resolvedIPs :: "string list"
  tcpReachable :: bool
  tcpErr :: "string option"
  tlsWithSNIErr :: "string option"
  tlsWithoutSNIErr :: "string option"
  httpStatusCode :: int
  httpErr :: "string option"

definition errorText :: "string option \<Rightarrow> string" where
  "errorText err = (case err of None \<Rightarrow> '''' | Some e \<Rightarrow> trim_space e)"

definition milliseconds :: "duration \<Rightarrow> f64" where
  "milliseconds d = rnd (rnd (of_int d) / of_int millisecond)"

definition show_bool :: "bool \<Rightarrow> string" where
  "show_bool b = (if b then ''true'' else ''false'')"

definition classifyOutcome :: "probeOutcome \<Rightarrow> Diagnosis \<times> string \<times> string \<times> string list" where
  "classifyOutcome outcome =
     (let ev0 = (if dnsRcode outcome \<noteq> '''' then [''dns_rcode='' @ dnsRcode outcome] else []);
          ev1 = (if length (resolvedIPs outcome) > 0
                 then ev0 @ [''resolved_ips='' @ join_strings '','' (resolvedIPs outcome)] else ev0);
          ev2 = ev1 @ [''tcp_reachable='' @ show_bool (tcpReachable outcome)]
      in if dnsErr outcome \<noteq> None \<or> length (resolvedIPs outcome) = 0 then
           (DiagnosisDNSResolutionFailed, ''local DNS resolution failed before any network probe'',
            errorText (dnsErr outcome), ev2)
         else if \<not> tcpReachable outcome then
           (let errText = errorText (tcpErr outcome) in
            (DiagnosisEgressBlockedOrNetwork,
             ''DNS resolved but TCP/443 reachability failed for all resolved endpoints'', errText,
             if errText \<noteq> '''' then ev2 @ [''tcp_error='' @ errText] else ev2))
         else if tlsWithSNIErr outcome \<noteq> None then
           (let errText = errorText (tlsWithSNIErr outcome) in
            (DiagnosisTLSHandshakeFailed, ''TCP/443 is reachable but TLS handshake with SNI failed'', errText,
             ev2 @ [''tls_sni_error='' @ errText]))
         else if tlsWithoutSNIErr outcome \<noteq> None then
           (DiagnosisTLSSNIRequired,
            ''TLS succeeds with SNI and fails without SNI, indicating SNI-sensitive endpoint behavior'', '''',
            ev2 @ [''tls_without_sni_error='' @ errorText (tlsWithoutSNIErr outcome)])
         else if httpStatusCode outcome = 403 \<or> httpStatusCode outcome = 429 \<or> httpStatusCode outcome = 451 then
           (DiagnosisProviderBlockSuspected,
            ''network and TLS are healthy, but HTTPS status suggests potential provider-side access policy'', '''',
            ev2 @ [''https_status='' @ itoa (httpStatusCode outcome)] @
              (if httpErr outcome \<noteq> None then [''https_error='' @ errorText (httpErr outcome)] else []))
         else
           (DiagnosisHealthy, ''DNS, TCP, and TLS probes succeeded for this target'', '''',
            ev2 @ (if httpStatusCode outcome > 0 then [''https_status='' @ itoa (httpStatusCode outcome)] else []) @
              (if httpErr outcome \<noteq> None then [''https_error='' @ errorText (httpErr outcome)] else [])))"

text \<open>
  The three stages of \<open>probeTarget\<close> that follow one another: what was resolved, the TCP probe
  when there is an address, the TLS and HTTPS probes when TCP works.
\<close>

definition probeSecure ::
  "probe_net \<Rightarrow> Config \<Rightarrow> string \<Rightarrow> string \<Rightarrow> Result \<times> probeOutcome \<Rightarrow> Result \<times> probeOutcome" where
  "probeSecure net cfg target endpoint = (\<lambda>(result, outcome).
     (let (sni, spent, sniErr) = probeTLS net cfg endpoint target True;
          (plain, _, plainErr) = probeTLS net cfg endpoint target False;
          result1 = result\<lparr>TLSWithSNI := sni, TLSWithSNILatencyMs := milliseconds spent, TLSWithoutSNI := plain\<rparr>;
          outcome1 = outcome\<lparr>tlsWithSNIErr := sniErr, tlsWithoutSNIErr := plainErr\<rparr>
      in if sni then
           (let (statusCode, err) = probeHTTPSStatus net cfg target endpoint in
            (result1\<lparr>HTTPSStatusCode := statusCode\<rparr>, outcome1\<lparr>httpStatusCode := statusCode, httpErr := err\<rparr>))
         else (result1, outcome1)))"

definition probeNetwork ::
  "probe_net \<Rightarrow> Config \<Rightarrow> string \<Rightarrow> string list \<Rightarrow> Result \<times> probeOutcome \<Rightarrow> Result \<times> probeOutcome" where
  "probeNetwork net cfg target addrs = (\<lambda>(result, outcome).
     (let (endpoint, tcpLatency, err) = probeTCPReachability net cfg addrs;
          result1 = result\<lparr>TCPConnectLatencyMs := milliseconds tcpLatency\<rparr>
      in case err of
           Some e \<Rightarrow> (result1, outcome\<lparr>tcpErr := Some e\<rparr>)
         | None \<Rightarrow>
             probeSecure net cfg target endpoint
               (result1\<lparr>TCPReachable := True, TestedEndpoint := endpoint\<rparr>, outcome\<lparr>tcpReachable := True\<rparr>)))"

definition newResult :: "time \<Rightarrow> Config \<Rightarrow> string \<Rightarrow> Result" where
  "newResult now cfg target =
     \<lparr>Target = target, ObservedAt = now, Diagnosis = DiagnosisHealthy, Summary = '''', Resolver = ResolverAddr cfg,
      DNSRcode = '''', DNSLatencyMs = 0, ResolvedIPs = [], TestedEndpoint = '''', TCPReachable = False,
      TCPConnectLatencyMs = 0, TLSWithSNI = False, TLSWithSNILatencyMs = 0, TLSWithoutSNI = False,
      HTTPSStatusCode = 0, Error = '''', Evidence = []\<rparr>"

definition probeTarget :: "probe_net \<Rightarrow> Config \<Rightarrow> string \<Rightarrow> Result" where
  "probeTarget net cfg target =
     (let (addrs, rc, spent, err) = resolveTarget net cfg target;
          result = (newResult (net_now net) cfg target)
            \<lparr>DNSRcode := rc, DNSLatencyMs := milliseconds spent, ResolvedIPs := addrs\<rparr>;
          outcome = \<lparr>dnsErr = err, dnsRcode = rc, resolvedIPs = addrs, tcpReachable = False, tcpErr = None,
            tlsWithSNIErr = None, tlsWithoutSNIErr = None, httpStatusCode = 0, httpErr = None\<rparr>;
          (result1, outcome1) =
            (if err = None \<and> length addrs > 0 then probeNetwork net cfg target addrs (result, outcome)
             else (result, outcome));
          (diagnosis, summary, errText, evidence) = classifyOutcome outcome1
      in result1\<lparr>Diagnosis := diagnosis, Summary := summary, Error := errText, Evidence := evidence\<rparr>)"

subsection \<open>Passes\<close>

text \<open>
  One pass: what the network answers for each target and how many targets are probed before the
  context ends.
\<close>

record pass =
  pass_net :: "string \<Rightarrow> probe_net"
  ended_after :: "nat option"
  pass_now :: time

fun probeTargets :: "pass \<Rightarrow> nat \<Rightarrow> string list \<Rightarrow> Runner \<Rightarrow> Runner" where
  "probeTargets p i [] r = r"
| "probeTargets p i (target # ts) r =
     (if ended_after p = Some i then r
      else
        probeTargets p (Suc i) ts
          (r\<lparr>results := map_put target (probeTarget (pass_net p target) (runner_cfg r) target) (results r),
             lastUpdated := pass_now p\<rparr>))"

definition runOnce :: "pass \<Rightarrow> Runner \<Rightarrow> Runner" where
  "runOnce p r = probeTargets p 0 (Targets (runner_cfg r)) r"

text \<open>The first pass and one for each tick of the interval until the context ends.\<close>

definition Run :: "pass list \<Rightarrow> Runner \<Rightarrow> Runner" where
  "Run ps r = (if length (Targets (runner_cfg r)) = 0 then r else foldl (\<lambda>r p. runOnce p r) r ps)"

text \<open>The map is enumerated in an order that \<open>rank\<close> chooses, then sorted by target.\<close>

definition Snapshot :: "(string \<Rightarrow> nat) \<Rightarrow> Runner \<Rightarrow> Snapshot" where
  "Snapshot rank r =
     \<lparr>SnapshotAt = lastUpdated r,
      Results = sort_key Target (map (\<lambda>k. the (map_get (results r) k)) (map_range rank (results r)))\<rparr>"

subsection \<open>Targets and results\<close>

lemma normalizedTargets_spec:
  "distinct (normalizedTargets seen ts) \<and>
   set (normalizedTargets seen ts) = {t \<in> normalizeTarget ` set ts. t \<noteq> '''' \<and> isTargetHostname t} - set seen"
  by (induction seen ts rule: normalizedTargets.induct) (auto simp: Let_def)

text \<open>
  A runner probes each target once and only names and addresses it can probe: its
  targets are the well-formed normalized ones among those it was given, sorted and without
  repetition, and interval, timeout and resolver are usable.
\<close>

theorem runner_targets:
  "sorted (Targets (runner_cfg (NewRunner cfg))) \<and> distinct (Targets (runner_cfg (NewRunner cfg))) \<and>
   set (Targets (runner_cfg (NewRunner cfg))) =
     {t. t \<noteq> '''' \<and> isTargetHostname t \<and> (\<exists>s\<in>set (Targets cfg). t = normalizeTarget s)} \<and>
   0 < Interval (runner_cfg (NewRunner cfg)) \<and> 0 < Timeout (runner_cfg (NewRunner cfg)) \<and>
   trim_space (ResolverAddr (runner_cfg (NewRunner cfg))) \<noteq> ''''"
proof -
  have "trim_space defaultResolverAddr \<noteq> ''''" by code_simp
  then show ?thesis
    using normalizedTargets_spec [of "[]" "Targets cfg"]
    by (auto simp: NewRunner_def defaultInterval_def defaultTimeout_def go_time_simps)
qed

text \<open>What the network says, stage by stage.\<close>

definition records_of :: "probe_net \<Rightarrow> string + dns_msg \<Rightarrow> string set" where
  "records_of net r =
     (case r of Inl _ \<Rightarrow> {}
      | Inr m \<Rightarrow> if rcode m = RcodeSuccess then {ip. \<exists>rr\<in>set (answer m). rr_address net rr = Some ip} else {})"

definition asked :: "probe_net \<Rightarrow> Config \<Rightarrow> string \<Rightarrow> 16 word \<Rightarrow> string + dns_msg" where
  "asked net cfg target t = fst (net_exchange net (Timeout cfg) (net_fqdn net target) t (ResolverAddr cfg))"

definition refused_by_dns :: "string + dns_msg \<Rightarrow> bool" where
  "refused_by_dns r = (case r of Inl _ \<Rightarrow> False | Inr m \<Rightarrow> rcode m \<noteq> RcodeSuccess)"

definition addresses :: "probe_net \<Rightarrow> Config \<Rightarrow> string \<Rightarrow> string set" where
  "addresses net cfg target =
     (if refused_by_dns (asked net cfg target TypeA) then {}
      else records_of net (asked net cfg target TypeA) \<union> records_of net (asked net cfg target TypeAAAA))"

lemma keys_map_put: "fst ` set (map_put k v m) = insert k (fst ` set m)"
  by (auto simp: map_put_def map_del_def image_iff)

lemma sort_eq_Nil [simp]: "sort xs = [] \<longleftrightarrow> xs = []"
  by (metis length_0_conv length_sort)

lemma collect_ips_spec:
  "map_ok m \<Longrightarrow> map_ok (collect_ips net rrs m) \<and>
     fst ` set (collect_ips net rrs m) = fst ` set m \<union> {ip. \<exists>rr\<in>set rrs. rr_address net rr = Some ip}"
proof (induction rrs arbitrary: m)
  case Nil
  then show ?case by (simp add: collect_ips_def)
next
  case (Cons rr rrs)
  define m' where "m' = (case rr_address net rr of None \<Rightarrow> m | Some ip \<Rightarrow> map_put ip () m)"
  have ok: "map_ok m'" and keys: "fst ` set m' = fst ` set m \<union> {ip. rr_address net rr = Some ip}"
    using Cons.prems by (auto simp: m'_def keys_map_put split: option.splits)
  have "collect_ips net (rr # rrs) m = collect_ips net rrs m'"
    by (simp add: collect_ips_def m'_def)
  with Cons.IH [OF ok] keys show ?case by auto
qed

lemma resolveTarget_spec:
  "case resolveTarget net cfg target of (addrs, rc, spent, err) \<Rightarrow>
     sorted addrs \<and> distinct addrs \<and> set addrs = addresses net cfg target \<and> (err = None \<longleftrightarrow> addrs \<noteq> [])"
proof -
  obtain ra ta where a: "net_exchange net (Timeout cfg) (net_fqdn net target) TypeA (ResolverAddr cfg) = (ra, ta)"
    by fastforce
  obtain rb tb where b: "net_exchange net (Timeout cfg) (net_fqdn net target) TypeAAAA (ResolverAddr cfg) = (rb, tb)"
    by fastforce
  note defs = resolveTarget_def addresses_def asked_def a b refused_by_dns_def records_of_def
  note collected = collect_ips_spec [OF map_ok_Nil, of net]
  have two: "map_ok (collect_ips net ys (collect_ips net xs [])) \<and>
      fst ` set (collect_ips net ys (collect_ips net xs [])) =
        {ip. \<exists>rr\<in>set xs. rr_address net rr = Some ip} \<union> {ip. \<exists>rr\<in>set ys. rr_address net rr = Some ip}" for xs ys
    using collect_ips_spec [of "collect_ips net xs []" net ys] collected [of xs] by auto
  have keys: "sorted (sort (map fst m)) \<and> (distinct (sort (map fst m)) \<longleftrightarrow> map_ok m) \<and> set (sort (map fst m)) = fst ` set m"
    for m :: "(string, unit) go_map"
    by (simp add: map_ok_def)
  have none: "m = [] \<longleftrightarrow> fst ` set m = {}" for m :: "(string, unit) go_map" by simp
  show ?thesis
  proof (cases ra)
    case A: (Inl e)
    show ?thesis
    proof (cases rb)
      case (Inl e')
      with A show ?thesis by (simp add: defs Let_def)
    next
      case (Inr m)
      with A collected [of "answer m"] keys [of "collect_ips net (answer m) []"] none [of "collect_ips net (answer m) []"]
      show ?thesis by (auto simp add: defs Let_def)
    qed
  next
    case A: (Inr m)
    show ?thesis
    proof (cases "rcode m = RcodeSuccess")
      case False
      with A show ?thesis by (simp add: defs Let_def)
    next
      case True
      show ?thesis
      proof (cases rb)
        case (Inl e')
        with A True collected [of "answer m"] keys [of "collect_ips net (answer m) []"] none [of "collect_ips net (answer m) []"]
        show ?thesis by (auto simp add: defs Let_def)
      next
        case (Inr m')
        with A True two [of "answer m'" "answer m"] collected [of "answer m"] keys [of "collect_ips net (answer m') (collect_ips net (answer m) [])"]
          keys [of "collect_ips net (answer m) []"] none
        show ?thesis by (auto simp add: defs Let_def)
      qed
    qed
  qed
qed

text \<open>
  Resolving gives exactly the addresses of the A and AAAA records of the successful
  answers, each once and sorted, and an error when and only when there is none: an answer to the
  A query with another code ends it, an error of one query leaves the answers of the other.
\<close>

theorem resolve_addresses:
  "sorted (fst (resolveTarget net cfg target)) \<and> distinct (fst (resolveTarget net cfg target)) \<and>
   set (fst (resolveTarget net cfg target)) = addresses net cfg target \<and>
   (snd (snd (snd (resolveTarget net cfg target))) = None \<longleftrightarrow> addresses net cfg target \<noteq> {})"
  using resolveTarget_spec [of net cfg target] by (auto split: prod.splits)

text \<open>The first endpoint that accepts a connection, in the order of the addresses.\<close>

definition working_endpoint :: "probe_net \<Rightarrow> Config \<Rightarrow> string list \<Rightarrow> string option" where
  "working_endpoint net cfg addrs =
     find (\<lambda>e. fst (dial_tcp net (Timeout cfg) e) = None) (map (\<lambda>ip. joinHostPort ip ''443'') addrs)"

lemma tcpLoop_spec:
  "case tcpLoop net cfg errs addrs of (endpoint, spent, err) \<Rightarrow>
     (case working_endpoint net cfg addrs of
        None \<Rightarrow> err \<noteq> None
      | Some e \<Rightarrow> err = None \<and> endpoint = e \<and> spent = snd (dial_tcp net (Timeout cfg) e))"
  by (induction net cfg errs addrs rule: tcpLoop.induct)
    (auto simp: working_endpoint_def Let_def split: prod.splits option.splits)

lemma classify_diagnosis:
  "fst (classifyOutcome q) =
     (if dnsErr q \<noteq> None \<or> resolvedIPs q = [] then DiagnosisDNSResolutionFailed
      else if \<not> tcpReachable q then DiagnosisEgressBlockedOrNetwork
      else if tlsWithSNIErr q \<noteq> None then DiagnosisTLSHandshakeFailed
      else if tlsWithoutSNIErr q \<noteq> None then DiagnosisTLSSNIRequired
      else if httpStatusCode q \<in> {403, 429, 451} then DiagnosisProviderBlockSuspected
      else DiagnosisHealthy)"
  by (simp add: classifyOutcome_def Let_def)

text \<open>The diagnosis as the network determines it, with no intermediate record.\<close>

definition network_diagnosis :: "probe_net \<Rightarrow> Config \<Rightarrow> string \<Rightarrow> Diagnosis" where
  "network_diagnosis net cfg target =
     (case working_endpoint net cfg (sorted_list_of_set (addresses net cfg target)) of
        None \<Rightarrow> if addresses net cfg target = {} then DiagnosisDNSResolutionFailed else DiagnosisEgressBlockedOrNetwork
      | Some e \<Rightarrow>
          if fst (dial_tls net (Timeout cfg) e target) \<noteq> None then DiagnosisTLSHandshakeFailed
          else if fst (dial_tls net (Timeout cfg) e '''') \<noteq> None then DiagnosisTLSSNIRequired
          else if https_head net (Timeout cfg) target e \<in> Inr ` {403, 429, 451} then DiagnosisProviderBlockSuspected
          else DiagnosisHealthy)"

lemma probeSecure_diagnosis:
  assumes "dnsErr q = None" "resolvedIPs q \<noteq> []" "tcpReachable q" "httpStatusCode q = 0"
  shows "fst (classifyOutcome (snd (probeSecure net cfg target e (r, q)))) =
      (if fst (dial_tls net (Timeout cfg) e target) \<noteq> None then DiagnosisTLSHandshakeFailed
       else if fst (dial_tls net (Timeout cfg) e '''') \<noteq> None then DiagnosisTLSSNIRequired
       else if https_head net (Timeout cfg) target e \<in> Inr ` {403, 429, 451} then DiagnosisProviderBlockSuspected
       else DiagnosisHealthy) \<and>
    (let r' = fst (probeSecure net cfg target e (r, q)) in
      TLSWithSNI r' = (fst (dial_tls net (Timeout cfg) e target) = None) \<and>
      TLSWithoutSNI r' = (fst (dial_tls net (Timeout cfg) e '''') = None) \<and>
      TCPReachable r' = TCPReachable r \<and> TestedEndpoint r' = TestedEndpoint r \<and> Target r' = Target r \<and>
      ResolvedIPs r' = ResolvedIPs r)"
  using assms
proof -
  obtain sniErr spent where sni: "dial_tls net (Timeout cfg) e target = (sniErr, spent)" by fastforce
  obtain plainErr spent' where plain: "dial_tls net (Timeout cfg) e '''' = (plainErr, spent')" by fastforce
  obtain status httpErr where http: "probeHTTPSStatus net cfg target e = (status, httpErr)" by fastforce
  have refused: "status \<in> {403, 429, 451} \<longleftrightarrow> https_head net (Timeout cfg) target e \<in> Inr ` {403, 429, 451}"
    using http by (cases "https_head net (Timeout cfg) target e") (auto simp: probeHTTPSStatus_def)
  show ?thesis
    unfolding refused [symmetric] using assms
    by (cases sniErr; cases plainErr) (simp_all add: probeSecure_def probeTLS_def sni plain http classify_diagnosis)
qed

lemma probeNetwork_diagnosis:
  assumes "dnsErr q = None" "resolvedIPs q \<noteq> []" "\<not> tcpReachable q" "httpStatusCode q = 0"
    and "\<not> TCPReachable r" "\<not> TLSWithSNI r" "\<not> TLSWithoutSNI r" "TestedEndpoint r = ''''"
  shows "case working_endpoint net cfg addrs of
      None \<Rightarrow> fst (classifyOutcome (snd (probeNetwork net cfg target addrs (r, q)))) = DiagnosisEgressBlockedOrNetwork \<and>
        (let r' = fst (probeNetwork net cfg target addrs (r, q)) in
         \<not> TCPReachable r' \<and> \<not> TLSWithSNI r' \<and> \<not> TLSWithoutSNI r' \<and> TestedEndpoint r' = '''' \<and> Target r' = Target r \<and>
         ResolvedIPs r' = ResolvedIPs r)
    | Some e \<Rightarrow> fst (classifyOutcome (snd (probeNetwork net cfg target addrs (r, q)))) =
        (if fst (dial_tls net (Timeout cfg) e target) \<noteq> None then DiagnosisTLSHandshakeFailed
         else if fst (dial_tls net (Timeout cfg) e '''') \<noteq> None then DiagnosisTLSSNIRequired
         else if https_head net (Timeout cfg) target e \<in> Inr ` {403, 429, 451} then DiagnosisProviderBlockSuspected
         else DiagnosisHealthy) \<and>
        (let r' = fst (probeNetwork net cfg target addrs (r, q)) in
         TCPReachable r' \<and> TestedEndpoint r' = e \<and> TLSWithSNI r' = (fst (dial_tls net (Timeout cfg) e target) = None) \<and>
         TLSWithoutSNI r' = (fst (dial_tls net (Timeout cfg) e '''') = None) \<and> Target r' = Target r \<and>
         ResolvedIPs r' = ResolvedIPs r)"
proof -
  obtain endpoint spent err where t: "tcpLoop net cfg [] addrs = (endpoint, spent, err)" by (metis prod.collapse)
  show ?thesis
  proof (cases "working_endpoint net cfg addrs")
    case None
    with tcpLoop_spec [of net cfg addrs "[]"] t obtain e where "err = Some e" by auto
    with None t assms show ?thesis
      by (simp add: probeNetwork_def probeTCPReachability_def classify_diagnosis)
  next
    case (Some e)
    with tcpLoop_spec [of net cfg addrs "[]"] t have "err = None" "endpoint = e" by auto
    with Some t probeSecure_diagnosis [of "q\<lparr>tcpReachable := True\<rparr>" net cfg target e
        "r\<lparr>TCPConnectLatencyMs := milliseconds spent, TCPReachable := True, TestedEndpoint := e\<rparr>"] assms
    show ?thesis by (simp add: probeNetwork_def probeTCPReachability_def Let_def)
  qed
qed

text \<open>
  C11.  The diagnosis is decided by the network alone, stage by stage: no address, no endpoint
  that accepts a connection, a TLS handshake with the name that fails, one without it that fails,
  a refusing HTTPS status, and else healthy; the report's flags and addresses say the same.
\<close>

theorem diagnosis_from_network:
  "Diagnosis (probeTarget net cfg target) = network_diagnosis net cfg target \<and>
   Target (probeTarget net cfg target) = target \<and>
   ResolvedIPs (probeTarget net cfg target) = sorted_list_of_set (addresses net cfg target) \<and>
   (TCPReachable (probeTarget net cfg target) \<longleftrightarrow>
      network_diagnosis net cfg target \<notin> {DiagnosisDNSResolutionFailed, DiagnosisEgressBlockedOrNetwork}) \<and>
   (TLSWithSNI (probeTarget net cfg target) \<longleftrightarrow>
      network_diagnosis net cfg target \<in>
        {DiagnosisTLSSNIRequired, DiagnosisProviderBlockSuspected, DiagnosisHealthy})"
proof -
  obtain addrs rc spent err where r: "resolveTarget net cfg target = (addrs, rc, spent, err)" by (metis prod.collapse)
  with resolveTarget_spec [of net cfg target]
  have addrs: "sorted addrs" "distinct addrs" "set addrs = addresses net cfg target" "err = None \<longleftrightarrow> addrs \<noteq> []" by auto
  then have list: "addrs = sorted_list_of_set (addresses net cfg target)"
    by (metis sorted_list_of_set.idem_if_sorted_distinct)
  show ?thesis
  proof (cases "addrs = []")
    case True
    with addrs list r show ?thesis
      by (simp add: probeTarget_def newResult_def network_diagnosis_def working_endpoint_def classifyOutcome_def Let_def)
  next
    case False
    with addrs have "err = None" "addresses net cfg target \<noteq> {}" by auto
    let ?q = "\<lparr>dnsErr = None, dnsRcode = rc, resolvedIPs = addrs, tcpReachable = False, tcpErr = None,
      tlsWithSNIErr = None, tlsWithoutSNIErr = None, httpStatusCode = 0, httpErr = None\<rparr>"
    let ?r = "(newResult (net_now net) cfg target)
      \<lparr>DNSRcode := rc, DNSLatencyMs := milliseconds spent, ResolvedIPs := addrs\<rparr>"
    obtain r1 q1 where run: "probeNetwork net cfg target addrs (?r, ?q) = (r1, q1)" by fastforce
    have final: "probeTarget net cfg target = (case classifyOutcome q1 of (d, s, e, ev) \<Rightarrow>
        r1\<lparr>Diagnosis := d, Summary := s, Error := e, Evidence := ev\<rparr>)"
      using False r run \<open>err = None\<close> by (simp add: probeTarget_def Let_def)
    obtain d s e ev where c: "classifyOutcome q1 = (d, s, e, ev)" by (metis prod.collapse)
    have start: "Target ?r = target" "ResolvedIPs ?r = addrs" by (simp_all add: newResult_def)
    from probeNetwork_diagnosis [of ?q ?r net cfg target addrs] False run c final list \<open>addresses net cfg target \<noteq> {}\<close>
    show ?thesis
      by (simp add: network_diagnosis_def newResult_def Let_def split: option.splits)
  qed
qed

subsection \<open>Passes and snapshots\<close>

text \<open>Whether a pass gets to the target at a position, and the latest result there after some passes.\<close>

definition reaches :: "pass \<Rightarrow> nat \<Rightarrow> bool" where
  "reaches p i \<longleftrightarrow> (case ended_after p of None \<Rightarrow> True | Some n \<Rightarrow> i < n)"

definition latest_result :: "Config \<Rightarrow> pass list \<Rightarrow> nat \<times> string \<Rightarrow> Result option" where
  "latest_result cfg ps = (\<lambda>(i, target).
     if list_ex (\<lambda>p. reaches p i) ps
     then Some (probeTarget (pass_net (last (filter (\<lambda>p. reaches p i) ps)) target) cfg target)
     else None)"

lemma latest_result_snoc:
  "latest_result cfg (ps @ [p]) (i, t) =
     (if reaches p i then Some (probeTarget (pass_net p t) cfg t) else latest_result cfg ps (i, t))"
  by (simp add: latest_result_def)

lemma probeTargets_spec:
  assumes "\<And>n. ended_after p = Some n \<Longrightarrow> i \<le> n" and "distinct ts"
  shows "runner_cfg (probeTargets p i ts r) = runner_cfg r \<and>
    (map_ok (results r) \<longrightarrow> map_ok (results (probeTargets p i ts r))) \<and>
    (\<forall>j<length ts. map_get (results (probeTargets p i ts r)) (ts ! j) =
       (if reaches p (i + j) then Some (probeTarget (pass_net p (ts ! j)) (runner_cfg r) (ts ! j))
        else map_get (results r) (ts ! j))) \<and>
    (\<forall>t. t \<notin> set ts \<longrightarrow> map_get (results (probeTargets p i ts r)) t = map_get (results r) t)"
  using assms
proof (induction p i ts r rule: probeTargets.induct)
  case (1 p i r)
  then show ?case by simp
next
  case (2 p i target ts r)
  show ?case
  proof (cases "ended_after p = Some i")
    case True
    then show ?thesis by (simp add: reaches_def)
  next
    case False
    with "2.prems"(1) have later: "Suc i \<le> n" if "ended_after p = Some n" for n
      using that by (metis Suc_leI le_neq_implies_less)
    with False have here: "reaches p i" by (auto simp: reaches_def Suc_le_eq split: option.split)
    from "2.IH" [OF False later] "2.prems"(2) False here show ?thesis
      by (auto simp: map_get_put nth_Cons less_Suc_eq_0_disj split: nat.split)
  qed
qed

definition stored :: "Config \<Rightarrow> pass list \<Rightarrow> Runner \<Rightarrow> bool" where
  "stored cfg ps r \<longleftrightarrow> runner_cfg r = cfg \<and> map_ok (results r) \<and>
     (\<forall>i<length (Targets cfg). map_get (results r) (Targets cfg ! i) = latest_result cfg ps (i, Targets cfg ! i)) \<and>
     (\<forall>t. t \<notin> set (Targets cfg) \<longrightarrow> map_get (results r) t = None)"

lemma stored_runOnce: "stored cfg ps r \<Longrightarrow> distinct (Targets cfg) \<Longrightarrow> stored cfg (ps @ [p]) (runOnce p r)"
  using probeTargets_spec [of p 0 "Targets cfg" r] by (simp add: stored_def runOnce_def latest_result_snoc)

lemma stored_passes:
  "stored cfg [] r \<Longrightarrow> distinct (Targets cfg) \<Longrightarrow> stored cfg ps (foldl (\<lambda>r p. runOnce p r) r ps)"
  by (induction ps rule: rev_induct) (auto intro: stored_runOnce)

lemma stored_Run:
  assumes "Targets (runner_cfg (NewRunner cfg)) \<noteq> [] \<or> ps = []"
  shows "stored (runner_cfg (NewRunner cfg)) ps (Run ps (NewRunner cfg))"
proof -
  have "stored (runner_cfg (NewRunner cfg)) [] (NewRunner cfg)"
    by (simp add: stored_def latest_result_def NewRunner_def)
  moreover have "distinct (Targets (runner_cfg (NewRunner cfg)))"
    using normalizedTargets_spec [of "[]" "Targets cfg"] by (simp add: NewRunner_def)
  ultimately show ?thesis
    using stored_passes [of "runner_cfg (NewRunner cfg)" "NewRunner cfg" ps] assms by (auto simp: Run_def)
qed

lemma probeNetwork_Target: "Target (fst (probeNetwork net cfg target addrs x)) = Target (fst x)"
  by (simp add: probeNetwork_def probeSecure_def Let_def split: prod.split option.split)

lemma probeTarget_Target: "Target (probeTarget net cfg target) = target"
  using probeNetwork_Target [of net cfg target]
  by (simp add: probeTarget_def newResult_def Let_def split: prod.split) (metis fst_conv Result.select_convs(1))

lemma latest_result_target: "latest_result cfg ps (i, t) = Some res \<Longrightarrow> Target res = t"
  by (auto simp: latest_result_def probeTarget_Target split: if_splits)

lemma snapshot_of_stored:
  assumes st: "stored cfg ps r" and ts: "sorted (Targets cfg)" "distinct (Targets cfg)"
  shows "Results (Snapshot rank r) = List.map_filter (latest_result cfg ps) (enumerate 0 (Targets cfg))"
proof -
  let ?found = "filter (\<lambda>x. latest_result cfg ps x \<noteq> None) (enumerate 0 (Targets cfg))"
  let ?R = "List.map_filter (latest_result cfg ps) (enumerate 0 (Targets cfg))"
  let ?xs = "map (\<lambda>k. the (map_get (results r) k)) (map_range rank (results r))"
  have R: "?R = map (the \<circ> latest_result cfg ps) ?found"
    by (simp add: List.map_filter_def comp_def)
  have "map Target ?R = map snd ?found"
    using latest_result_target by (auto simp: R)
  moreover have "sorted (map snd ?found) \<and> distinct (map snd ?found)"
    using ts by (auto intro!: sorted_filter distinct_map_filter simp del: enumerate_simps)
  ultimately have Rs: "sorted (map Target ?R)" "distinct (map Target ?R)" by simp_all
  have get: "map_get (results r) t = Some res \<longleftrightarrow> (\<exists>i<length (Targets cfg). t = Targets cfg ! i \<and> latest_result cfg ps (i, t) = Some res)"
    for t res
  proof (cases "t \<in> set (Targets cfg)")
    case True
    then obtain i where "i < length (Targets cfg)" "t = Targets cfg ! i" by (auto simp: in_set_conv_nth)
    with st ts show ?thesis by (auto simp: stored_def nth_eq_iff_index_eq)
  next
    case False
    with st show ?thesis by (auto simp: stored_def)
  qed
  have found: "\<exists>res. map_get (results r) k = Some res \<and> Target res = k" if "k \<in> set (map_range rank (results r))" for k
    using that get latest_result_target by (cases "map_get (results r) k") (auto simp: map_get_None_iff)
  have "map Target ?xs = map (\<lambda>k. k) (map_range rank (results r))"
    unfolding map_map by (rule map_cong) (use found in fastforce)+
  moreover have "distinct (map_range rank (results r))"
    using st by (simp add: stored_def map_ok_def map_range_def)
  ultimately have names: "distinct (map Target ?xs)" by simp
  have sets: "set ?xs = set ?R"
  proof (intro set_eqI iffI)
    fix res assume "res \<in> set ?xs"
    then obtain k where "k \<in> set (map_range rank (results r))" "res = the (map_get (results r) k)" by auto
    with found get obtain i where "i < length (Targets cfg)" "latest_result cfg ps (i, Targets cfg ! i) = Some res"
      by (metis option.sel)
    then show "res \<in> set ?R" by (force simp: R in_set_enumerate_eq image_iff)
  next
    fix res assume "res \<in> set ?R"
    then obtain i where "i < length (Targets cfg)" "latest_result cfg ps (i, Targets cfg ! i) = Some res"
      by (auto simp: R in_set_enumerate_eq)
    with get have "map_get (results r) (Targets cfg ! i) = Some res" by blast
    moreover from this have "Targets cfg ! i \<in> set (map_range rank (results r))"
      by (metis map_get_None_iff option.distinct(1) set_map_range)
    ultimately show "res \<in> set ?xs" by (force simp: image_iff simp del: set_map_range)
  qed
  have "sort_key Target ?xs = ?R"
  proof (rule map_sorted_distinct_set_unique [of Target])
    show "inj_on Target (set (sort_key Target ?xs) \<union> set ?R)"
      using Rs(2) sets by (simp only: distinct_map set_sort Un_absorb)
    show "distinct (map Target (sort_key Target ?xs))" using names by (simp only: distinct_map set_sort distinct_sort)
  qed (use Rs sets in simp_all)
  then show ?thesis by (simp add: Snapshot_def)
qed

text \<open>
  C20.  The report is the latest result of each target that was ever reached, in the order of
  the targets: a pass that ends early leaves the older results, and the order in which the map
  is enumerated does not show.
\<close>

theorem snapshot_reports_latest:
  "Results (Snapshot rank (Run ps (NewRunner cfg))) =
     List.map_filter (latest_result (runner_cfg (NewRunner cfg)) ps) (enumerate 0 (Targets (runner_cfg (NewRunner cfg))))"
proof (cases "Targets (runner_cfg (NewRunner cfg)) = []")
  case True
  then show ?thesis
    by (simp add: Run_def Snapshot_def NewRunner_def map_range_def List.map_filter_def)
next
  case False
  then have "stored (runner_cfg (NewRunner cfg)) ps (Run ps (NewRunner cfg))" by (simp add: stored_Run)
  then show ?thesis
    by (rule snapshot_of_stored) (use normalizedTargets_spec [of "[]" "Targets cfg"] in \<open>simp_all add: NewRunner_def\<close>)
qed

end
