(* ===== verification/AgentHttp.thy ===== *)
theory AgentHttp
  imports AgentProperties Diagnostics
begin

section \<open>The HTTP endpoints of the agent\<close>

text \<open>
  The handlers of \<open>cmd/agent/main.go\<close>: metrics behind an optional bearer token, liveness,
  readiness and diagnostics.  A request is its path and, where it is read, its \<open>Authorization\<close>
  header, empty when there is none; \<open>ServeMux\<close> matches the three paths exactly.  The JSON encoding
  of the diagnostics is left abstract: a response is what is encoded.
\<close>

subsection \<open>Metrics\<close>

datatype metrics_response = NotFoundResponse | UnauthorizedResponse | MetricsServed

text \<open>The argument is \<open>None\<close> for a request that is nil.  Comparing in constant time is comparing.\<close>

definition isAuthorizedMetricsRequest :: "string option \<Rightarrow> string \<Rightarrow> bool" where
  "isAuthorizedMetricsRequest r token =
     (case r of
        None \<Rightarrow> False
      | Some hdr \<Rightarrow>
          (let authorization = trim_space hdr; bearerPrefix = ''Bearer '' in
           if \<not> has_prefix authorization bearerPrefix then False
           else
             let presentedToken = trim_space (drop (length bearerPrefix) authorization)
             in if presentedToken = '''' \<or> token = '''' then False else presentedToken = token))"

definition newMetricsHandler :: "string \<Rightarrow> string \<Rightarrow> string \<Rightarrow> metrics_response" where
  "newMetricsHandler bearerToken path hdr =
     (let token = trim_space bearerToken in
      if path \<noteq> ''/metrics'' then NotFoundResponse
      else if token \<noteq> '''' \<and> \<not> isAuthorizedMetricsRequest (Some hdr) token then UnauthorizedResponse
      else MetricsServed)"

subsection \<open>Health\<close>

text \<open>
  The provider of the diagnostics is an interface value: nil, or a pointer to a runner, which may
  itself be nil.  \<open>Snapshot\<close> called on a nil runner dereferences it, and the handler panics.
\<close>

datatype snapshot_provider = NilInterface | RunnerPointer "Runner option"

datatype http_response =
    Response int string
  | DiagnosticsDisabled
  | DiagnosticsReport Snapshot
  | HandlerPanics
  | NoSuchPath

definition healthz :: "engine_api \<Rightarrow> op_env \<Rightarrow> engine \<Rightarrow> http_response" where
  "healthz eng env e =
     (let (status, err) = api_HealthStatus eng env e in
      if err \<noteq> None \<or> \<not> Healthy status then Response 503 ''unhealthy'' else Response 200 ''ok'')"

definition readyz :: "engine_api \<Rightarrow> op_env \<Rightarrow> engine \<Rightarrow> Checker \<Rightarrow> http_response" where
  "readyz eng env e checker =
     (let (status, err) = api_HealthStatus eng env e in
      if err \<noteq> None \<or> \<not> Healthy status then Response 503 ''engine unhealthy''
      else if \<not> HasHealthyUpstream checker then Response 503 ''no healthy upstreams''
      else Response 200 ''ready'')"

definition diagnosticsHandler :: "(string \<Rightarrow> nat) \<Rightarrow> snapshot_provider \<Rightarrow> http_response" where
  "diagnosticsHandler range_rank diagnosticsProvider =
     (case diagnosticsProvider of
        NilInterface \<Rightarrow> DiagnosticsDisabled
      | RunnerPointer None \<Rightarrow> HandlerPanics
      | RunnerPointer (Some r) \<Rightarrow> DiagnosticsReport (Snapshot range_rank r))"

definition newHealthHandler ::
  "engine_api \<Rightarrow> op_env \<Rightarrow> (string \<Rightarrow> nat) \<Rightarrow> engine \<Rightarrow> Checker \<Rightarrow> snapshot_provider \<Rightarrow> string \<Rightarrow> http_response" where
  "newHealthHandler eng env range_rank e checker diagnosticsProvider path =
     (if path = ''/healthz'' then healthz eng env e
      else if path = ''/readyz'' then readyz eng env e checker
      else if path = ''/diagnostics'' then diagnosticsHandler range_rank diagnosticsProvider
      else NoSuchPath)"

text \<open>The runner of \<open>main\<close>: a variable of pointer type, nil unless diagnostics are enabled with targets.\<close>

definition startDiagnostics :: "runtimeConfig \<Rightarrow> Runner option" where
  "startDiagnostics cfg =
     (if DiagnosticsEnabled cfg \<and> length (DiagnosticsTargets cfg) > 0 then
        Some (NewRunner \<lparr>Targets = DiagnosticsTargets cfg,
          ResolverAddr = diagnosticsResolverAddress (runtimeConfig.ListenAddr cfg),
          Interval = DiagnosticsInterval cfg, Timeout = DiagnosticsTimeout cfg\<rparr>)
      else None)"

subsection \<open>Properties\<close>

text \<open>
  Behind a token the metrics are served only to a request that presents it: a header that is,
  up to surrounding space, \<open>Bearer\<close>, a space and the token.  Without a token they are open.
\<close>

theorem metrics_need_token:
  "newMetricsHandler bearerToken path hdr = MetricsServed \<longleftrightarrow>
     path = ''/metrics'' \<and>
     (trim_space bearerToken = '''' \<or>
      (\<exists>presented. trim_space hdr = ''Bearer '' @ presented \<and> trim_space presented = trim_space bearerToken))"
proof (cases "trim_space bearerToken = ''''")
  case True
  then show ?thesis by (simp add: newMetricsHandler_def)
next
  case False
  have "isAuthorizedMetricsRequest (Some hdr) (trim_space bearerToken) \<longleftrightarrow>
      (\<exists>presented. trim_space hdr = ''Bearer '' @ presented \<and> trim_space presented = trim_space bearerToken)"
  proof (cases "has_prefix (trim_space hdr) ''Bearer ''")
    case True
    then obtain t where "trim_space hdr = ''Bearer '' @ t" by (auto simp: has_prefix_iff)
    with False show ?thesis by (simp add: isAuthorizedMetricsRequest_def has_prefix_iff Let_def)
  next
    case False
    then show ?thesis by (simp add: isAuthorizedMetricsRequest_def Let_def) (simp add: has_prefix_iff)
  qed
  with False show ?thesis by (simp add: newMetricsHandler_def Let_def)
qed

text \<open>
  C34.  The agent is ready exactly when its engine answers a query at the configured address
  with NOERROR and at least one upstream is healthy; it is alive when the engine answers.
\<close>

theorem ready_iff_serving:
  assumes "(name, api, new) \<in> set (registered rcodes tmpls cpus)"
    and "engine_follows (renderer tmpls cpus name) (normalizer cpus name) c e"
  shows "(newHealthHandler (synchronizedEngine api) env range_rank e checker prov ''/healthz'' = Response 200 ''ok'' \<longleftrightarrow>
      EngineConfig.ListenAddr (normalizer cpus name c) \<noteq> '''' \<and> ListenPort (normalizer cpus name c) \<noteq> 0 \<and>
      ask_engine env (joinHostPort (EngineConfig.ListenAddr (normalizer cpus name c)) (itoa (ListenPort (normalizer cpus name c))))
        = Inr (Some RcodeSuccess)) \<and>
    (newHealthHandler (synchronizedEngine api) env range_rank e checker prov ''/readyz'' = Response 200 ''ready'' \<longleftrightarrow>
      newHealthHandler (synchronizedEngine api) env range_rank e checker prov ''/healthz'' = Response 200 ''ok'' \<and>
      HasHealthyUpstream checker)"
proof -
  note contract = agent_contract [OF assms(1)]
  obtain status err where s: "api_HealthStatus (synchronizedEngine api) env e = (status, err)" by fastforce
  with engine_contract.healthy_no_error [OF contract, of env e] have "Healthy status \<Longrightarrow> err = None" by simp
  moreover have "Healthy status \<longleftrightarrow>
      EngineConfig.ListenAddr (normalizer cpus name c) \<noteq> '''' \<and> ListenPort (normalizer cpus name c) \<noteq> 0 \<and>
      ask_engine env (joinHostPort (EngineConfig.ListenAddr (normalizer cpus name c)) (itoa (ListenPort (normalizer cpus name c))))
        = Inr (Some RcodeSuccess)"
    using engine_contract.health [OF contract, of env e] s assms(2) by (simp add: engine_follows_def)
  ultimately show ?thesis
    using s by (auto simp: newHealthHandler_def healthz_def readyz_def)
qed

text \<open>
  C39.  The diagnostics endpoint of the agent serves a report only when diagnostics are enabled
  with a target; otherwise it panics, because the provider is a pointer that is nil inside an
  interface that is not, and the answer that says they are disabled is never given.
\<close>

theorem disabled_diagnostics_panic:
  "newHealthHandler eng env range_rank e checker (RunnerPointer (startDiagnostics cfg)) ''/diagnostics'' \<noteq> DiagnosticsDisabled \<and>
   (newHealthHandler eng env range_rank e checker (RunnerPointer (startDiagnostics cfg)) ''/diagnostics'' \<noteq> HandlerPanics \<longleftrightarrow>
      DiagnosticsEnabled cfg \<and> DiagnosticsTargets cfg \<noteq> [])"
  by (simp add: newHealthHandler_def diagnosticsHandler_def startDiagnostics_def)

lemma ready_iff_serving_witness:
  "\<exists>e. newHealthHandler (synchronizedEngine sample_unbound) calm (\<lambda>_. 0) e sample_checker NilInterface ''/healthz'' = Response 200 ''ok'' \<and>
     newHealthHandler (synchronizedEngine sample_unbound) calm (\<lambda>_. 0) e sample_checker NilInterface ''/readyz'' \<noteq> Response 200 ''ready''"
proof -
  let ?e0 = "(NewUnboundEngine ''/run'', empty_machine)"
  obtain r e where run: "api_Configure sample_unbound calm plain_config ?e0 = (r, e)"
    by (cases "api_Configure sample_unbound calm plain_config ?e0" rule: prod.exhaust)
  have "\<not> isl (fst (api_Configure sample_unbound calm plain_config ?e0))" by code_simp
  with run obtain path where "r = Inr path" by (cases r) auto
  with run engine_contract.configure_done [OF registered_contract [OF sample_registered]]
  have follows: "engine_follows (renderer sample_templates 4 ''unbound'') (normalizer 4 ''unbound'') plain_config e"
    by (fastforce simp: engine_follows_def)
  have addr: "EngineConfig.ListenAddr (normalizer 4 ''unbound'' plain_config) = ''127.0.0.1'' \<and>
      ListenPort (normalizer 4 ''unbound'' plain_config) = 5354 \<and> \<not> HasHealthyUpstream sample_checker" by code_simp
  have "ask_engine calm a = Inr (Some RcodeSuccess)" for a by (simp add: calm_def RcodeSuccess_def)
  with ready_iff_serving [OF sample_registered follows, of calm "\<lambda>_. 0" sample_checker NilInterface] addr
  show ?thesis by (intro exI [of _ e]) simp
qed

end
