(* ===== verification/FanOut.thy ===== *)
theory FanOut
  imports Channel "HOL-Library.Sublist"
begin

section \<open>The fan-out of events\<close>

text \<open>
  \<open>fanOut\<close> of \<open>cmd/agent/main.go\<close>, the goroutine that copies each event of the proxy to the
  collector and to the query logger without waiting for either, and closes both at the end.  Its
  consumers run concurrently: a run is the sequence of the events it receives, interleaved with
  the receives of the consumers (\<open>Taken\<close>); what they have received is recorded.
\<close>

datatype 'a fan_step = Event 'a | Taken nat

record 'a fan =
  outs :: "'a chan list"
  taken :: "'a list list"
  drops :: nat

text \<open>The inner loop: one non-blocking send per output.  A send on a closed channel panics.\<close>

fun sendAll :: "'a \<Rightarrow> 'a chan list \<Rightarrow> ('a chan list \<times> nat) option" where
  "sendAll event [] = Some ([], 0)"
| "sendAll event (out # rest) =
     (case trySend out event of
        None \<Rightarrow> None
      | Some (sent, out') \<Rightarrow>
          (case sendAll event rest of
             None \<Rightarrow> None
           | Some (rest', n) \<Rightarrow> Some (out' # rest', if sent then n else Suc n)))"

definition take_one :: "nat \<Rightarrow> 'a fan \<Rightarrow> 'a fan" where
  "take_one i s =
     (if i < length (outs s) then
        (case recv (outs s ! i) of
           (Got x, out') \<Rightarrow> s\<lparr>outs := (outs s)[i := out'], taken := (taken s)[i := taken s ! i @ [x]]\<rparr>
         | (_, _) \<Rightarrow> s)
      else s)"

text \<open>\<open>onDrop\<close>, when it is not nil, counts a drop.  The input ends when the proxy has closed it.\<close>

fun fanOut :: "bool \<Rightarrow> 'a fan_step list \<Rightarrow> 'a fan \<Rightarrow> 'a fan option" where
  "fanOut has_onDrop [] s = Some (s\<lparr>outs := map (\<lambda>out. out\<lparr>chan_closed := True\<rparr>) (outs s)\<rparr>)"
| "fanOut has_onDrop (Event event # steps) s =
     (case sendAll event (outs s) of
        None \<Rightarrow> None
      | Some (outs', n) \<Rightarrow>
          fanOut has_onDrop steps (s\<lparr>outs := outs', drops := (if has_onDrop then drops s + n else drops s)\<rparr>))"
| "fanOut has_onDrop (Taken i # steps) s = fanOut has_onDrop steps (take_one i s)"

fun events_of :: "'a fan_step list \<Rightarrow> 'a list" where
  "events_of [] = []"
| "events_of (Event e # steps) = e # events_of steps"
| "events_of (Taken i # steps) = events_of steps"

text \<open>What an output has been given: received by its consumer or still waiting.\<close>

definition given :: "'a fan \<Rightarrow> nat \<Rightarrow> 'a list" where
  "given s i = taken s ! i @ buffer (outs s ! i)"

definition fan_ok :: "'a list \<Rightarrow> 'a fan \<Rightarrow> bool" where
  "fan_ok seen s \<longleftrightarrow>
     length (taken s) = length (outs s) \<and>
     (\<forall>i<length (outs s). \<not> chan_closed (outs s ! i) \<and> subseq (given s i) seen) \<and>
     (\<Sum>i<length (outs s). length (given s i)) + drops s = length seen * length (outs s)"

lemma sendAll_spec:
  assumes "\<forall>i<length os. \<not> chan_closed (os ! i)"
  shows "\<exists>os' n. sendAll e os = Some (os', n) \<and> length os' = length os \<and>
    (\<forall>i<length os. \<not> chan_closed (os' ! i) \<and>
       (buffer (os' ! i) = buffer (os ! i) \<or> buffer (os' ! i) = buffer (os ! i) @ [e])) \<and>
    (\<Sum>i<length os. length (buffer (os' ! i))) + n = (\<Sum>i<length os. length (buffer (os ! i))) + length os"
  using assms
proof (induction os)
  case Nil
  then show ?case by simp
next
  case (Cons c os)
  from Cons.prems have c: "\<not> chan_closed c" and os: "\<forall>i<length os. \<not> chan_closed (os ! i)" by auto
  from Cons.IH [OF os] obtain os' n where IH: "sendAll e os = Some (os', n)" "length os' = length os"
    "\<forall>i<length os. \<not> chan_closed (os' ! i) \<and>
       (buffer (os' ! i) = buffer (os ! i) \<or> buffer (os' ! i) = buffer (os ! i) @ [e])"
    "(\<Sum>i<length os. length (buffer (os' ! i))) + n = (\<Sum>i<length os. length (buffer (os ! i))) + length os" by blast
  from c obtain sent c' where t: "trySend c e = Some (sent, c')" by (cases "trySend c e") auto
  note f = trySend_fields [OF t]
  have "sendAll e (c # os) = Some (c' # os', if sent then n else Suc n)" using t IH(1) by simp
  moreover have "\<forall>i<length (c # os). \<not> chan_closed ((c' # os') ! i) \<and>
      (buffer ((c' # os') ! i) = buffer ((c # os) ! i) \<or> buffer ((c' # os') ! i) = buffer ((c # os) ! i) @ [e])"
    using IH(3) f c by (auto simp: less_Suc_eq_0_disj)
  moreover have "(\<Sum>i<length (c # os). length (buffer ((c' # os') ! i))) + (if sent then n else Suc n) =
      (\<Sum>i<length (c # os). length (buffer ((c # os) ! i))) + length (c # os)"
    using IH(4) f by (simp add: sum.lessThan_Suc_shift del: sum.lessThan_Suc)
  ultimately show ?case using IH(2) by (intro exI conjI) auto
qed

lemma take_one_ok: "fan_ok seen s \<Longrightarrow> fan_ok seen (take_one i s) \<and> length (outs (take_one i s)) = length (outs s)"
proof -
  assume ok: "fan_ok seen s"
  show ?thesis
  proof (cases "i < length (outs s) \<and> buffer (outs s ! i) \<noteq> []")
    case False
    then have "take_one i s = s"
      by (auto simp: take_one_def recv_def)
    with ok show ?thesis by simp
  next
    case True
    then obtain x xs where b: "buffer (outs s ! i) = x # xs" by (cases "buffer (outs s ! i)") auto
    define s' where "s' = take_one i s"
    have s': "s' = s\<lparr>outs := (outs s)[i := (outs s ! i)\<lparr>buffer := xs\<rparr>], taken := (taken s)[i := taken s ! i @ [x]]\<rparr>"
      using True b by (simp add: s'_def take_one_def recv_def)
    have "given s' j = given s j" if "j < length (outs s)" for j
      using True b ok that by (cases "j = i") (simp_all add: s' given_def fan_ok_def)
    moreover have "chan_closed (outs s' ! j) = chan_closed (outs s ! j)" if "j < length (outs s)" for j
      using True that by (cases "j = i") (simp_all add: s')
    moreover have "length (outs s') = length (outs s)" "length (taken s') = length (taken s)" "drops s' = drops s"
      by (simp_all add: s')
    ultimately show ?thesis using ok unfolding s'_def [symmetric] by (simp add: fan_ok_def)
  qed
qed

lemma send_ok:
  assumes ok: "fan_ok seen s"
  shows "\<exists>os' n. sendAll e (outs s) = Some (os', n) \<and> fan_ok (seen @ [e]) (s\<lparr>outs := os', drops := drops s + n\<rparr>) \<and>
    length os' = length (outs s)"
proof -
  from ok have "\<forall>i<length (outs s). \<not> chan_closed (outs s ! i)" by (simp add: fan_ok_def)
  from sendAll_spec [OF this, of e] obtain os' n where s: "sendAll e (outs s) = Some (os', n)" "length os' = length (outs s)"
    and each: "\<forall>i<length (outs s). \<not> chan_closed (os' ! i) \<and>
       (buffer (os' ! i) = buffer (outs s ! i) \<or> buffer (os' ! i) = buffer (outs s ! i) @ [e])"
    and total: "(\<Sum>i<length (outs s). length (buffer (os' ! i))) + n =
      (\<Sum>i<length (outs s). length (buffer (outs s ! i))) + length (outs s)" by blast
  let ?s = "s\<lparr>outs := os', drops := drops s + n\<rparr>"
  have sub: "subseq (given ?s i) (seen @ [e])" if i: "i < length (outs s)" for i
  proof -
    have "subseq (given s i) seen" using ok i by (simp add: fan_ok_def)
    then have "subseq (given s i) (seen @ [e])" "subseq (given s i @ [e]) (seen @ [e])"
      using list_emb_append_mono [of "(=)" "given s i" seen "[]" "[e]"]
        list_emb_append_mono [of "(=)" "given s i" seen "[e]" "[e]"] by simp_all
    moreover have "given ?s i = given s i \<or> given ?s i = given s i @ [e]" using each i by (auto simp: given_def)
    ultimately show ?thesis by metis
  qed
  have sums: "(\<Sum>i<length (outs s). length (given t i)) =
      (\<Sum>i<length (outs s). length (taken t ! i)) + (\<Sum>i<length (outs s). length (buffer (outs t ! i)))" for t
    by (simp add: given_def sum.distrib)
  have "(\<Sum>i<length (outs s). length (given ?s i)) + (drops s + n) = length (seen @ [e]) * length (outs s)"
    using ok total sums [of s] sums [of ?s] by (simp add: fan_ok_def)
  with s each sub ok show ?thesis by (auto simp: fan_ok_def)
qed

lemma fanOut_run:
  "fan_ok seen s \<Longrightarrow> \<exists>s'. fanOut True steps s = Some s' \<and>
     (\<exists>t. fan_ok (seen @ events_of steps) t \<and> length (outs t) = length (outs s) \<and>
        s' = t\<lparr>outs := map (\<lambda>out. out\<lparr>chan_closed := True\<rparr>) (outs t)\<rparr>)"
proof (induction "True" steps s arbitrary: seen rule: fanOut.induct)
  case (1 s)
  then show ?case by auto
next
  case (2 event steps s)
  from send_ok [OF "2.prems", of event] obtain os' n where
    "sendAll event (outs s) = Some (os', n)" "fan_ok (seen @ [event]) (s\<lparr>outs := os', drops := drops s + n\<rparr>)"
    "length os' = length (outs s)" by blast
  with "2.hyps" [of "(os', n)" os' n "seen @ [event]"] show ?case by simp
next
  case (3 i steps s)
  from take_one_ok [OF "3.prems", of i] "3.hyps" [of seen] show ?case by simp
qed

text \<open>
  C26.  The fan-out neither blocks nor panics, and loses only what it counts: however the
  consumers interleave, each of them is given a subsequence of the events in their order, what is
  given and what is dropped adds up to every event for every output, and at the end all outputs
  are closed.
\<close>

theorem fan_out_conserves:
  assumes "fan_ok [] s"
  shows "\<exists>s'. fanOut True steps s = Some s' \<and> length (outs s') = length (outs s) \<and>
    (\<forall>i<length (outs s). subseq (given s' i) (events_of steps)) \<and>
    (\<Sum>i<length (outs s). length (given s' i)) + drops s' = length (events_of steps) * length (outs s) \<and>
    list_all chan_closed (outs s')"
proof -
  from fanOut_run [OF assms, of steps] obtain s' t where run: "fanOut True steps s = Some s'"
    and t: "fan_ok (events_of steps) t" "length (outs t) = length (outs s)"
    and s': "s' = t\<lparr>outs := map (\<lambda>out. out\<lparr>chan_closed := True\<rparr>) (outs t)\<rparr>" by auto
  have "given s' i = given t i" if "i < length (outs t)" for i using that by (simp add: s' given_def)
  with run t show ?thesis by (auto simp: s' fan_ok_def list_all_iff)
qed

definition fresh_fan :: "int \<Rightarrow> nat \<Rightarrow> 'a fan" where
  "fresh_fan cap n = \<lparr>outs = replicate n (make_chan cap), taken = replicate n [], drops = 0\<rparr>"

lemma fan_out_conserves_witness:
  "\<exists>s'. fanOut True [Event (1::int), Event 2, Taken 0, Event 3] (fresh_fan 1 2) = Some s' \<and>
     list_all chan_closed (outs s') \<and> drops s' + length (given s' 0) + length (given s' 1) = 6"
proof -
  have "fan_ok [] (fresh_fan 1 2 :: int fan)"
    by (simp add: fan_ok_def fresh_fan_def given_def make_chan_def)
  from fan_out_conserves [OF this, of "[Event 1, Event 2, Taken 0, Event 3]"] show ?thesis
    by (auto simp: fresh_fan_def numeral_2_eq_2)
qed

end
