(* ===== verification/QuerySteps.thy ===== *)
theory QuerySteps
  imports ProxyProperties
begin

section \<open>A query among others\<close>

text \<open>
  The handler of a query (\<open>handleQuery\<close> of \<open>pkg/proxy/proxy.go\<close> with the \<open>Exchange\<close> of
  \<open>pkg/proxy/connpool.go\<close>) runs in a goroutine of its own.  Here it is a sequence of steps, one
  for each section that runs under a lock or touches nothing shared: between two of them other
  queries and updates change the proxy.  What the handler keeps in local variables is in its
  program counter.  \<open>handleQuery\<close> of \<open>Proxy\<close> is the run that nobody disturbs
  (\<open>undisturbed_query\<close>); under any interference the handler ends after a bounded number of its own
  steps and replies once (\<open>query_terminates\<close>).

  A bucket of the rate limiter is charged through a pointer after the limiter's lock is
  released.  A cleanup in between may take it out of the table: then charging it changes a
  bucket nobody else can find, and the outcome is the \<open>orphan_verdict\<close> of the disturbance.
\<close>

subsection \<open>The model\<close>

datatype call_pc =
    ChargingGlobal
  | FindingBucket
  | ChargingBucket bucket_ref
  | Filtering
  | Looking
  | Borrowing time
  | Dialling time
  | Exchanging time conn
  | Releasing time conn "dns_msg option"
  | TryingStale time
  | ReadingFallbacks time
  | AskingFallback time "string list"
  | Storing dns_msg string
  | Replying verdict
  | Publishing verdict
  | Answered
  | Panicked

record disturbance =
  orphaned :: bool
  orphan_verdict :: bool

definition undisturbed :: disturbance where
  "undisturbed = \<lparr>orphaned = False, orphan_verdict = False\<rparr>"

definition refusal :: "query_env \<Rightarrow> dns_msg \<Rightarrow> verdict" where
  "refusal e q = plain_verdict (SetRcode (lib e) q RcodeRefused) rateLimitOverflowUpstream False False"

definition chargeGlobalStep :: "query_env \<Rightarrow> dns_msg \<Rightarrow> query_state \<Rightarrow> call_pc \<times> query_state" where
  "chargeGlobalStep e q s =
     (case request_limiter (proxy s) of
        None \<Rightarrow> (Filtering, s)
      | Some r \<Rightarrow>
          (case globalBucket r of
             None \<Rightarrow> (FindingBucket, s)
           | Some g \<Rightarrow>
               (case bucketAllow g (started e) of
                  (ok, g') \<Rightarrow>
                    (if ok then FindingBucket else Replying (refusal e q),
                     s\<lparr>proxy := (proxy s)\<lparr>request_limiter := Some (r\<lparr>globalBucket := Some g'\<rparr>)\<rparr>\<rparr>))))"

definition findBucketStep :: "query_env \<Rightarrow> query_state \<Rightarrow> call_pc \<times> query_state" where
  "findBucketStep e s =
     (case request_limiter (proxy s) of
        None \<Rightarrow> (Filtering, s)
      | Some r \<Rightarrow>
          (case perSource r of
             None \<Rightarrow> (Filtering, s)
           | Some sources \<Rightarrow>
               (case lookupPerSourceBucket r sources (sourceIP (remote e)) (started e) of
                  (ref, r') \<Rightarrow>
                    (ChargingBucket ref, s\<lparr>proxy := (proxy s)\<lparr>request_limiter := Some r'\<rparr>\<rparr>))))"

text \<open>Is the bucket still in the table?\<close>

definition in_table :: "requestLimiter \<Rightarrow> bucket_ref \<Rightarrow> bool" where
  "in_table r ref =
     (case ref of
        Overflow \<Rightarrow> True
      | Source key \<Rightarrow>
          (case perSource r of None \<Rightarrow> False | Some sources \<Rightarrow> map_get sources key \<noteq> None))"

definition chargeHeld :: "requestLimiter \<Rightarrow> bucket_ref \<Rightarrow> time \<Rightarrow> disturbance \<Rightarrow> (bool \<times> requestLimiter) option" where
  "chargeHeld r ref now d =
     (if in_table r ref \<and> \<not> (ref \<noteq> Overflow \<and> orphaned d) then chargeBucket r ref now
      else Some (orphan_verdict d, r))"

definition chargeBucketStep ::
  "query_env \<Rightarrow> dns_msg \<Rightarrow> disturbance \<Rightarrow> bucket_ref \<Rightarrow> query_state \<Rightarrow> call_pc \<times> query_state" where
  "chargeBucketStep e q d ref s =
     (case request_limiter (proxy s) of
        None \<Rightarrow> (Filtering, s)
      | Some r \<Rightarrow>
          (case chargeHeld r ref (started e) d of
             None \<Rightarrow> (Panicked, s)
           | Some (ok, r') \<Rightarrow>
               (if ok then Filtering else Replying (refusal e q),
                s\<lparr>proxy := (proxy s)\<lparr>request_limiter := Some r'\<rparr>\<rparr>)))"

text \<open>The filter and its response code are read under one lock.\<close>

definition filterStep :: "query_env \<Rightarrow> dns_msg \<Rightarrow> query_state \<Rightarrow> call_pc \<times> query_state" where
  "filterStep e q s =
     (let p = proxy s in
      if domain_filter p \<noteq> None \<and> \<not> Allowed (domain_filter p) (normalizeDomain (Some q))
      then (Replying \<lparr>v_reply = SetRcode (lib e) q (filterRcode p), v_upstream = deniedUpstreamLabel,
              v_known = False, v_hit = False, v_denied = True\<rparr>, s)
      else (Looking, s))"

definition lookStep :: "query_env \<Rightarrow> dns_msg \<Rightarrow> query_state \<Rightarrow> call_pc \<times> query_state" where
  "lookStep e q s =
     (case Get (cache (proxy s)) (Some q) (started e) of
        Some cachedResponse \<Rightarrow> (Replying (plain_verdict cachedResponse cacheHitUpstreamLabel True True), s)
      | None \<Rightarrow> (Borrowing (wall e + QueryTimeout (config (proxy s))), s))"

definition engineNetwork :: "query_env \<Rightarrow> string" where
  "engineNetwork e = normalizeEngineNetwork (networkForRemoteAddr (remote e))"

definition borrowStep :: "query_env \<Rightarrow> time \<Rightarrow> query_state \<Rightarrow> call_pc \<times> query_state" where
  "borrowStep e deadline s =
     (case conn_pool (proxy s) of
        None \<Rightarrow> (TryingStale deadline, s)
      | Some po \<Rightarrow>
          (case borrow po (engineNetwork e) of
             (b, po') \<Rightarrow>
               (case b of PoolClosed \<Rightarrow> TryingStale deadline | Pooled c \<Rightarrow> Exchanging deadline c
                  | MustDial \<Rightarrow> Dialling deadline,
                s\<lparr>proxy := (proxy s)\<lparr>conn_pool := Some po'\<rparr>\<rparr>)))"

definition dialStep :: "query_env \<Rightarrow> time \<Rightarrow> query_state \<Rightarrow> call_pc \<times> query_state" where
  "dialStep e deadline s =
     (case conn_pool (proxy s) of
        None \<Rightarrow> (TryingStale deadline, s)
      | Some po \<Rightarrow>
          (case dial e (engineNetwork e) (pool_addr po) (pool_timeout po) of
             Inl err \<Rightarrow> (TryingStale deadline, s)
           | Inr c \<Rightarrow> (Exchanging deadline c, s)))"

definition exchangeStep :: "query_env \<Rightarrow> dns_msg \<Rightarrow> time \<Rightarrow> conn \<Rightarrow> query_state \<Rightarrow> call_pc \<times> query_state" where
  "exchangeStep e q deadline c s =
     (case conn_pool (proxy s) of
        None \<Rightarrow> (TryingStale deadline, s)
      | Some po \<Rightarrow>
          (case exchangeWithConn e (engineNetwork e) (pool_timeout po) deadline q c of
             Inl err \<Rightarrow> (TryingStale deadline, s\<lparr>hung_up := hung_up s @ [c]\<rparr>)
           | Inr response \<Rightarrow> (Releasing deadline c response, s)))"

definition releaseStep ::
  "query_env \<Rightarrow> time \<Rightarrow> conn \<Rightarrow> dns_msg option \<Rightarrow> query_state \<Rightarrow> call_pc \<times> query_state" where
  "releaseStep e deadline c response s =
     (case conn_pool (proxy s) of
        None \<Rightarrow> (TryingStale deadline, s)
      | Some po \<Rightarrow>
          (case release po (engineNetwork e) (Some c) of
             (po', cs) \<Rightarrow>
               (case response of
                  Some m \<Rightarrow> Storing m (EngineAddr (config (proxy s)))
                | None \<Rightarrow> TryingStale deadline,
                s\<lparr>proxy := (proxy s)\<lparr>conn_pool := Some po'\<rparr>, hung_up := hung_up s @ cs\<rparr>)))"

definition staleStep :: "query_env \<Rightarrow> dns_msg \<Rightarrow> time \<Rightarrow> query_state \<Rightarrow> call_pc \<times> query_state" where
  "staleStep e q deadline s =
     (case GetStale (cache (proxy s)) (Some q) (started e) of
        Some staleResponse \<Rightarrow> (Replying (plain_verdict staleResponse cacheStaleUpstreamLabel True True), s)
      | None \<Rightarrow> (ReadingFallbacks deadline, s))"

definition askFallbackStep ::
  "query_env \<Rightarrow> dns_msg \<Rightarrow> time \<Rightarrow> string list \<Rightarrow> query_state \<Rightarrow> call_pc \<times> query_state" where
  "askFallbackStep e q deadline upstreams s =
     (case upstreams of
        [] \<Rightarrow> (Storing (SetRcode (lib e) q RcodeServerFailure) (EngineAddr (config (proxy s))), s)
      | upstream # rest \<Rightarrow>
          (case askUpstream e deadline (QueryTimeout (config (proxy s))) q upstream of
             Inr (Some response) \<Rightarrow> (Storing response fallbackUpstreamLabel, s)
           | Inr None \<Rightarrow> (AskingFallback deadline rest, s)
           | Inl _ \<Rightarrow> (AskingFallback deadline rest, s)))"

definition publishStep :: "query_env \<Rightarrow> dns_msg \<Rightarrow> verdict \<Rightarrow> query_state \<Rightarrow> call_pc \<times> query_state" where
  "publishStep e q v s =
     (case publishEvent (event_of e q v) (proxy s) of
        None \<Rightarrow> (Panicked, s)
      | Some p \<Rightarrow> (Answered, s\<lparr>proxy := p\<rparr>))"

fun call_step ::
  "query_env \<Rightarrow> dns_msg \<Rightarrow> disturbance \<Rightarrow> call_pc \<Rightarrow> query_state \<Rightarrow> call_pc \<times> query_state" where
  "call_step e q d ChargingGlobal s = chargeGlobalStep e q s"
| "call_step e q d FindingBucket s = findBucketStep e s"
| "call_step e q d (ChargingBucket ref) s = chargeBucketStep e q d ref s"
| "call_step e q d Filtering s = filterStep e q s"
| "call_step e q d Looking s = lookStep e q s"
| "call_step e q d (Borrowing deadline) s = borrowStep e deadline s"
| "call_step e q d (Dialling deadline) s = dialStep e deadline s"
| "call_step e q d (Exchanging deadline c) s = exchangeStep e q deadline c s"
| "call_step e q d (Releasing deadline c response) s = releaseStep e deadline c response s"
| "call_step e q d (TryingStale deadline) s = staleStep e q deadline s"
| "call_step e q d (ReadingFallbacks deadline) s = (AskingFallback deadline (fallbackUpstreams (proxy s)), s)"
| "call_step e q d (AskingFallback deadline upstreams) s = askFallbackStep e q deadline upstreams s"
| "call_step e q d (Storing m upstream) s = (Replying (plain_verdict m upstream True False), storeAnswer e q m s)"
| "call_step e q d (Replying v) s = (Publishing v, writeMsg (v_reply v) s)"
| "call_step e q d (Publishing v) s = publishStep e q v s"
| "call_step e q d Answered s = (Answered, s)"
| "call_step e q d Panicked s = (Panicked, s)"

text \<open>The handler alone, and among others: before each step it finds the proxy as others left it.\<close>

fun run_alone :: "nat \<Rightarrow> query_env \<Rightarrow> dns_msg \<Rightarrow> call_pc \<times> query_state \<Rightarrow> call_pc \<times> query_state" where
  "run_alone 0 e q c = c"
| "run_alone (Suc n) e q c = run_alone n e q (call_step e q undisturbed (fst c) (snd c))"

fun run_among ::
  "query_env \<Rightarrow> dns_msg \<Rightarrow> (Proxy \<times> disturbance) list \<Rightarrow> call_pc \<times> query_state \<Rightarrow> call_pc \<times> query_state" where
  "run_among e q [] c = c"
| "run_among e q ((p, d) # found) c =
     run_among e q found (call_step e q d (fst c) ((snd c)\<lparr>proxy := p\<rparr>))"

subsection \<open>Alone, the steps are the function\<close>

text \<open>Within \<open>n\<close> steps the handler has ended as \<open>so\<close> says: with a state, or in a panic.\<close>

definition ends_as :: "query_env \<Rightarrow> dns_msg \<Rightarrow> nat \<Rightarrow> call_pc \<times> query_state \<Rightarrow> query_state option \<Rightarrow> bool" where
  "ends_as e q n c so \<longleftrightarrow>
     (\<exists>k \<le> n. case run_alone k e q c of (pc, s') \<Rightarrow>
        pc = Answered \<and> so = Some s' \<or> pc = Panicked \<and> so = None)"

lemma ends_step:
  "ends_as e q n (call_step e q undisturbed pc s) so \<Longrightarrow> ends_as e q (Suc n) (pc, s) so"
  unfolding ends_as_def by (elim exE conjE) (rule_tac x = "Suc k" in exI, simp)

lemma ends_more: "ends_as e q n c so \<Longrightarrow> n \<le> m \<Longrightarrow> ends_as e q m c so"
  unfolding ends_as_def by (meson order_trans)

lemma panicked_ends: "ends_as e q n (Panicked, s) None"
  unfolding ends_as_def by (rule exI [of _ 0]) simp

lemma emit_event_of:
  "emitQueryEvent e (sourceIP (remote e)) q m u k h s =
     map_option (\<lambda>p. s\<lparr>proxy := p\<rparr>)
       (publishEvent (event_of e q \<lparr>v_reply = m, v_upstream = u, v_known = k, v_hit = h, v_denied = False\<rparr>)
          (proxy s))"
  "emitDeniedEvent e (sourceIP (remote e)) q m s =
     map_option (\<lambda>p. s\<lparr>proxy := p\<rparr>)
       (publishEvent (event_of e q \<lparr>v_reply = m, v_upstream = deniedUpstreamLabel, v_known = False,
          v_hit = False, v_denied = True\<rparr>) (proxy s))"
  by (simp_all add: emitQueryEvent_def emitDeniedEvent_def event_of_def)

lemma publishing_ends:
  "ends_as e q 1 (Publishing v, s)
     (map_option (\<lambda>p. s\<lparr>proxy := p\<rparr>) (publishEvent (event_of e q v) (proxy s)))"
  unfolding One_nat_def
  by (rule ends_step, simp add: publishStep_def split: option.split)
    (simp add: ends_as_def)

lemma replying_ends:
  "ends_as e q 2 (Replying (plain_verdict m u k h), s)
     (emitQueryEvent e (sourceIP (remote e)) q m u k h (writeMsg m s))"
  unfolding emit_event_of numeral_2_eq_2 plain_verdict_def
  by (rule ends_step) (use publishing_ends [of e q _ "writeMsg m s"] in simp)

lemma denying_ends:
  "ends_as e q 2 (Replying \<lparr>v_reply = m, v_upstream = deniedUpstreamLabel, v_known = False,
      v_hit = False, v_denied = True\<rparr>, s) (emitDeniedEvent e (sourceIP (remote e)) q m (writeMsg m s))"
  unfolding emit_event_of numeral_2_eq_2
  by (rule ends_step) (use publishing_ends [of e q _ "writeMsg m s"] in simp)

lemma storing_ends:
  "ends_as e q 3 (Storing m u, s)
     (emitQueryEvent e (sourceIP (remote e)) q m u True False (writeMsg m (storeAnswer e q m s)))"
  using ends_step [of e q 2 "Storing m u"] replying_ends by simp

lemma storeAnswer_config [simp]: "config (proxy (storeAnswer e q m s)) = config (proxy s)"
  by (simp add: storeAnswer_def)

lemma finishing_ends:
  "ends_as e q 3 (Storing m (EngineAddr (config (proxy s))), s)
     (finishQuery e (sourceIP (remote e)) q m s)"
  using storing_ends [of e q m "EngineAddr (config (proxy s))" s] by (simp add: finishQuery_def Let_def)

lemma asking_ends:
  "ends_as e q (4 + length us) (AskingFallback deadline us, s)
     (case firstAnswer (askUpstream e deadline (QueryTimeout (config (proxy s))) q) us of
        Some m \<Rightarrow> emitQueryEvent e (sourceIP (remote e)) q m fallbackUpstreamLabel True False
          (writeMsg m (storeAnswer e q m s))
      | None \<Rightarrow> finishQuery e (sourceIP (remote e)) q (SetRcode (lib e) q RcodeServerFailure) s)"
proof (induction us)
  case Nil
  show ?case
    using ends_step [of e q 3 "AskingFallback deadline []" s] finishing_ends
    by (simp add: askFallbackStep_def)
next
  case (Cons u us)
  note step = ends_step [of e q "4 + length us" "AskingFallback deadline (u # us)" s]
  show ?case
  proof (cases "askUpstream e deadline (QueryTimeout (config (proxy s))) q u")
    case (Inl err)
    with Cons.IH step show ?thesis by (simp add: askFallbackStep_def)
  next
    case (Inr ro)
    show ?thesis
    proof (cases ro)
      case None
      with Inr Cons.IH step show ?thesis by (simp add: askFallbackStep_def)
    next
      case (Some m)
      have "ends_as e q (4 + length us) (Storing m fallbackUpstreamLabel, s)
          (emitQueryEvent e (sourceIP (remote e)) q m fallbackUpstreamLabel True False
            (writeMsg m (storeAnswer e q m s)))"
        by (rule ends_more [OF storing_ends]) simp
      with Inr Some step show ?thesis by (simp add: askFallbackStep_def)
    qed
  qed
qed

abbreviation fallbacks :: "query_state \<Rightarrow> nat" where
  "fallbacks s \<equiv> length (fallbackUpstreams (proxy s))"

lemma recovering_ends:
  "ends_as e q (6 + fallbacks s) (TryingStale deadline, s)
     (recoverQuery e (sourceIP (remote e)) deadline q s)"
proof (cases "GetStale (cache (proxy s)) (Some q) (started e)")
  case (Some m)
  have "ends_as e q (5 + fallbacks s) (Replying (plain_verdict m cacheStaleUpstreamLabel True True), s)
      (recoverQuery e (sourceIP (remote e)) deadline q s)"
    unfolding recoverQuery_def Some option.case by (rule ends_more [OF replying_ends]) simp
  then show ?thesis
    using ends_step [of e q "5 + fallbacks s" "TryingStale deadline" s] by (simp add: staleStep_def Some)
next
  case None
  have "firstAnswer (askUpstream e deadline (QueryTimeout (config (proxy s))) q) (fallbackUpstreams (proxy s)) =
      tryFallbackUpstreams e deadline q (proxy s)"
    by (simp add: tryFallbackUpstreams_def Let_def)
  with asking_ends [of e q "fallbackUpstreams (proxy s)" deadline s]
  have "ends_as e q (4 + fallbacks s) (AskingFallback deadline (fallbackUpstreams (proxy s)), s)
      (recoverQuery e (sourceIP (remote e)) deadline q s)"
    by (simp add: recoverQuery_def None)
  then have "ends_as e q (5 + fallbacks s) (ReadingFallbacks deadline, s)
      (recoverQuery e (sourceIP (remote e)) deadline q s)"
    using ends_step [of e q "4 + fallbacks s" "ReadingFallbacks deadline" s] by simp
  then show ?thesis
    using ends_step [of e q "5 + fallbacks s" "TryingStale deadline" s] by (simp add: staleStep_def None)
qed

definition after_engine :: "query_env \<Rightarrow> dns_msg \<Rightarrow> time \<Rightarrow> exchange_result \<Rightarrow> query_state \<Rightarrow> query_state option" where
  "after_engine e q deadline x s =
     (let s1 = s\<lparr>proxy := (proxy s)\<lparr>conn_pool := pool_after x\<rparr>, hung_up := hung_up s @ closed_conns x\<rparr>
      in case reply x of
           Inr (Some m) \<Rightarrow> finishQuery e (sourceIP (remote e)) q m s1
         | Inr None \<Rightarrow> recoverQuery e (sourceIP (remote e)) deadline q s1
         | Inl _ \<Rightarrow> recoverQuery e (sourceIP (remote e)) deadline q s1)"

lemma after_engine_failed:
  assumes "conn_pool (proxy s) = po"
  shows "after_engine e q deadline \<lparr>reply = Inl m, pool_after = po, closed_conns = cs\<rparr> s =
    recoverQuery e (sourceIP (remote e)) deadline q (s\<lparr>hung_up := hung_up s @ cs\<rparr>)"
proof -
  have "(proxy s)\<lparr>conn_pool := po\<rparr> = proxy s" using assms by (cases "proxy s") simp
  then show ?thesis by (cases s) (simp add: after_engine_def)
qed

lemma askEngine_after:
  "askEngine e (sourceIP (remote e)) q s =
     after_engine e q (wall e + QueryTimeout (config (proxy s)))
       (Exchange (dial e) (exchangeWithConn e) (conn_pool (proxy s))
         (Some (wall e + QueryTimeout (config (proxy s)))) (wall e) (networkForRemoteAddr (remote e)) (Some q)) s"
  by (simp add: askEngine_def after_engine_def Let_def)

lemma releasing_ends:
  assumes "conn_pool (proxy s) = Some po" and "release po (engineNetwork e) (Some c) = (po', cs)"
  shows "ends_as e q (7 + fallbacks s) (Releasing deadline c ro, s)
    (after_engine e q deadline \<lparr>reply = Inr ro, pool_after = Some po', closed_conns = cs\<rparr> s)"
proof -
  let ?s1 = "s\<lparr>proxy := (proxy s)\<lparr>conn_pool := Some po'\<rparr>, hung_up := hung_up s @ cs\<rparr>"
  show ?thesis
  proof (cases ro)
    case None
    have "ends_as e q (6 + fallbacks s) (TryingStale deadline, ?s1)
        (recoverQuery e (sourceIP (remote e)) deadline q ?s1)"
      using recovering_ends [of e q ?s1 deadline] by simp
    with assms None show ?thesis
      using ends_step [of e q "6 + fallbacks s" "Releasing deadline c ro" s]
      by (simp add: releaseStep_def after_engine_def)
  next
    case (Some m)
    have "ends_as e q (6 + fallbacks s) (Storing m (EngineAddr (config (proxy ?s1))), ?s1)
        (finishQuery e (sourceIP (remote e)) q m ?s1)"
      by (rule ends_more [OF finishing_ends]) simp
    with assms Some show ?thesis
      using ends_step [of e q "6 + fallbacks s" "Releasing deadline c ro" s]
      by (simp add: releaseStep_def after_engine_def)
  qed
qed

lemma exchanging_ends:
  assumes "conn_pool (proxy s) = Some po"
  shows "ends_as e q (8 + fallbacks s) (Exchanging deadline c, s)
    (after_engine e q deadline
       (exchangeOn (exchangeWithConn e) po (Some deadline) now (engineNetwork e) q c) s)"
proof (cases "exchangeWithConn e (engineNetwork e) (pool_timeout po) deadline q c")
  case (Inl err)
  have "ends_as e q (7 + fallbacks s) (TryingStale deadline, s\<lparr>hung_up := hung_up s @ [c]\<rparr>)
      (recoverQuery e (sourceIP (remote e)) deadline q (s\<lparr>hung_up := hung_up s @ [c]\<rparr>))"
    using ends_more [OF recovering_ends [of e q "s\<lparr>hung_up := hung_up s @ [c]\<rparr>" deadline]] by simp
  with assms Inl show ?thesis
    using ends_step [of e q "7 + fallbacks s" "Exchanging deadline c" s]
    by (simp add: exchangeStep_def after_engine_failed exchangeOn_def)
next
  case (Inr ro)
  obtain po' cs where r: "release po (engineNetwork e) (Some c) = (po', cs)" by (cases "release po (engineNetwork e) (Some c)")
  from ends_step [of e q "7 + fallbacks s" "Exchanging deadline c" s] releasing_ends [OF assms r] assms Inr r
  show ?thesis by (simp add: exchangeStep_def exchangeOn_def)
qed

lemma after_engine_pool:
  "after_engine e q deadline x (s\<lparr>proxy := (proxy s)\<lparr>conn_pool := po\<rparr>\<rparr>) = after_engine e q deadline x s"
  by (simp add: after_engine_def)

lemma borrowing_ends:
  "ends_as e q (10 + fallbacks s) (Borrowing deadline, s)
     (after_engine e q deadline
        (Exchange (dial e) (exchangeWithConn e) (conn_pool (proxy s)) (Some deadline) (wall e)
          (networkForRemoteAddr (remote e)) (Some q)) s)"
proof (cases "conn_pool (proxy s)")
  case None
  with ends_step [of e q "9 + fallbacks s" "Borrowing deadline" s]
    ends_more [OF recovering_ends [of e q s deadline], of "9 + fallbacks s"]
  show ?thesis by (simp add: borrowStep_def Exchange_def after_engine_failed)
next
  case (Some po)
  obtain b po' where b: "borrow po (engineNetwork e) = (b, po')" by (cases "borrow po (engineNetwork e)")
  let ?s1 = "s\<lparr>proxy := (proxy s)\<lparr>conn_pool := Some po'\<rparr>\<rparr>"
  have po': "conn_pool (proxy ?s1) = Some po'" by simp
  have step: "ends_as e q (10 + fallbacks s) (Borrowing deadline, s) so"
    if "ends_as e q (9 + fallbacks s) (call_step e q undisturbed (Borrowing deadline) s) so" for so
    using ends_step [OF that] by simp
  have x: "ends_as e q (8 + fallbacks s) (Exchanging deadline c, ?s1)
      (after_engine e q deadline (exchangeOn (exchangeWithConn e) po' (Some deadline) (wall e) (engineNetwork e) q c) s)" for c
    using exchanging_ends [OF po', of e q deadline c "wall e"] by (simp add: after_engine_pool)
  have err: "ends_as e q (8 + fallbacks s) (TryingStale deadline, ?s1)
      (after_engine e q deadline \<lparr>reply = Inl m, pool_after = Some po', closed_conns = []\<rparr> s)" for m
    using ends_more [OF recovering_ends [of e q ?s1 deadline], of "8 + fallbacks s"]
    by (simp add: after_engine_def)
  note net = engineNetwork_def [symmetric]
  show ?thesis
  proof (cases b)
    case PoolClosed
    with b Some ends_more [OF err, of "9 + fallbacks s"] show ?thesis
      by (intro step) (simp add: borrowStep_def Exchange_def Let_def net)
  next
    case (Pooled c)
    with b Some ends_more [OF x, of "9 + fallbacks s" c] show ?thesis
      by (intro step) (simp add: borrowStep_def Exchange_def Let_def net)
  next
    case MustDial
    have dialled: "ends_as e q (9 + fallbacks s) (Dialling deadline, ?s1) so"
      if "ends_as e q (8 + fallbacks s) (call_step e q undisturbed (Dialling deadline) ?s1) so" for so
      using ends_step [OF that] by simp
    show ?thesis
    proof (cases "dial e (engineNetwork e) (pool_addr po') (pool_timeout po')")
      case (Inl m)
      with MustDial b Some err [of m] dialled show ?thesis
        by (intro step) (simp add: borrowStep_def Exchange_def Let_def net dialStep_def)
    next
      case (Inr c)
      with MustDial b Some x [of c] dialled show ?thesis
        by (intro step) (simp add: borrowStep_def Exchange_def Let_def net dialStep_def)
    qed
  qed
qed

lemma looking_ends:
  "ends_as e q (12 + fallbacks s) (Filtering, s) (resolveQuery e (sourceIP (remote e)) q s)"
proof -
  let ?denied = "domain_filter (proxy s) \<noteq> None \<and>
    \<not> Allowed (domain_filter (proxy s)) (normalizeDomain (Some q))"
  have deny: "ends_as e q (11 + fallbacks s) (call_step e q undisturbed Filtering s)
      (resolveQuery e (sourceIP (remote e)) q s)" if ?denied
    using ends_more [OF denying_ends, of "11 + fallbacks s"] that
    by (simp add: filterStep_def resolveQuery_def Let_def)
  have look: "ends_as e q (11 + fallbacks s) (Looking, s)
      (case Get (cache (proxy s)) (Some q) (started e) of
         Some m \<Rightarrow> emitQueryEvent e (sourceIP (remote e)) q m cacheHitUpstreamLabel True True (writeMsg m s)
       | None \<Rightarrow> askEngine e (sourceIP (remote e)) q s)"
    unfolding askEngine_after
    using ends_step [of e q "10 + fallbacks s" Looking s] borrowing_ends [of e q s]
      ends_more [OF replying_ends, of "10 + fallbacks s"]
    by (auto simp: lookStep_def split: option.splits)
  have "ends_as e q (11 + fallbacks s) (call_step e q undisturbed Filtering s)
      (resolveQuery e (sourceIP (remote e)) q s)"
    using deny look by (cases ?denied) (auto simp: filterStep_def resolveQuery_def Let_def)
  then show ?thesis using ends_step [of e q "11 + fallbacks s" Filtering s] by simp
qed

definition after_limiter :: "query_env \<Rightarrow> dns_msg \<Rightarrow> (bool \<times> requestLimiter) option \<Rightarrow> query_state \<Rightarrow> query_state option" where
  "after_limiter e q lo s =
     (case lo of
        None \<Rightarrow> None
      | Some (ok, r') \<Rightarrow>
          (let s1 = s\<lparr>proxy := (proxy s)\<lparr>request_limiter := Some r'\<rparr>\<rparr>
           in if \<not> ok then
                emitQueryEvent e (sourceIP (remote e)) q (SetRcode (lib e) q RcodeRefused)
                  rateLimitOverflowUpstream False False (writeMsg (SetRcode (lib e) q RcodeRefused) s1)
              else resolveQuery e (sourceIP (remote e)) q s1))"

lemma handleQuery_limiter:
  "handleQuery e q s =
     (case request_limiter (proxy s) of
        None \<Rightarrow> resolveQuery e (sourceIP (remote e)) q s
      | Some r \<Rightarrow> after_limiter e q (limiterAllow r (sourceIP (remote e)) (started e)) s)"
  unfolding handleQuery_def after_limiter_def Let_def by (rule refl)

lemma after_limiter_again:
  "after_limiter e q lo (s\<lparr>proxy := (proxy s)\<lparr>request_limiter := ro\<rparr>\<rparr>) = after_limiter e q lo s"
  by (cases lo) (auto simp: after_limiter_def Let_def)

lemma after_limiter_same:
  assumes "request_limiter (proxy s) = Some r"
  shows "after_limiter e q (Some (True, r)) s = resolveQuery e (sourceIP (remote e)) q s"
proof -
  have "(proxy s)\<lparr>request_limiter := Some r\<rparr> = proxy s" using assms by (cases "proxy s") simp
  then show ?thesis by (cases s) (simp add: after_limiter_def)
qed

lemma refusing_ends:
  "ends_as e q 2 (Replying (refusal e q), s\<lparr>proxy := (proxy s)\<lparr>request_limiter := Some r\<rparr>\<rparr>)
     (after_limiter e q (Some (False, r)) s)"
  using replying_ends [of e q "SetRcode (lib e) q RcodeRefused" rateLimitOverflowUpstream False False
      "s\<lparr>proxy := (proxy s)\<lparr>request_limiter := Some r\<rparr>\<rparr>"]
  by (simp add: after_limiter_def refusal_def Let_def)

lemma passing_ends:
  "ends_as e q (12 + fallbacks s) (Filtering, s\<lparr>proxy := (proxy s)\<lparr>request_limiter := Some r\<rparr>\<rparr>)
     (after_limiter e q (Some (True, r)) s)"
  using looking_ends [of e q "s\<lparr>proxy := (proxy s)\<lparr>request_limiter := Some r\<rparr>\<rparr>"]
  by (simp add: after_limiter_def Let_def)

lemma charging_ends:
  assumes "request_limiter (proxy s) = Some r" and "in_table r ref"
  shows "ends_as e q (13 + fallbacks s) (ChargingBucket ref, s)
    (after_limiter e q (chargeBucket r ref (started e)) s)"
proof -
  note step = ends_step [of e q "12 + fallbacks s" "ChargingBucket ref" s]
  show ?thesis
  proof (cases "chargeBucket r ref (started e)")
    case None
    with assms step panicked_ends show ?thesis
      by (simp add: chargeBucketStep_def chargeHeld_def undisturbed_def after_limiter_def)
  next
    case (Some a)
    obtain ok r' where a: "a = (ok, r')" by (cases a)
    with Some assms step ends_more [OF refusing_ends, of "12 + fallbacks s"] passing_ends [of e q s r']
    show ?thesis
      by (cases ok) (simp_all add: chargeBucketStep_def chargeHeld_def undisturbed_def)
  qed
qed

lemma lookup_in_table: "lookupPerSourceBucket r m source now = (ref, r') \<Longrightarrow> in_table r' ref"
  by (auto simp: lookupPerSourceBucket_def in_table_def Let_def go_map_simps split: option.splits if_splits)

lemma finding_ends:
  assumes "request_limiter (proxy s) = Some r"
  shows "ends_as e q (14 + fallbacks s) (FindingBucket, s)
    (after_limiter e q (perSourceAllow r (sourceIP (remote e)) (started e)) s)"
proof -
  note step = ends_step [of e q "13 + fallbacks s" FindingBucket s]
  show ?thesis
  proof (cases "perSource r")
    case None
    with assms step ends_more [OF looking_ends, of s "13 + fallbacks s" e q] show ?thesis
      by (simp add: findBucketStep_def perSourceAllow_def after_limiter_same)
  next
    case (Some m)
    obtain ref r' where l: "lookupPerSourceBucket r m (sourceIP (remote e)) (started e) = (ref, r')"
      by (cases "lookupPerSourceBucket r m (sourceIP (remote e)) (started e)")
    let ?s1 = "s\<lparr>proxy := (proxy s)\<lparr>request_limiter := Some r'\<rparr>\<rparr>"
    have "ends_as e q (13 + fallbacks s) (ChargingBucket ref, ?s1)
        (after_limiter e q (chargeBucket r' ref (started e)) s)"
      using charging_ends [of ?s1 r' ref e q] lookup_in_table [OF l] by (simp add: after_limiter_again)
    with Some assms l step show ?thesis by (simp add: findBucketStep_def perSourceAllow_def)
  qed
qed

lemma handling_ends:
  "ends_as e q (15 + fallbacks s) (ChargingGlobal, s) (handleQuery e q s)"
proof -
  note step = ends_step [of e q "14 + fallbacks s" ChargingGlobal s]
  show ?thesis
  proof (cases "request_limiter (proxy s)")
    case None
    with step ends_more [OF looking_ends, of s "14 + fallbacks s" e q] show ?thesis
      by (simp add: chargeGlobalStep_def handleQuery_limiter)
  next
    case (Some r)
    show ?thesis
    proof (cases "globalBucket r")
      case None
      with Some step finding_ends [OF Some, of e q] show ?thesis
        by (simp add: chargeGlobalStep_def handleQuery_limiter limiterAllow_def)
    next
      case g: (Some g)
      obtain ok g' where b: "bucketAllow g (started e) = (ok, g')" by (cases "bucketAllow g (started e)")
      let ?r1 = "r\<lparr>globalBucket := Some g'\<rparr>"
      let ?s1 = "s\<lparr>proxy := (proxy s)\<lparr>request_limiter := Some ?r1\<rparr>\<rparr>"
      have "ends_as e q (14 + fallbacks s) (FindingBucket, ?s1)
          (after_limiter e q (perSourceAllow ?r1 (sourceIP (remote e)) (started e)) s)"
        using finding_ends [of ?s1 ?r1 e q] by (simp add: after_limiter_again)
      moreover have "ends_as e q (14 + fallbacks s) (Replying (refusal e q), ?s1)
          (after_limiter e q (Some (False, ?r1)) s)"
        by (rule ends_more [OF refusing_ends]) simp
      ultimately show ?thesis using Some g b step
        by (cases ok) (simp_all add: chargeGlobalStep_def handleQuery_limiter limiterAllow_def Let_def)
    qed
  qed
qed

text \<open>
  C15.  Undisturbed, the handler's steps are the function \<open>handleQuery\<close>: within fifteen steps and one
  more for every fallback server it ends, in the state the function returns, or in a panic
  exactly where the function has no result.
\<close>

theorem undisturbed_query:
  "\<exists>k \<le> 15 + length (fallbackUpstreams (proxy s)).
     case run_alone k e q (ChargingGlobal, s) of (pc, s') \<Rightarrow>
       pc = Answered \<and> handleQuery e q s = Some s' \<or> pc = Panicked \<and> handleQuery e q s = None"
  using handling_ends [of e q s] by (simp add: ends_as_def)

subsection \<open>What a step may do to the shared state\<close>

text \<open>The limiter keeps buckets per source; it is made so and stays so.\<close>

definition limits_sources :: "Proxy \<Rightarrow> bool" where
  "limits_sources p \<longleftrightarrow> (\<exists>r. request_limiter p = Some r \<and> perSource r \<noteq> None)"

definition same_frame :: "Proxy \<Rightarrow> Proxy \<Rightarrow> bool" where
  "same_frame p p' \<longleftrightarrow>
     config p' = config p \<and> domain_filter p' = domain_filter p \<and> filterRcode p' = filterRcode p \<and>
     fallbackUpstreams p' = fallbackUpstreams p \<and> limits_sources p' = limits_sources p \<and>
     capacity (events p') = capacity (events p) \<and>
     udp_server p' = udp_server p \<and> tcp_server p' = tcp_server p \<and> stopped p' = stopped p"

definition keeps :: "query_state \<Rightarrow> query_state \<Rightarrow> bool" where
  "keeps s s' \<longleftrightarrow> proxy_ok (proxy s') \<and> same_frame (proxy s) (proxy s')"

definition same_events :: "Proxy \<Rightarrow> Proxy \<Rightarrow> bool" where
  "same_events p p' \<longleftrightarrow>
     events p' = events p \<and> dropped p' = dropped p \<and> drop_callbacks p' = drop_callbacks p"

text \<open>A handler in good order: not panicked, and charging a bucket only if there are buckets.\<close>

definition pc_ok :: "bool \<Rightarrow> call_pc \<Rightarrow> bool" where
  "pc_ok per_source pc \<longleftrightarrow>
     (case pc of Panicked \<Rightarrow> False | ChargingBucket ref \<Rightarrow> per_source | _ \<Rightarrow> True)"

definition step_ok :: "query_env \<Rightarrow> dns_msg \<Rightarrow> call_pc \<Rightarrow> query_state \<Rightarrow> call_pc \<times> query_state \<Rightarrow> bool" where
  "step_ok e q pc s c \<longleftrightarrow>
     pc_ok (limits_sources (proxy s)) (fst c) \<and> keeps s (snd c) \<and>
     (case pc of
        Publishing v \<Rightarrow> event_recorded (event_of e q v) (proxy s) (proxy (snd c))
      | _ \<Rightarrow> same_events (proxy s) (proxy (snd c)))"

lemma keeps_refl: "proxy_ok (proxy s) \<Longrightarrow> keeps s s"
  by (simp add: keeps_def same_frame_def)

lemma keeps_limiter:
  assumes "proxy_ok (proxy s)" and "request_limiter (proxy s) = Some r" and "limiter_ok r'"
    and "perSource r' = None \<longleftrightarrow> perSource r = None"
  shows "keeps s (s\<lparr>proxy := (proxy s)\<lparr>request_limiter := Some r'\<rparr>\<rparr>)"
  using assms by (auto simp: keeps_def same_frame_def limits_sources_def intro: proxy_ok_parts)

lemma keeps_pool:
  assumes "proxy_ok (proxy s)" and "pool_ok po'"
  shows "keeps s (s\<lparr>proxy := (proxy s)\<lparr>conn_pool := Some po'\<rparr>, hung_up := h\<rparr>)"
    "keeps s (s\<lparr>proxy := (proxy s)\<lparr>conn_pool := Some po'\<rparr>\<rparr>)"
  using assms by (auto simp: keeps_def same_frame_def limits_sources_def intro: proxy_ok_parts)

lemma keeps_store: "proxy_ok (proxy s) \<Longrightarrow> keeps s (storeAnswer e q m s)"
  using storeAnswer_ok [of s e q m]
  by (simp add: keeps_def same_frame_def limits_sources_def storeAnswer_def)

lemma keeps_wire:
  "proxy_ok (proxy s) \<Longrightarrow> keeps s (writeMsg m s)" "proxy_ok (proxy s) \<Longrightarrow> keeps s (s\<lparr>hung_up := h\<rparr>)"
  by (simp_all add: keeps_def same_frame_def)

lemma proxy_ok_pool: "proxy_ok p \<Longrightarrow> conn_pool p = Some po \<Longrightarrow> pool_ok po"
  by (simp add: proxy_ok_def)

lemma proxy_ok_limiter: "proxy_ok p \<Longrightarrow> request_limiter p = Some r \<Longrightarrow> limiter_ok r"
  by (simp add: proxy_ok_def)

lemma release_ok: "pool_ok p \<Longrightarrow> release p n co = (p', cs) \<Longrightarrow> pool_ok p'"
  using engine_pool.give_ok [of p n _ p' cs] by (cases co) (auto simp: release_def)

lemma chargeGlobalStep_ok:
  assumes "proxy_ok (proxy s)"
  shows "step_ok e q ChargingGlobal s (chargeGlobalStep e q s)"
proof (cases "request_limiter (proxy s)")
  case None
  then show ?thesis
    by (simp add: chargeGlobalStep_def step_ok_def pc_ok_def same_events_def keeps_refl [OF assms])
next
  case (Some r)
  show ?thesis
  proof (cases "globalBucket r")
    case None
    with Some show ?thesis
      by (simp add: chargeGlobalStep_def step_ok_def pc_ok_def same_events_def keeps_refl [OF assms])
  next
    case g: (Some g)
    obtain ok g' where b: "bucketAllow g (started e) = (ok, g')" by (cases "bucketAllow g (started e)")
    have r: "limiter_ok r" by (rule proxy_ok_limiter [OF assms Some])
    then have "bucket_ok g'" using g bucketAllow_ok [OF _ b] by (simp add: limiter_ok_def)
    with r have "limiter_ok (r\<lparr>globalBucket := Some g'\<rparr>)" by (rule limiter_ok_global)
    from keeps_limiter [OF assms Some this] Some g b show ?thesis
      by (simp add: chargeGlobalStep_def step_ok_def pc_ok_def same_events_def)
  qed
qed

lemma findBucketStep_ok:
  assumes "proxy_ok (proxy s)"
  shows "step_ok e q FindingBucket s (findBucketStep e s)"
proof (cases "request_limiter (proxy s)")
  case None
  then show ?thesis
    by (simp add: findBucketStep_def step_ok_def pc_ok_def same_events_def keeps_refl [OF assms])
next
  case (Some r)
  show ?thesis
  proof (cases "perSource r")
    case None
    with Some show ?thesis
      by (simp add: findBucketStep_def step_ok_def pc_ok_def same_events_def keeps_refl [OF assms])
  next
    case m: (Some m)
    obtain ref r' where l: "lookupPerSourceBucket r m (sourceIP (remote e)) (started e) = (ref, r')"
      by (cases "lookupPerSourceBucket r m (sourceIP (remote e)) (started e)")
    have r: "limiter_ok r" by (rule proxy_ok_limiter [OF assms Some])
    then have "sources_ok r m" using m by (simp add: limiter_ok_def)
    from lookupPerSourceBucket_spec [OF this l] obtain m' where
      "perSource r' = Some m'" "sources_ok r m'" "same_policy r r'"
      "globalBucket r' = globalBucket r" "overflow r' = overflow r"
      by auto
    with r m have "limiter_ok r'" and per: "perSource r' \<noteq> None"
      by (auto simp: limiter_ok_def sources_ok_policy)
    from keeps_limiter [OF assms Some this(1)] Some m l per show ?thesis
      by (simp add: findBucketStep_def step_ok_def pc_ok_def same_events_def limits_sources_def)
  qed
qed

lemma chargeHeld_ok:
  assumes "limiter_ok r" and "perSource r \<noteq> None"
  shows "\<exists>ok r'. chargeHeld r ref now d = Some (ok, r') \<and> limiter_ok r' \<and> perSource r' \<noteq> None"
proof (cases "in_table r ref \<and> \<not> (ref \<noteq> Overflow \<and> orphaned d)")
  case False
  then show ?thesis using assms unfolding chargeHeld_def by auto
next
  case True
  from assms obtain m v where r: "perSource r = Some m" "sources_ok r m" "overflow r = Some v" "bucket_ok v"
    by (auto simp: limiter_ok_def)
  define key where "key = (case ref of Source k \<Rightarrow> k | Overflow \<Rightarrow> '''')"
  have "ref = Overflow \<or> ref = Source key \<and> map_get m key \<noteq> None"
    using True r(1) by (auto simp: in_table_def key_def split: bucket_ref.splits)
  from chargeBucket_spec [OF r this, of now] obtain a r' m' v' where
    c: "chargeBucket r ref now = Some (a, r')" "perSource r' = Some m'" "sources_ok r m'"
      "same_policy r r'" "globalBucket r' = globalBucket r" "overflow r' = Some v'" "bucket_ok v'"
    by auto
  with assms(1) have "limiter_ok r'" by (auto simp: limiter_ok_def sources_ok_policy)
  with c True show ?thesis by (auto simp: chargeHeld_def)
qed

lemma chargeBucketStep_ok:
  assumes "proxy_ok (proxy s)" and "limits_sources (proxy s)"
  shows "step_ok e q (ChargingBucket ref) s (chargeBucketStep e q d ref s)"
proof -
  from assms(2) obtain r where r: "request_limiter (proxy s) = Some r" "perSource r \<noteq> None"
    by (auto simp: limits_sources_def)
  from chargeHeld_ok [OF proxy_ok_limiter [OF assms(1) r(1)] r(2), of ref "started e" d] obtain ok r' where
    c: "chargeHeld r ref (started e) d = Some (ok, r')" "limiter_ok r'" "perSource r' \<noteq> None"
    by blast
  from keeps_limiter [OF assms(1) r(1) c(2)] r c show ?thesis
    by (simp add: chargeBucketStep_def step_ok_def pc_ok_def same_events_def)
qed

lemma borrowStep_ok:
  assumes "proxy_ok (proxy s)"
  shows "step_ok e q (Borrowing deadline) s (borrowStep e deadline s)"
proof (cases "conn_pool (proxy s)")
  case None
  then show ?thesis
    by (simp add: borrowStep_def step_ok_def pc_ok_def same_events_def keeps_refl [OF assms])
next
  case (Some po)
  obtain b po' where b: "borrow po (engineNetwork e) = (b, po')" by (cases "borrow po (engineNetwork e)")
  have "pool_ok po'" using borrow_ok [OF proxy_ok_pool [OF assms Some] b] .
  from keeps_pool(2) [OF assms this] Some b show ?thesis
    by (simp add: borrowStep_def step_ok_def pc_ok_def same_events_def split: borrowed.split)
qed

lemma releaseStep_ok:
  assumes "proxy_ok (proxy s)"
  shows "step_ok e q (Releasing deadline c ro) s (releaseStep e deadline c ro s)"
proof (cases "conn_pool (proxy s)")
  case None
  then show ?thesis
    by (simp add: releaseStep_def step_ok_def pc_ok_def same_events_def keeps_refl [OF assms])
next
  case (Some po)
  obtain po' cs where b: "release po (engineNetwork e) (Some c) = (po', cs)"
    by (cases "release po (engineNetwork e) (Some c)")
  have "pool_ok po'" using release_ok [OF proxy_ok_pool [OF assms Some] b] .
  from keeps_pool(1) [OF assms this] Some b show ?thesis
    by (simp add: releaseStep_def step_ok_def pc_ok_def same_events_def split: option.split)
qed

lemma publishStep_ok:
  assumes "proxy_ok (proxy s)"
  shows "step_ok e q (Publishing v) s (publishStep e q v s)"
proof -
  from publishEvent_ok [OF assms, of "event_of e q v"] obtain p' where
    p': "publishEvent (event_of e q v) (proxy s) = Some p'" "event_recorded (event_of e q v) (proxy s) p'"
      "same_but_events (proxy s) p'" "proxy_ok p'"
    by blast
  moreover have "capacity (events p') = capacity (events (proxy s))"
    using p'(1) by (auto simp: publishEvent_def trySend_def Let_def split: if_splits)
  ultimately show ?thesis
    by (simp add: publishStep_def step_ok_def pc_ok_def keeps_def same_frame_def same_but_events_def
        limits_sources_def)
qed

lemmas quiet_steps = filterStep_def lookStep_def dialStep_def exchangeStep_def staleStep_def askFallbackStep_def

lemma call_step_ok:
  assumes "proxy_ok (proxy s)" and "pc_ok (limits_sources (proxy s)) pc"
  shows "step_ok e q pc s (call_step e q d pc s)"
proof -
  note quiet = step_ok_def pc_ok_def same_events_def keeps_refl [OF assms(1)] keeps_wire [OF assms(1)]
  show ?thesis
  proof (cases pc)
    case ChargingGlobal
    then show ?thesis using chargeGlobalStep_ok [OF assms(1)] by simp
  next
    case FindingBucket
    then show ?thesis using findBucketStep_ok [OF assms(1)] by simp
  next
    case (ChargingBucket ref)
    then show ?thesis using chargeBucketStep_ok [OF assms(1)] assms(2) by (simp add: pc_ok_def)
  next
    case (Borrowing deadline)
    then show ?thesis using borrowStep_ok [OF assms(1)] by simp
  next
    case (Releasing deadline c ro)
    then show ?thesis using releaseStep_ok [OF assms(1)] by simp
  next
    case (Publishing v)
    then show ?thesis using publishStep_ok [OF assms(1)] by simp
  next
    case (Storing m u)
    then show ?thesis using keeps_store [OF assms(1)] by (simp add: step_ok_def pc_ok_def same_events_def storeAnswer_def)
  next
    case Panicked
    with assms(2) show ?thesis by (simp add: pc_ok_def)
  qed (simp_all add: quiet quiet_steps Let_def split: option.split sum.split list.split)
qed

subsection \<open>The handler ends\<close>

text \<open>How many steps are left, when the list of fallback servers is never longer than \<open>n\<close>.\<close>

fun work :: "nat \<Rightarrow> call_pc \<Rightarrow> nat" where
  "work n ChargingGlobal = 15 + n"
| "work n FindingBucket = 14 + n"
| "work n (ChargingBucket _) = 13 + n"
| "work n Filtering = 12 + n"
| "work n Looking = 11 + n"
| "work n (Borrowing _) = 10 + n"
| "work n (Dialling _) = 9 + n"
| "work n (Exchanging _ _) = 8 + n"
| "work n (Releasing _ _ _) = 7 + n"
| "work n (TryingStale _) = 6 + n"
| "work n (ReadingFallbacks _) = 5 + n"
| "work n (AskingFallback _ us) = 4 + length us"
| "work n (Storing _ _) = 3"
| "work n (Replying _) = 2"
| "work n (Publishing _) = 1"
| "work n Answered = 0"
| "work n Panicked = 0"

lemmas limiter_steps = chargeGlobalStep_def findBucketStep_def chargeBucketStep_def
lemmas pool_steps = borrowStep_def releaseStep_def

lemma work_decreases:
  "length (fallbackUpstreams (proxy s)) \<le> n \<Longrightarrow> pc \<noteq> Answered \<Longrightarrow> pc \<noteq> Panicked \<Longrightarrow>
     work n (fst (call_step e q d pc s)) < work n pc"
  by (cases pc)
    (auto simp: limiter_steps pool_steps quiet_steps publishStep_def Let_def
      split: option.split prod.split sum.split list.split borrowed.split)

text \<open>What the handler has written to the client.\<close>

definition has_replied :: "call_pc \<Rightarrow> bool" where
  "has_replied pc \<longleftrightarrow> (case pc of Publishing _ \<Rightarrow> True | Answered \<Rightarrow> True | _ \<Rightarrow> False)"

lemma call_step_wire:
  "wire (snd (call_step e q d pc s)) = wire s @ (case pc of Replying v \<Rightarrow> [v_reply v] | _ \<Rightarrow> [])"
  by (cases pc)
    (auto simp: limiter_steps pool_steps quiet_steps publishStep_def writeMsg_def storeAnswer_def Let_def
      split: option.split prod.split sum.split list.split)

lemma call_step_replied:
  "pc_ok b (fst (call_step e q d pc s)) \<Longrightarrow>
     has_replied (fst (call_step e q d pc s)) \<longleftrightarrow> has_replied pc \<or> (\<exists>v. pc = Replying v)"
  by (cases pc)
    (auto simp: has_replied_def pc_ok_def limiter_steps pool_steps quiet_steps publishStep_def Let_def
      split: option.splits prod.splits sum.splits list.splits borrowed.splits if_splits)

definition one_reply :: "dns_msg list \<Rightarrow> call_pc \<Rightarrow> dns_msg list \<Rightarrow> bool" where
  "one_reply before pc sent \<longleftrightarrow> (if has_replied pc then \<exists>m. sent = before @ [m] else sent = before)"

lemma call_step_one_reply:
  assumes "one_reply before pc (wire s)" and "pc_ok b (fst (call_step e q d pc s))"
  shows "one_reply before (fst (call_step e q d pc s)) (wire (snd (call_step e q d pc s)))"
  using assms call_step_replied [OF assms(2)] call_step_wire [of e q d pc s]
  by (auto simp: one_reply_def has_replied_def split: call_pc.splits)

text \<open>The proxies a handler may find: in good order, of the same kind, with few fallback servers.\<close>

definition found_ok :: "bool \<Rightarrow> nat \<Rightarrow> (Proxy \<times> disturbance) list \<Rightarrow> bool" where
  "found_ok per_source n found \<longleftrightarrow>
     (\<forall>p \<in> fst ` set found. proxy_ok p \<and> limits_sources p = per_source \<and> length (fallbackUpstreams p) \<le> n)"

lemma run_among_ends:
  assumes "found_ok b n found" and "pc_ok b pc" and "one_reply before pc (wire s)"
    and "work n pc \<le> length found"
  shows "\<exists>s' m. run_among e q found (pc, s) = (Answered, s') \<and> wire s' = before @ [m]"
  using assms
proof (induction found arbitrary: pc s)
  case Nil
  then have "pc = Answered" by (cases pc) (auto simp: pc_ok_def)
  with Nil show ?case by (simp add: one_reply_def has_replied_def)
next
  case (Cons f found)
  obtain p d where f: "f = (p, d)" by (cases f)
  let ?s = "s\<lparr>proxy := p\<rparr>"
  let ?c = "call_step e q d pc ?s"
  from Cons.prems(1) f have p: "proxy_ok (proxy ?s)" "limits_sources (proxy ?s) = b"
      "length (fallbackUpstreams (proxy ?s)) \<le> n" and rest: "found_ok b n found"
    by (simp_all add: found_ok_def)
  have ok: "pc_ok b (fst ?c)"
    using call_step_ok [OF p(1), of pc e q d] Cons.prems(2) p(2) by (simp add: step_ok_def)
  have one: "one_reply before (fst ?c) (wire (snd ?c))"
    by (rule call_step_one_reply [OF _ ok]) (use Cons.prems(3) in simp)
  have "work n (fst ?c) \<le> length found"
  proof (cases "pc = Answered")
    case True
    then show ?thesis by simp
  next
    case False
    moreover have "pc \<noteq> Panicked" using Cons.prems(2) by (auto simp: pc_ok_def)
    ultimately show ?thesis using work_decreases [OF p(3), of pc e q d] Cons.prems(4) by simp
  qed
  from Cons.IH [OF rest ok one this] f show ?case by simp
qed

text \<open>
  C8.  A query ends whatever happens around it: let other queries, updates of the filter and of the
  fallback servers, and cleanups of the limiter change the proxy between any two steps of the
  handler (\<open>found\<close> is what each step finds), then after fifteen steps of its own and one more for
  every fallback server it has ended without a panic, and it has written exactly one reply.
\<close>

theorem query_terminates:
  assumes "found_ok per_source n found" and "15 + n \<le> length found"
  shows "\<exists>s' m. run_among e q found (ChargingGlobal, s) = (Answered, s') \<and> wire s' = wire s @ [m]"
  by (rule run_among_ends [OF assms(1)])
    (use assms(2) in \<open>simp_all add: pc_ok_def one_reply_def has_replied_def\<close>)

lemma query_terminates_witness:
  "\<exists>s' m. run_among (sample_env 0 (Inl ''timeout'')) (sample_msg 0)
     (replicate 8 (sample_proxy, undisturbed) @
      replicate 8 (UpdateFallbackUpstreams sample_proxy [''9.9.9.9:53''], undisturbed))
     (ChargingGlobal, sample_state) = (Answered, s') \<and> wire s' = [m]"
proof -
  let ?found = "replicate 8 (sample_proxy, undisturbed) @
      replicate 8 (UpdateFallbackUpstreams sample_proxy [''9.9.9.9:53''], undisturbed)"
  have "proxy_ok sample_proxy" using sample_proxy_ok by (simp add: sample_state_def)
  then have "found_ok (limits_sources sample_proxy) 1 ?found"
    using update_ok(2) [of sample_proxy "[''9.9.9.9:53'']"]
    by (auto simp: found_ok_def UpdateFallbackUpstreams_def limits_sources_def sample_proxy_def)
  from query_terminates [OF this, of "sample_env 0 (Inl ''timeout'')" "sample_msg 0" sample_state]
  show ?thesis by (simp add: sample_state_def)
qed

subsection \<open>The filter holds\<close>

text \<open>The handler has not passed the filter: it is before it, or has one of the replies \<open>R\<close>.\<close>

fun not_passed :: "dns_msg set \<Rightarrow> call_pc \<Rightarrow> bool" where
  "not_passed R ChargingGlobal = True"
| "not_passed R FindingBucket = True"
| "not_passed R (ChargingBucket _) = True"
| "not_passed R Filtering = True"
| "not_passed R (Replying v) = (v_reply v \<in> R)"
| "not_passed R (Publishing v) = True"
| "not_passed R Answered = True"
| "not_passed R Panicked = True"
| "not_passed R _ = False"

definition refusals :: "query_env \<Rightarrow> dns_msg \<Rightarrow> Proxy set \<Rightarrow> dns_msg set" where
  "refusals e q ps = SetRcode (lib e) q ` insert RcodeRefused (filterRcode ` ps)"

lemma filter_stops:
  assumes "\<not> Allowed (domain_filter (proxy s)) (normalizeDomain (Some q))" and "proxy s \<in> ps"
    and "not_passed (refusals e q ps) pc"
  shows "not_passed (refusals e q ps) (fst (call_step e q d pc s))"
    and "\<exists>sent. wire (snd (call_step e q d pc s)) = wire s @ sent \<and> set sent \<subseteq> refusals e q ps"
    and "hung_up (snd (call_step e q d pc s)) = hung_up s"
proof -
  have R: "SetRcode (lib e) q RcodeRefused \<in> refusals e q ps"
    "SetRcode (lib e) q (filterRcode (proxy s)) \<in> refusals e q ps"
    using assms(2) by (simp_all add: refusals_def)
  have f: "domain_filter (proxy s) \<noteq> None"
    using assms(1) by (cases "domain_filter (proxy s)") (simp_all add: Allowed_def)
  show "not_passed (refusals e q ps) (fst (call_step e q d pc s))"
    using assms f R
    by (cases pc) (auto simp: limiter_steps filterStep_def publishStep_def refusal_def plain_verdict_def Let_def
      split: option.splits prod.splits)
  show "\<exists>sent. wire (snd (call_step e q d pc s)) = wire s @ sent \<and> set sent \<subseteq> refusals e q ps"
    using assms(3) by (cases pc) (simp_all only: call_step_wire, auto)
  show "hung_up (snd (call_step e q d pc s)) = hung_up s"
    using assms(3) by (cases pc) (auto simp: limiter_steps filterStep_def publishStep_def writeMsg_def Let_def
      split: option.splits prod.splits)
qed

lemma filter_stops_run:
  assumes "\<forall>p \<in> fst ` set found. \<not> Allowed (domain_filter p) (normalizeDomain (Some q)) \<and> p \<in> ps"
    and "not_passed (refusals e q ps) pc" and "run_among e q found (pc, s) = (pc', s')"
  shows "(\<exists>sent. wire s' = wire s @ sent \<and> set sent \<subseteq> refusals e q ps) \<and> hung_up s' = hung_up s"
  using assms
proof (induction found arbitrary: pc s)
  case Nil
  then show ?case by (auto intro: exI [of _ "[]"])
next
  case (Cons f found)
  obtain p d where f: "f = (p, d)" by (cases f)
  let ?s = "s\<lparr>proxy := p\<rparr>"
  let ?c = "call_step e q d pc ?s"
  from Cons.prems(1) f have "\<not> Allowed (domain_filter (proxy ?s)) (normalizeDomain (Some q))" "proxy ?s \<in> ps"
    by simp_all
  note now = filter_stops [OF this Cons.prems(2), of d]
  have run: "run_among e q found (fst ?c, snd ?c) = (pc', s')" using Cons.prems(3) f by simp
  from Cons.IH [OF _ now(1) run] Cons.prems(1) now(2,3) show ?case by auto
qed

text \<open>
  C17.  The filter holds against interleavings: if every filter installed while the query is handled
  denies its domain, then however the filter is replaced meanwhile, whatever reaches the client
  is a refusal (of the limiter, or with the response code that belonged to one of these
  filters), and no connection to the engine is used.
\<close>

theorem filter_enforced:
  assumes "\<forall>p \<in> fst ` set found. \<not> Allowed (domain_filter p) (normalizeDomain (Some q))"
    and "run_among e q found (ChargingGlobal, s) = (pc, s')"
  shows "\<exists>sent. wire s' = wire s @ sent \<and>
    set sent \<subseteq> SetRcode (lib e) q ` insert RcodeRefused (filterRcode ` fst ` set found) \<and> hung_up s' = hung_up s"
  using filter_stops_run [of found q "fst ` set found" e ChargingGlobal s pc s'] assms
  by (auto simp: refusals_def)

lemma filter_enforced_witness:
  "\<exists>sent. wire (snd (run_among (sample_env 0 (Inl ''timeout'')) (sample_msg 0)
     (replicate 3 (UpdateFilter sample_proxy [] [''a.b''] 3, undisturbed) @
      replicate 3 (UpdateFilter sample_proxy [''c.d''] [] 0, undisturbed))
     (ChargingGlobal, sample_state))) = sent \<and>
   set sent \<subseteq> SetRcode sample_lib (sample_msg 0) ` {RcodeRefused, 3}"
proof -
  let ?found = "replicate 3 (UpdateFilter sample_proxy [] [''a.b''] 3, undisturbed) @
      replicate 3 (UpdateFilter sample_proxy [''c.d''] [] 0, undisturbed)"
  let ?e = "sample_env 0 (Inl ''timeout'')"
  have denied: "\<not> Allowed (newDomainFilter [] [''a.b'']) (normalizeDomain (Some (sample_msg 0)))"
    "\<not> Allowed (newDomainFilter [''c.d''] []) (normalizeDomain (Some (sample_msg 0)))"
    by code_simp+
  have all: "\<forall>p \<in> fst ` set ?found. \<not> Allowed (domain_filter p) (normalizeDomain (Some (sample_msg 0)))"
    using denied by (simp add: UpdateFilter_def)
  have codes: "insert RcodeRefused (filterRcode ` fst ` set ?found) = {RcodeRefused, 3}"
    by (auto simp: UpdateFilter_def rcode_or_refused_def)
  obtain pc s' where run: "run_among ?e (sample_msg 0) ?found (ChargingGlobal, sample_state) = (pc, s')"
    by (cases "run_among ?e (sample_msg 0) ?found (ChargingGlobal, sample_state)")
  have "wire sample_state = []" "lib ?e = sample_lib" by (simp_all add: sample_state_def sample_env_def)
  with filter_enforced [OF all run] show ?thesis unfolding run codes by simp
qed

end
