(* ===== verification/ProxyLife.thy ===== *)
theory ProxyLife
  imports QuerySteps GoErrors
begin

section \<open>The life of the proxy\<close>

text \<open>
  \<open>Start\<close> and \<open>Stop\<close> of \<open>pkg/proxy/proxy.go\<close> with everything that runs beside them: the two
  goroutines that listen, the handlers of the queries, updates, and the reader of the event
  channel.  The state is that of all of them, a step is one of them moving.

  The servers are the DNS library's.  What is used of it is its documented behaviour: a server
  that has been created hands queries to the handler once its \<open>ListenAndServe\<close> has bound the
  address; \<open>Shutdown\<close> of a server that is not running is an error (which \<open>Stop\<close> ignores) and
  has no effect; \<open>Shutdown\<close> of a running one ends its \<open>ListenAndServe\<close> and returns when its
  connections have terminated.  That the last includes the handlers is the parameter
  \<open>waits\<close>; where it is false, \<open>Shutdown\<close> may return while they run.

  \<open>stop_early\<close> records that \<open>Stop\<close> found a server created but not yet listening, or that \<open>Start\<close>
  came after it: then listeners outlive \<open>Stop\<close>.  \<open>Start\<close> and \<open>Stop\<close> of theory \<open>Proxy\<close> are these
  steps taken with nothing in between (\<open>stop_undisturbed\<close>).
\<close>

subsection \<open>The model\<close>

datatype net = Udp | Tcp

datatype listener = Absent | Created | Serving | Closing "go_error option" | Down

datatype start_pc =
  NotStarted | Waiting | StartStopping "go_error option" | StartReturned "go_error option"

datatype stop_pc =
    NotStopped
  | ShuttingDown net
  | AwaitingDown net
  | ClosingPool
  | AwaitingHandlers
  | ClosingEvents
  | StopDone
  | StopPanicked

datatype handler_pc = Arrived | Running call_pc | HandlerDone

record call =
  c_env :: query_env
  c_request :: dns_msg
  c_net :: net
  c_pc :: handler_pc
  c_sent :: "dns_msg list"

record proxy_sys =
  px :: Proxy
  calls :: "call list"
  listeners :: "net \<Rightarrow> listener"
  errCh :: "go_error list"
  start_at :: start_pc
  stop_at :: stop_pc
  stop_has :: "net \<Rightarrow> bool"
  inFlight :: int
  sys_hung :: "conn list"
  consumed :: "QueryEvent list"
  stop_early :: bool

definition new_sys :: "ProxyConfig \<Rightarrow> time \<Rightarrow> proxy_sys" where
  "new_sys cfg now =
     \<lparr>px = New cfg now, calls = [], listeners = (\<lambda>_. Absent), errCh = [], start_at = NotStarted,
      stop_at = NotStopped, stop_has = (\<lambda>_. False), inFlight = 0, sys_hung = [], consumed = [],
      stop_early = False\<rparr>"

definition listener_failed :: "net \<Rightarrow> string" where
  "listener_failed n =
     (case n of Udp \<Rightarrow> ''udp listener failed: '' | Tcp \<Rightarrow> ''tcp listener failed: '')"

text \<open>What a listening goroutine does with the result of \<open>ListenAndServe\<close>.\<close>

definition report :: "net \<Rightarrow> go_error option \<Rightarrow> go_error list \<Rightarrow> go_error list" where
  "report n err errs =
     (case err of
        None \<Rightarrow> errs
      | Some e \<Rightarrow> if \<not> isShutdownErr err then errs @ [Wrapped (listener_failed n) e] else errs)"

definition after_server :: "net \<Rightarrow> stop_pc" where
  "after_server n = (case n of Udp \<Rightarrow> ShuttingDown Tcp | Tcp \<Rightarrow> ClosingPool)"

text \<open>The next step of the first call of \<open>Stop\<close>; \<open>None\<close> while it has to wait and after its end.\<close>

definition stop_step :: "proxy_sys \<Rightarrow> proxy_sys option" where
  "stop_step s =
     (case stop_at s of
        NotStopped \<Rightarrow>
          Some (s\<lparr>stop_has := (\<lambda>n. case n of Udp \<Rightarrow> udp_server (px s) | Tcp \<Rightarrow> tcp_server (px s)),
            px := (px s)\<lparr>stopped := True, udp_server := False, tcp_server := False\<rparr>,
            stop_at := ShuttingDown Udp\<rparr>)
      | ShuttingDown n \<Rightarrow>
          if \<not> stop_has s n then Some (s\<lparr>stop_at := after_server n\<rparr>)
          else (case listeners s n of
                  Serving \<Rightarrow> Some (s\<lparr>listeners := (listeners s)(n := Closing None), stop_at := AwaitingDown n\<rparr>)
                | Closing _ \<Rightarrow> Some (s\<lparr>stop_at := AwaitingDown n\<rparr>)
                | Created \<Rightarrow> Some (s\<lparr>stop_early := True, stop_at := after_server n\<rparr>)
                | Absent \<Rightarrow> Some (s\<lparr>stop_at := after_server n\<rparr>)
                | Down \<Rightarrow> Some (s\<lparr>stop_at := after_server n\<rparr>))
      | AwaitingDown n \<Rightarrow>
          if listeners s n = Down then Some (s\<lparr>stop_at := after_server n\<rparr>) else None
      | ClosingPool \<Rightarrow>
          (case Close (conn_pool (px s)) of
             (po, cs) \<Rightarrow> Some (s\<lparr>px := (px s)\<lparr>conn_pool := po\<rparr>, sys_hung := sys_hung s @ cs,
               stop_at := AwaitingHandlers\<rparr>))
      | AwaitingHandlers \<Rightarrow> if inFlight s = 0 then Some (s\<lparr>stop_at := ClosingEvents\<rparr>) else None
      | ClosingEvents \<Rightarrow>
          if chan_closed (events (px s)) then Some (s\<lparr>stop_at := StopPanicked\<rparr>)
          else Some (s\<lparr>px := (px s)\<lparr>events := (events (px s))\<lparr>chan_closed := True\<rparr>\<rparr>, stop_at := StopDone\<rparr>)
      | StopDone \<Rightarrow> None
      | StopPanicked \<Rightarrow> None)"

definition gone :: "net \<Rightarrow> proxy_sys \<Rightarrow> bool" where
  "gone n s \<longleftrightarrow> (\<forall>c \<in> set (calls s). c_net c = n \<longrightarrow> c_pc c = HandlerDone)"

definition with_call :: "nat \<Rightarrow> call \<Rightarrow> proxy_sys \<Rightarrow> proxy_sys" where
  "with_call i c s = s\<lparr>calls := (calls s)[i := c]\<rparr>"

inductive proxy_step :: "bool \<Rightarrow> proxy_sys \<Rightarrow> proxy_sys \<Rightarrow> bool" for waits where
  start_listens:
    "start_at s = NotStarted \<Longrightarrow> listen (px s) = Inr p \<Longrightarrow>
     proxy_step waits s (s\<lparr>px := p, listeners := (\<lambda>_. Created), start_at := Waiting,
       stop_early := (stop_early s \<or> stop_at s \<noteq> NotStopped)\<rparr>)"
| start_refused:
    "start_at s = NotStarted \<Longrightarrow> listen (px s) = Inl err \<Longrightarrow>
     proxy_step waits s (s\<lparr>start_at := StartReturned (Some (OtherError err))\<rparr>)"
| bound:
    "listeners s n = Created \<Longrightarrow> proxy_step waits s (s\<lparr>listeners := (listeners s)(n := Serving)\<rparr>)"
| bind_failed:
    "listeners s n = Created \<Longrightarrow>
     proxy_step waits s (s\<lparr>listeners := (listeners s)(n := Down), errCh := report n (Some e) (errCh s)\<rparr>)"
| serving_failed:
    "listeners s n = Serving \<Longrightarrow>
     proxy_step waits s (s\<lparr>listeners := (listeners s)(n := Closing (Some e))\<rparr>)"
| server_down:
    "listeners s n = Closing err \<Longrightarrow> waits \<longrightarrow> gone n s \<Longrightarrow>
     proxy_step waits s (s\<lparr>listeners := (listeners s)(n := Down), errCh := report n err (errCh s)\<rparr>)"
| query_arrives:
    "listeners s n = Serving \<or> listeners s n = Closing err \<Longrightarrow>
     proxy_step waits s
       (s\<lparr>calls := calls s @ [\<lparr>c_env = e, c_request = q, c_net = n, c_pc = Arrived, c_sent = []\<rparr>]\<rparr>)"
| handler_enters:
    "i < length (calls s) \<Longrightarrow> c = calls s ! i \<Longrightarrow> c_pc c = Arrived \<Longrightarrow>
     proxy_step waits s ((with_call i (c\<lparr>c_pc := Running ChargingGlobal\<rparr>) s)\<lparr>inFlight := inFlight s + 1\<rparr>)"
| handler_moves:
    "i < length (calls s) \<Longrightarrow> c = calls s ! i \<Longrightarrow> c_pc c = Running pc \<Longrightarrow> pc \<noteq> Answered \<Longrightarrow> pc \<noteq> Panicked \<Longrightarrow>
     call_step (c_env c) (c_request c) d pc \<lparr>proxy = px s, wire = c_sent c, hung_up = sys_hung s\<rparr> = (pc', s') \<Longrightarrow>
     proxy_step waits s ((with_call i (c\<lparr>c_pc := Running pc', c_sent := wire s'\<rparr>) s)
       \<lparr>px := proxy s', sys_hung := hung_up s'\<rparr>)"
| handler_leaves:
    "i < length (calls s) \<Longrightarrow> c = calls s ! i \<Longrightarrow> c_pc c = Running Answered \<Longrightarrow>
     proxy_step waits s ((with_call i (c\<lparr>c_pc := HandlerDone\<rparr>) s)\<lparr>inFlight := inFlight s - 1\<rparr>)"
| context_ends:
    "start_at s = Waiting \<Longrightarrow> proxy_step waits s (s\<lparr>start_at := StartStopping None\<rparr>)"
| listener_reports:
    "start_at s = Waiting \<Longrightarrow> errCh s = e # es \<Longrightarrow>
     proxy_step waits s (s\<lparr>errCh := es, start_at := StartStopping (Some e)\<rparr>)"
| stop_moves: "stop_step s = Some s' \<Longrightarrow> proxy_step waits s s'"
| start_returns:
    "start_at s = StartStopping r \<Longrightarrow> stop_at s = StopDone \<Longrightarrow>
     proxy_step waits s (s\<lparr>start_at := StartReturned r\<rparr>)"
| filter_updated: "proxy_step waits s (s\<lparr>px := UpdateFilter (px s) allow deny rc\<rparr>)"
| fallbacks_updated: "proxy_step waits s (s\<lparr>px := UpdateFallbackUpstreams (px s) us\<rparr>)"
| event_read:
    "recv (events (px s)) = (Got ev, ch) \<Longrightarrow>
     proxy_step waits s (s\<lparr>px := (px s)\<lparr>events := ch\<rparr>, consumed := consumed s @ [ev]\<rparr>)"

inductive proxy_reachable :: "bool \<Rightarrow> ProxyConfig \<Rightarrow> time \<Rightarrow> proxy_sys \<Rightarrow> bool" for waits cfg now where
  made: "proxy_reachable waits cfg now (new_sys cfg now)"
| moved: "proxy_reachable waits cfg now s \<Longrightarrow> proxy_step waits s s' \<Longrightarrow> proxy_reachable waits cfg now s'"

subsection \<open>The invariant\<close>

text \<open>\<open>Stop\<close> is done with the server of \<open>n\<close>.\<close>

fun past :: "net \<Rightarrow> stop_pc \<Rightarrow> bool" where
  "past n NotStopped = False"
| "past n (ShuttingDown m) = (n = Udp \<and> m = Tcp)"
| "past n (AwaitingDown m) = (n = Udp \<and> m = Tcp)"
| "past n ClosingPool = True"
| "past n AwaitingHandlers = True"
| "past n ClosingEvents = True"
| "past n StopDone = True"
| "past n StopPanicked = True"

definition at_rest :: "listener \<Rightarrow> bool" where
  "at_rest l \<longleftrightarrow> l = Absent \<or> l = Created \<or> l = Down"

definition listeners_ok :: "proxy_sys \<Rightarrow> bool" where
  "listeners_ok s \<longleftrightarrow>
     (\<forall>n. (at_rest (listeners s n) \<longrightarrow> gone n s) \<and>
        (past n (stop_at s) \<longrightarrow> listeners s n = Absent \<or> listeners s n = Down) \<and>
        (stop_at s = AwaitingDown n \<longrightarrow> listeners s n = Down \<or> (\<exists>err. listeners s n = Closing err)))"

definition has_server :: "Proxy \<Rightarrow> net \<Rightarrow> bool" where
  "has_server p n = (case n of Udp \<Rightarrow> udp_server p | Tcp \<Rightarrow> tcp_server p)"

definition servers_ok :: "proxy_sys \<Rightarrow> bool" where
  "servers_ok s \<longleftrightarrow>
     (start_at s = NotStarted \<longrightarrow> (\<forall>n. listeners s n = Absent)) \<and>
     (stop_at s = NotStopped \<longrightarrow> (\<forall>n. has_server (px s) n \<longleftrightarrow> listeners s n \<noteq> Absent)) \<and>
     (stop_at s \<noteq> NotStopped \<longrightarrow> (\<forall>n. stop_has s n \<longleftrightarrow> listeners s n \<noteq> Absent) \<and> (\<forall>n. \<not> has_server (px s) n))"

definition running :: "call \<Rightarrow> bool" where
  "running c \<longleftrightarrow> (\<exists>pc. c_pc c = Running pc)"

definition published :: "call \<Rightarrow> bool" where
  "published c \<longleftrightarrow> c_pc c = Running Answered \<or> c_pc c = HandlerDone"

definition call_ok :: "bool \<Rightarrow> call \<Rightarrow> bool" where
  "call_ok per_source c \<longleftrightarrow>
     (case c_pc c of
        Arrived \<Rightarrow> c_sent c = []
      | Running pc \<Rightarrow> pc_ok per_source pc \<and> one_reply [] pc (c_sent c)
      | HandlerDone \<Rightarrow> \<exists>m. c_sent c = [m])"

definition open_events :: "Proxy \<Rightarrow> Proxy" where
  "open_events p = p\<lparr>events := (events p)\<lparr>chan_closed := False\<rparr>\<rparr>"

definition shared_ok :: "proxy_sys \<Rightarrow> bool" where
  "shared_ok s \<longleftrightarrow>
     proxy_ok (open_events (px s)) \<and> (chan_closed (events (px s)) \<longleftrightarrow> stop_at s = StopDone) \<and>
     stop_at s \<noteq> StopPanicked"

definition calls_ok :: "proxy_sys \<Rightarrow> bool" where
  "calls_ok s \<longleftrightarrow>
     (\<forall>c \<in> set (calls s). call_ok (limits_sources (px s)) c) \<and>
     inFlight s = int (length (filter running (calls s)))"

text \<open>
  The events of answered queries that are neither read nor waiting in the channel: those that were
  dropped, counted by an \<open>int64\<close> and, where there is one, by the callback.
\<close>

definition missing :: "proxy_sys \<Rightarrow> int" where
  "missing s =
     int (length (filter published (calls s))) - int (length (consumed s)) - int (length (buffer (events (px s))))"

definition events_ok :: "proxy_sys \<Rightarrow> bool" where
  "events_ok s \<longleftrightarrow>
     0 \<le> missing s \<and> dropped (px s) mod 2 ^ 64 = missing s mod 2 ^ 64 \<and>
     (OnEventDrop (config (px s)) \<longrightarrow> int (drop_callbacks (px s)) = missing s)"

definition life_ok :: "proxy_sys \<Rightarrow> bool" where
  "life_ok s \<longleftrightarrow> listeners_ok s \<and> servers_ok s \<and> shared_ok s \<and> calls_ok s \<and> events_ok s"

lemma with_call_simps [simp]:
  "px (with_call i c s) = px s" "calls (with_call i c s) = (calls s)[i := c]"
  "listeners (with_call i c s) = listeners s" "start_at (with_call i c s) = start_at s"
  "stop_at (with_call i c s) = stop_at s" "stop_has (with_call i c s) = stop_has s"
  "inFlight (with_call i c s) = inFlight s" "consumed (with_call i c s) = consumed s"
  "stop_early (with_call i c s) = stop_early s" "sys_hung (with_call i c s) = sys_hung s"
  by (simp_all add: with_call_def)

text \<open>A step never takes the mark of an early stop away.\<close>

lemma stop_step_early: "stop_step s = Some s' \<Longrightarrow> stop_early s \<Longrightarrow> stop_early s'"
  by (auto simp: stop_step_def split: stop_pc.splits listener.splits if_splits prod.splits)

lemma step_early: "proxy_step waits s s' \<Longrightarrow> stop_early s \<Longrightarrow> stop_early s'"
  by (induction rule: proxy_step.induct) (auto simp: with_call_def dest: stop_step_early)

text \<open>What a handler never touches, in whatever state the proxy is.\<close>

definition outer_frame :: "Proxy \<Rightarrow> Proxy \<Rightarrow> bool" where
  "outer_frame p p' \<longleftrightarrow>
     config p' = config p \<and> fallbackUpstreams p' = fallbackUpstreams p \<and>
     udp_server p' = udp_server p \<and> tcp_server p' = tcp_server p \<and>
     chan_closed (events p') = chan_closed (events p)"

lemma outer_frame_parts [simp]:
  "outer_frame p p" "outer_frame p (p\<lparr>request_limiter := ro\<rparr>)" "outer_frame p (p\<lparr>conn_pool := po\<rparr>)"
  "outer_frame p (p\<lparr>cache := co\<rparr>)"
  by (simp_all add: outer_frame_def)

lemma publishEvent_frame: "publishEvent ev p = Some p' \<Longrightarrow> outer_frame p p'"
  by (auto simp: publishEvent_def trySend_def outer_frame_def Let_def split: if_splits)

lemma publishStep_frame: "outer_frame (proxy s) (proxy (snd (publishStep e q v s)))"
  by (auto simp: publishStep_def split: option.split
      intro: publishEvent_frame)

lemma call_step_frame: "outer_frame (proxy s) (proxy (snd (call_step e q d pc s)))"
proof (cases "\<exists>v. pc = Publishing v")
  case True
  then show ?thesis using publishStep_frame by auto
next
  case False
  then show ?thesis
    by (cases pc)
      (simp_all add: limiter_steps pool_steps quiet_steps writeMsg_def storeAnswer_def Let_def
        split: option.split prod.split sum.split list.split)
qed

lemma call_frame:
  "call_step e q d pc \<lparr>proxy = p, wire = w, hung_up = h\<rparr> = (pc', s') \<Longrightarrow> outer_frame p (proxy s')"
  using call_step_frame [of "\<lparr>proxy = p, wire = w, hung_up = h\<rparr>" e q d pc] by simp

lemma count_update:
  "i < length xs \<Longrightarrow>
     int (length (filter P (xs[i := x]))) = int (length (filter P xs)) + of_bool (P x) - of_bool (P (xs ! i))"
proof (induction xs arbitrary: i)
  case Nil
  then show ?case by simp
next
  case (Cons y ys)
  then show ?case by (cases i) auto
qed

lemma all_update: "\<forall>c \<in> set cs. P c \<Longrightarrow> P c' \<Longrightarrow> \<forall>c \<in> set (cs[i := c']). P c"
  using set_update_subset_insert [of cs i c'] by blast

lemma goneD: "gone n s \<Longrightarrow> i < length (calls s) \<Longrightarrow> c_net (calls s ! i) = n \<Longrightarrow> c_pc (calls s ! i) = HandlerDone"
  using nth_mem [of i "calls s"] by (simp add: gone_def)

lemma gone_update:
  assumes "gone n s" and "i < length (calls s)" and "c_pc (calls s ! i) \<noteq> HandlerDone"
    and "c_net c' = c_net (calls s ! i)"
  shows "\<forall>c \<in> set ((calls s)[i := c']). c_net c = n \<longrightarrow> c_pc c = HandlerDone"
proof (rule all_update)
  show "\<forall>c \<in> set (calls s). c_net c = n \<longrightarrow> c_pc c = HandlerDone" using assms(1) by (simp add: gone_def)
  show "c_net c' = n \<longrightarrow> c_pc c' = HandlerDone" using goneD [OF assms(1,2)] assms(3,4) by metis
qed

lemma running_not_past:
  assumes "listeners_ok s" and "i < length (calls s)" and "c_pc (calls s ! i) \<noteq> HandlerDone"
  shows "\<not> past (c_net (calls s ! i)) (stop_at s)"
proof
  assume "past (c_net (calls s ! i)) (stop_at s)"
  with assms(1) have "at_rest (listeners s (c_net (calls s ! i)))"
    unfolding listeners_ok_def at_rest_def by blast
  with assms(1) have "gone (c_net (calls s ! i)) s" by (simp add: listeners_ok_def)
  with goneD assms(2,3) show False by blast
qed

lemma running_open:
  assumes "listeners_ok s" and "shared_ok s" and "i < length (calls s)" and "c_pc (calls s ! i) \<noteq> HandlerDone"
  shows "proxy_ok (px s)" "stop_at s \<noteq> StopDone"
proof -
  show n: "stop_at s \<noteq> StopDone" using running_not_past [OF assms(1,3,4)] by auto
  with assms(2) have "\<not> chan_closed (events (px s))" "proxy_ok (open_events (px s))"
    by (auto simp: shared_ok_def)
  then show "proxy_ok (px s)" by (simp add: proxy_ok_def open_events_def)
qed

text \<open>The steps of \<open>Stop\<close>, one by one.\<close>

lemma stop_step_cases:
  assumes "stop_step s = Some s'"
  obtains (begins) "stop_at s = NotStopped"
      "s' = s\<lparr>stop_has := has_server (px s),
         px := (px s)\<lparr>stopped := True, udp_server := False, tcp_server := False\<rparr>,
         stop_at := ShuttingDown Udp\<rparr>"
  | (passes) n where "stop_at s = ShuttingDown n"
      "stop_has s n \<longrightarrow> listeners s n = Absent \<or> listeners s n = Down" "s' = s\<lparr>stop_at := after_server n\<rparr>"
  | (early) n where "stop_at s = ShuttingDown n" "stop_has s n" "listeners s n = Created"
      "s' = s\<lparr>stop_early := True, stop_at := after_server n\<rparr>"
  | (shuts) n where "stop_at s = ShuttingDown n" "stop_has s n" "listeners s n = Serving"
      "s' = s\<lparr>listeners := (listeners s)(n := Closing None), stop_at := AwaitingDown n\<rparr>"
  | (waits) n err where "stop_at s = ShuttingDown n" "stop_has s n" "listeners s n = Closing err"
      "s' = s\<lparr>stop_at := AwaitingDown n\<rparr>"
  | (down) n where "stop_at s = AwaitingDown n" "listeners s n = Down" "s' = s\<lparr>stop_at := after_server n\<rparr>"
  | (pool) po cs where "stop_at s = ClosingPool" "Close (conn_pool (px s)) = (po, cs)"
      "s' = s\<lparr>px := (px s)\<lparr>conn_pool := po\<rparr>, sys_hung := sys_hung s @ cs, stop_at := AwaitingHandlers\<rparr>"
  | (handlers) "stop_at s = AwaitingHandlers" "inFlight s = 0" "s' = s\<lparr>stop_at := ClosingEvents\<rparr>"
  | (panics) "stop_at s = ClosingEvents" "chan_closed (events (px s))" "s' = s\<lparr>stop_at := StopPanicked\<rparr>"
  | (closes) "stop_at s = ClosingEvents" "\<not> chan_closed (events (px s))"
      "s' = s\<lparr>px := (px s)\<lparr>events := (events (px s))\<lparr>chan_closed := True\<rparr>\<rparr>, stop_at := StopDone\<rparr>"
proof (cases "stop_at s")
  case NotStopped
  have "has_server (px s) = (\<lambda>n. case n of Udp \<Rightarrow> udp_server (px s) | Tcp \<Rightarrow> tcp_server (px s))"
    by (simp add: has_server_def fun_eq_iff)
  with assms NotStopped begins show ?thesis by (simp add: stop_step_def)
next
  case (ShuttingDown n)
  with assms passes early shuts waits show ?thesis
    by (cases "listeners s n") (auto simp: stop_step_def split: if_splits)
next
  case ClosingPool
  with assms pool show ?thesis by (auto simp: stop_step_def split: prod.splits)
qed (use assms down handlers panics closes in \<open>simp_all add: stop_step_def split: if_splits\<close>)

lemma after_server_simps [simp]:
  "after_server n \<noteq> NotStopped" "after_server n \<noteq> AwaitingDown m" "after_server n \<noteq> StopDone"
  "after_server n \<noteq> StopPanicked" "past m (after_server n) \<longleftrightarrow> n = m \<or> past m (ShuttingDown n)"
  by (cases n; cases m; simp add: after_server_def)+

lemma past_not_self [simp]: "\<not> past n (ShuttingDown n)" "\<not> past n (AwaitingDown n)"
  by (cases n; simp)+

subsection \<open>Every step keeps it\<close>

lemma has_server_frame: "outer_frame p p' \<Longrightarrow> has_server p' = has_server p"
  by (simp add: outer_frame_def has_server_def fun_eq_iff split: net.split)

lemma has_server_update [simp]:
  "has_server (UpdateFilter p allow deny rc) = has_server p"
  "has_server (UpdateFallbackUpstreams p us) = has_server p"
  "has_server (p\<lparr>events := ch\<rparr>) = has_server p" "has_server (p\<lparr>conn_pool := po\<rparr>) = has_server p"
  "\<not> has_server (p\<lparr>stopped := b, udp_server := False, tcp_server := False\<rparr>) n"
  by (simp_all add: has_server_def UpdateFilter_def UpdateFallbackUpstreams_def fun_eq_iff split: net.split)

lemma listen_servers: "listen p = Inr p' \<Longrightarrow> has_server p' n"
  by (auto simp: listen_def has_server_def split: if_splits net.split)

lemma servers_listener:
  "servers_ok s \<Longrightarrow> listeners s n \<noteq> Absent \<Longrightarrow> l \<noteq> Absent \<Longrightarrow>
     servers_ok (s\<lparr>listeners := (listeners s)(n := l)\<rparr>)"
  by (auto simp: servers_ok_def)

lemma servers_errCh [simp]: "servers_ok (s\<lparr>errCh := es\<rparr>) = servers_ok s"
  by (simp add: servers_ok_def)

lemma servers_stop:
  assumes "stop_step s = Some s'" and "servers_ok s" and "\<not> stop_early s'"
  shows "servers_ok s'"
  using assms(1)
proof (cases rule: stop_step_cases)
  case begins
  with assms(2) show ?thesis by (simp add: servers_ok_def)
next
  case early
  with assms(3) show ?thesis by simp
next
  case (shuts n)
  with assms(2) show ?thesis by (auto simp: servers_ok_def)
qed (use assms(2) in \<open>simp_all add: servers_ok_def\<close>)

lemma servers_step:
  assumes "proxy_step w s s'" and "\<not> stop_early s'" and "servers_ok s"
  shows "servers_ok s'"
  using assms
proof (induction rule: proxy_step.induct)
  case (start_listens s p)
  then show ?case using listen_servers by (simp add: servers_ok_def)
next
  case (handler_moves i s c pc d pc' s')
  then have "has_server (proxy s') = has_server (px s)" by (intro has_server_frame call_frame)
  with handler_moves show ?case by (simp add: servers_ok_def with_call_def)
next
  case (stop_moves s s')
  show ?case by (rule servers_stop [OF stop_moves.hyps stop_moves.prems(2,1)])
next
  case (bound s n)
  with servers_listener [of s n Serving] show ?case by simp
next
  case (bind_failed s n e)
  with servers_listener [of s n Down] show ?case by simp
next
  case (serving_failed s n e)
  with servers_listener [of s n "Closing (Some e)"] show ?case by simp
next
  case (server_down s n err)
  with servers_listener [of s n Down] show ?case by simp
qed (simp_all add: servers_ok_def with_call_def)

lemma gone_same [simp]:
  "gone n (s\<lparr>px := p\<rparr>) = gone n s" "gone n (s\<lparr>listeners := ls\<rparr>) = gone n s" "gone n (s\<lparr>errCh := es\<rparr>) = gone n s"
  "gone n (s\<lparr>start_at := a\<rparr>) = gone n s" "gone n (s\<lparr>stop_at := z\<rparr>) = gone n s" "gone n (s\<lparr>stop_has := h\<rparr>) = gone n s"
  "gone n (s\<lparr>inFlight := k\<rparr>) = gone n s" "gone n (s\<lparr>sys_hung := g\<rparr>) = gone n s" "gone n (s\<lparr>consumed := evs\<rparr>) = gone n s"
  "gone n (s\<lparr>stop_early := b\<rparr>) = gone n s"
  by (simp_all add: gone_def)

lemma listeners_call:
  assumes "listeners_ok s" and "i < length (calls s)" and "c_pc (calls s ! i) \<noteq> HandlerDone"
    and "c_net c' = c_net (calls s ! i)"
  shows "listeners_ok (with_call i c' s)"
  unfolding listeners_ok_def
proof (intro allI conjI impI)
  fix n
  assume "at_rest (listeners (with_call i c' s) n)"
  with assms(1) have "gone n s" by (simp add: listeners_ok_def with_call_def)
  from gone_update [OF this assms(2-4)] show "gone n (with_call i c' s)"
    by (simp add: gone_def with_call_def)
qed (use assms(1) in \<open>auto simp: listeners_ok_def with_call_def\<close>)

lemma listeners_ok_same [simp]:
  "listeners_ok (s\<lparr>px := p\<rparr>) = listeners_ok s" "listeners_ok (s\<lparr>errCh := es\<rparr>) = listeners_ok s"
  "listeners_ok (s\<lparr>start_at := a\<rparr>) = listeners_ok s" "listeners_ok (s\<lparr>inFlight := k\<rparr>) = listeners_ok s"
  "listeners_ok (s\<lparr>sys_hung := g\<rparr>) = listeners_ok s" "listeners_ok (s\<lparr>consumed := evs\<rparr>) = listeners_ok s"
  "listeners_ok (s\<lparr>stop_has := h\<rparr>) = listeners_ok s"
  by (simp_all add: listeners_ok_def)

lemma listeners_stop:
  assumes "stop_step s = Some s'" and "listeners_ok s" and "servers_ok s" and "\<not> stop_early s'"
  shows "listeners_ok s'"
  using assms(1)
proof (cases rule: stop_step_cases)
  case begins
  with assms(2) show ?thesis by (simp add: listeners_ok_def)
next
  case (passes n)
  then have "listeners s n = Absent \<or> listeners s n = Down"
    using assms(3) by (auto simp: servers_ok_def)
  with passes assms(2) show ?thesis by (auto simp: listeners_ok_def)
next
  case early
  with assms(4) show ?thesis by simp
next
  case (shuts n)
  with assms(2) show ?thesis by (cases n) (auto simp: listeners_ok_def at_rest_def)
next
  case (waits n err)
  with assms(2) show ?thesis by (cases n) (auto simp: listeners_ok_def)
next
  case (down n)
  with assms(2) show ?thesis by (cases n) (auto simp: listeners_ok_def)
qed (use assms(2) in \<open>simp_all add: listeners_ok_def\<close>)

lemma listener_changes:
  assumes "listeners_ok s" and "\<not> past n (stop_at s) \<or> l = Down"
    and "at_rest l \<Longrightarrow> gone n s" and "stop_at s = AwaitingDown n \<Longrightarrow> l = Down \<or> (\<exists>err. l = Closing err)"
  shows "listeners_ok (s\<lparr>listeners := (listeners s)(n := l)\<rparr>)"
  using assms by (auto simp: listeners_ok_def)

lemma listeners_step:
  assumes "proxy_step True s s'" and "\<not> stop_early s'" and "listeners_ok s" and "servers_ok s"
  shows "listeners_ok s'"
  using assms
proof (induction rule: proxy_step.induct)
  case (start_listens s p)
  then have "\<forall>n. listeners s n = Absent" by (simp add: servers_ok_def)
  with start_listens show ?case by (simp add: listeners_ok_def at_rest_def)
next
  case (bound s n)
  then have "\<not> past n (stop_at s)" "stop_at s \<noteq> AwaitingDown n" by (auto simp: listeners_ok_def)
  with bound show ?case by (intro listener_changes) (simp_all add: at_rest_def)
next
  case (bind_failed s n e)
  then have "gone n s" by (simp add: listeners_ok_def at_rest_def)
  with bind_failed listener_changes [of s n Down] show ?case by simp
next
  case (serving_failed s n e)
  then have "\<not> past n (stop_at s)" by (auto simp: listeners_ok_def)
  with serving_failed show ?case by (intro listener_changes) (simp_all add: at_rest_def)
next
  case (server_down s n err)
  with listener_changes [of s n Down] show ?case by simp
next
  case (query_arrives s n err e q)
  then have busy: "\<not> at_rest (listeners s n)" by (auto simp: at_rest_def)
  have "gone m (s\<lparr>calls := calls s @ [c]\<rparr>) = gone m s" if "m \<noteq> c_net c" for m c
    using that by (auto simp: gone_def)
  then have "at_rest (listeners s m) \<Longrightarrow> gone m s \<Longrightarrow>
      gone m (s\<lparr>calls := calls s @ [\<lparr>c_env = e, c_request = q, c_net = n, c_pc = Arrived, c_sent = []\<rparr>]\<rparr>)" for m
    using busy by (cases "m = n") simp_all
  with query_arrives.prems(2) show ?case by (simp add: listeners_ok_def)
next
  case (handler_enters i s c)
  with listeners_call [of s i "c\<lparr>c_pc := Running ChargingGlobal\<rparr>"] show ?case by simp
next
  case (handler_moves i s c pc d pc' s')
  with listeners_call [of s i "c\<lparr>c_pc := Running pc', c_sent := wire s'\<rparr>"] show ?case by simp
next
  case (handler_leaves i s c)
  with listeners_call [of s i "c\<lparr>c_pc := HandlerDone\<rparr>"] show ?case by simp
next
  case (stop_moves s s')
  show ?case by (rule listeners_stop [OF stop_moves.hyps stop_moves.prems(2,3,1)])
qed simp_all

text \<open>The shared state.\<close>

lemma open_events_frame:
  "open_events (p\<lparr>udp_server := u\<rparr>) = (open_events p)\<lparr>udp_server := u\<rparr>"
  "open_events (p\<lparr>tcp_server := t\<rparr>) = (open_events p)\<lparr>tcp_server := t\<rparr>"
  "open_events (p\<lparr>stopped := z\<rparr>) = (open_events p)\<lparr>stopped := z\<rparr>"
  "open_events (p\<lparr>conn_pool := po\<rparr>) = (open_events p)\<lparr>conn_pool := po\<rparr>"
  by (simp_all add: open_events_def)

lemma open_events_ok: "\<not> chan_closed (events p) \<Longrightarrow> proxy_ok (open_events p) \<longleftrightarrow> proxy_ok p"
  by (simp add: proxy_ok_def open_events_def)

lemma shared_ok_same [simp]:
  "shared_ok (s\<lparr>listeners := ls\<rparr>) = shared_ok s" "shared_ok (s\<lparr>errCh := es\<rparr>) = shared_ok s"
  "shared_ok (s\<lparr>start_at := a\<rparr>) = shared_ok s" "shared_ok (s\<lparr>inFlight := k\<rparr>) = shared_ok s"
  "shared_ok (s\<lparr>sys_hung := g\<rparr>) = shared_ok s" "shared_ok (s\<lparr>consumed := evs\<rparr>) = shared_ok s"
  "shared_ok (s\<lparr>stop_has := h\<rparr>) = shared_ok s" "shared_ok (s\<lparr>stop_early := b\<rparr>) = shared_ok s"
  "shared_ok (s\<lparr>calls := cs\<rparr>) = shared_ok s" "shared_ok (with_call i c s) = shared_ok s"
  by (simp_all add: shared_ok_def with_call_def)

lemma Close_ok: "\<forall>q. po = Some q \<longrightarrow> pool_ok q \<Longrightarrow> Close po = (po', cs) \<Longrightarrow> \<forall>q. po' = Some q \<longrightarrow> pool_ok q"
proof (cases po)
  case (Some p)
  obtain p1 cs1 where d: "drain p = (p1, cs1)" by (cases "drain p")
  assume "\<forall>q. po = Some q \<longrightarrow> pool_ok q" and "Close po = (po', cs)"
  with Some d have "pool_ok p" "po' = Some p1" by (simp_all add: Close_def)
  with engine_pool.stop_ok [OF _ d] show ?thesis by simp
qed (simp add: Close_def)

lemma shared_stop:
  assumes "stop_step s = Some s'" and "shared_ok s"
  shows "shared_ok s'"
  using assms(1)
proof (cases rule: stop_step_cases)
  case begins
  with assms(2) show ?thesis by (auto simp: shared_ok_def proxy_ok_def open_events_def)
next
  case (pool po cs)
  have "\<forall>q. conn_pool (px s) = Some q \<longrightarrow> pool_ok q"
    using assms(2) by (simp add: shared_ok_def proxy_ok_def open_events_def)
  from Close_ok [OF this pool(2)] pool assms(2) show ?thesis
    by (auto simp: shared_ok_def open_events_frame intro: proxy_ok_parts)
next
  case panics
  with assms(2) show ?thesis by (auto simp: shared_ok_def)
next
  case closes
  with assms(2) show ?thesis by (auto simp: shared_ok_def proxy_ok_def open_events_def)
qed (use assms(2) in \<open>auto simp: shared_ok_def\<close>)

lemma handler_moves_ok:
  assumes "listeners_ok s" and "shared_ok s" and "calls_ok s" and "i < length (calls s)"
    and "c = calls s ! i" and "c_pc c = Running pc"
    and "call_step (c_env c) (c_request c) d pc \<lparr>proxy = px s, wire = c_sent c, hung_up = sys_hung s\<rparr> = (pc', s')"
  shows "proxy_ok (px s)" "step_ok (c_env c) (c_request c) pc
      \<lparr>proxy = px s, wire = c_sent c, hung_up = sys_hung s\<rparr> (pc', s')"
    "one_reply [] pc' (wire s')"
proof -
  let ?s = "\<lparr>proxy = px s, wire = c_sent c, hung_up = sys_hung s\<rparr>"
  have "c \<in> set (calls s)" using assms(4,5) by simp
  then have "call_ok (limits_sources (px s)) c" using assms(3) by (simp add: calls_ok_def)
  then have c: "pc_ok (limits_sources (proxy ?s)) pc" "one_reply [] pc (wire ?s)"
    using assms(6) by (simp_all add: call_ok_def)
  show p: "proxy_ok (px s)" using running_open(1) [OF assms(1,2,4)] assms(5,6) by simp
  then have ps: "proxy_ok (proxy ?s)" by simp
  show st: "step_ok (c_env c) (c_request c) pc ?s (pc', s')"
    using call_step_ok [OF ps c(1), of "c_env c" "c_request c" d] unfolding assms(7) .
  then have "pc_ok (limits_sources (px s)) pc'" by (simp add: step_ok_def)
  with call_step_one_reply [OF c(2), of "limits_sources (px s)" "c_env c" "c_request c" d]
  show "one_reply [] pc' (wire s')" unfolding assms(7) by simp
qed

lemma shared_step:
  assumes "proxy_step w s s'" and "shared_ok s" and "listeners_ok s" and "calls_ok s"
  shows "shared_ok s'"
  using assms
proof (induction rule: proxy_step.induct)
  case (start_listens s p)
  then have "events p = events (px s)" "proxy_ok (open_events p) = proxy_ok (open_events (px s))"
    by (auto simp: listen_def proxy_ok_def open_events_def split: if_splits)
  with start_listens show ?case by (simp add: shared_ok_def)
next
  case (handler_moves i s c pc d pc' s')
  note h = handler_moves_ok [OF handler_moves.prems(2,1,3) handler_moves.hyps(1,2,3,6)]
  have p: "proxy_ok (proxy s')" using h(2) by (simp add: step_ok_def keeps_def)
  with h(1) handler_moves.prems(1) show ?case
    by (auto simp: shared_ok_def open_events_ok proxy_ok_def open_events_def)
next
  case (stop_moves s s')
  then show ?case by (intro shared_stop [of s s'])
next
  case (event_read s ev ch)
  then show ?case by (auto simp: shared_ok_def recv_def proxy_ok_def open_events_def split: list.splits)
qed (auto simp: shared_ok_def proxy_ok_def open_events_def UpdateFilter_def UpdateFallbackUpstreams_def)

text \<open>The handlers.\<close>

lemma limits_same [simp]:
  "limits_sources (UpdateFilter p allow deny rc) = limits_sources p"
  "limits_sources (UpdateFallbackUpstreams p us) = limits_sources p"
  "limits_sources (p\<lparr>events := ch\<rparr>) = limits_sources p" "limits_sources (p\<lparr>conn_pool := po\<rparr>) = limits_sources p"
  "limits_sources (p\<lparr>stopped := z\<rparr>) = limits_sources p" "limits_sources (p\<lparr>udp_server := u\<rparr>) = limits_sources p"
  "limits_sources (p\<lparr>tcp_server := t\<rparr>) = limits_sources p"
  by (simp_all add: limits_sources_def UpdateFilter_def UpdateFallbackUpstreams_def)

lemma calls_change:
  assumes "calls_ok s" and "i < length (calls s)" and "call_ok (limits_sources (px s)) c'"
    and "k = inFlight s + of_bool (running c') - of_bool (running (calls s ! i))"
    and "limits_sources p = limits_sources (px s)"
  shows "calls_ok ((with_call i c' s)\<lparr>px := p, inFlight := k\<rparr>)"
  using assms all_update [of "calls s" "call_ok (limits_sources (px s))" c' i]
  by (simp add: calls_ok_def count_update)

lemma calls_enter_leave:
  assumes "calls_ok s" and "i < length (calls s)" and "call_ok (limits_sources (px s)) c'"
    and "k = inFlight s + of_bool (running c') - of_bool (running (calls s ! i))"
  shows "calls_ok ((with_call i c' s)\<lparr>inFlight := k\<rparr>)"
  using calls_change [OF assms refl] by (simp add: calls_ok_def)

lemma calls_stop:
  assumes "stop_step s = Some s'" and "calls_ok s"
  shows "calls_ok s'"
  using assms(1) by (cases rule: stop_step_cases) (use assms(2) in \<open>simp_all add: calls_ok_def\<close>)

lemma calls_step:
  assumes "proxy_step w s s'" and "calls_ok s" and "shared_ok s" and "listeners_ok s"
  shows "calls_ok s'"
  using assms
proof (induction rule: proxy_step.induct)
  case (start_listens s p)
  then have "limits_sources p = limits_sources (px s)" by (auto simp: listen_def split: if_splits)
  with start_listens show ?case by (simp add: calls_ok_def)
next
  case (query_arrives s n err e q)
  then show ?case by (auto simp: calls_ok_def call_ok_def running_def)
next
  case (handler_enters i s c)
  have "c \<in> set (calls s)" using handler_enters by simp
  then have "call_ok (limits_sources (px s)) c" using handler_enters.prems(1) by (simp add: calls_ok_def)
  then have "c_sent c = []" using handler_enters.hyps(3) by (simp add: call_ok_def)
  then have "call_ok b (c\<lparr>c_pc := Running ChargingGlobal\<rparr>)" for b
    by (simp add: call_ok_def pc_ok_def one_reply_def has_replied_def)
  with calls_enter_leave [of s i "c\<lparr>c_pc := Running ChargingGlobal\<rparr>" "inFlight s + 1"] handler_enters
  show ?case by (simp add: running_def)
next
  case (handler_moves i s c pc d pc' s')
  note h = handler_moves_ok [OF handler_moves.prems(3,2,1) handler_moves.hyps(1,2,3,6)]
  have "pc_ok (limits_sources (px s)) pc'" and lim: "limits_sources (proxy s') = limits_sources (px s)"
    using h(2) by (simp_all add: step_ok_def keeps_def same_frame_def)
  with h(3) have "call_ok (limits_sources (px s)) (c\<lparr>c_pc := Running pc', c_sent := wire s'\<rparr>)"
    by (simp add: call_ok_def)
  from calls_change [OF handler_moves.prems(1) handler_moves.hyps(1) this _ lim, of "inFlight s"] handler_moves.hyps(2,3)
  show ?case by (simp add: running_def calls_ok_def)
next
  case (handler_leaves i s c)
  have "c \<in> set (calls s)" using handler_leaves by simp
  then have "call_ok (limits_sources (px s)) c" using handler_leaves by (simp add: calls_ok_def)
  then have "call_ok (limits_sources (px s)) (c\<lparr>c_pc := HandlerDone\<rparr>)"
    using handler_leaves by (simp add: call_ok_def one_reply_def has_replied_def)
  with calls_enter_leave [of s i "c\<lparr>c_pc := HandlerDone\<rparr>" "inFlight s - 1"] handler_leaves
  show ?case by (simp add: running_def)
next
  case (stop_moves s s')
  then show ?case by (intro calls_stop [of s s'])
qed (simp_all add: calls_ok_def)

text \<open>The account of events.\<close>

lemma wrap64_mod: "wrap64 x mod 2 ^ 64 = x mod 2 ^ 64"
  by (simp add: wrap64_def mod_simps)

lemma events_keep:
  assumes "events_ok s" and "missing s' = missing s" and "dropped (px s') = dropped (px s)"
    and "drop_callbacks (px s') = drop_callbacks (px s)" and "config (px s') = config (px s)"
  shows "events_ok s'"
  using assms by (simp add: events_ok_def)

lemma events_drop:
  assumes "events_ok s" and "missing s' = missing s + 1" and "dropped (px s') = wrap64 (dropped (px s) + 1)"
    and "drop_callbacks (px s') = drop_callbacks (px s) + of_bool (OnEventDrop (config (px s)))"
    and "config (px s') = config (px s)"
  shows "events_ok s'"
proof -
  have "dropped (px s) mod 2 ^ 64 = missing s mod 2 ^ 64" using assms(1) by (simp add: events_ok_def)
  from mod_add_cong [OF this refl, of 1]
  have "dropped (px s') mod 2 ^ 64 = missing s' mod 2 ^ 64" by (simp only: assms(2,3) wrap64_mod)
  with assms(1,2,4,5) show ?thesis by (simp add: events_ok_def)
qed

lemma call_step_answered:
  "fst (call_step e q d pc s) = Answered \<Longrightarrow> pc = Answered \<or> (\<exists>v. pc = Publishing v)"
  by (cases pc) (auto simp: limiter_steps pool_steps quiet_steps Let_def
      split: option.splits prod.splits sum.splits list.splits borrowed.splits if_splits)

lemma call_step_publishes:
  "pc_ok b (fst (call_step e q d (Publishing v) s)) \<Longrightarrow> fst (call_step e q d (Publishing v) s) = Answered"
  by (simp add: publishStep_def pc_ok_def split: option.splits)

lemma events_stop:
  assumes "stop_step s = Some s'" and "events_ok s"
  shows "events_ok s'"
  using assms(1)
  by (cases rule: stop_step_cases) (rule events_keep [OF assms(2)]; simp add: missing_def)+

lemma events_moves:
  assumes "events_ok s" and "shared_ok s" and "calls_ok s" and "listeners_ok s"
    and i: "i < length (calls s)" "c = calls s ! i" "c_pc c = Running pc" "pc \<noteq> Answered"
    and move: "call_step (c_env c) (c_request c) d pc \<lparr>proxy = px s, wire = c_sent c, hung_up = sys_hung s\<rparr> = (pc', s')"
  shows "events_ok ((with_call i (c\<lparr>c_pc := Running pc', c_sent := wire s'\<rparr>) s)\<lparr>px := proxy s', sys_hung := hung_up s'\<rparr>)"
    (is "events_ok ?t")
proof -
  note h = handler_moves_ok [OF assms(4,2,3) i(1-3) move]
  have config: "config (proxy s') = config (px s)"
    using h(2) by (simp add: step_ok_def keeps_def same_frame_def)
  have published: "int (length (filter published (calls ?t))) =
      int (length (filter published (calls s))) + of_bool (pc' = Answered)"
    using i by (simp add: count_update published_def)
  show ?thesis
  proof (cases "\<exists>v. pc = Publishing v")
    case False
    with h(2) have "same_events (px s) (proxy s')" by (auto simp: step_ok_def split: call_pc.splits)
    moreover have "pc' \<noteq> Answered"
    proof
      assume "pc' = Answered"
      with move have "fst (call_step (c_env c) (c_request c) d pc
          \<lparr>proxy = px s, wire = c_sent c, hung_up = sys_hung s\<rparr>) = Answered" by simp
      from call_step_answered [OF this] i(4) False show False by blast
    qed
    ultimately show ?thesis
      using published config by (intro events_keep [OF assms(1)]) (simp_all add: missing_def same_events_def)
  next
    case True
    then obtain v where v: "pc = Publishing v" by blast
    have "pc_ok (limits_sources (px s)) pc'" using h(2) by (simp add: step_ok_def)
    with call_step_publishes [of "limits_sources (px s)" "c_env c" "c_request c" d v
        "\<lparr>proxy = px s, wire = c_sent c, hung_up = sys_hung s\<rparr>"] move v
    have "pc' = Answered" by simp
    moreover have "event_recorded (event_of (c_env c) (c_request c) v) (px s) (proxy s')"
      using h(2) v by (simp add: step_ok_def)
    ultimately show ?thesis
      using published config
      by (cases "int (length (buffer (events (px s)))) < capacity (events (px s))")
        (rule events_keep [OF assms(1)] events_drop [OF assms(1)]; simp add: missing_def event_recorded_def)+
  qed
qed

lemma events_step:
  assumes "proxy_step w s s'" and "events_ok s" and "calls_ok s" and "shared_ok s" and "listeners_ok s"
  shows "events_ok s'"
  using assms
proof (induction rule: proxy_step.induct)
  case (start_listens s p)
  then have "events p = events (px s)" "dropped p = dropped (px s)" "drop_callbacks p = drop_callbacks (px s)"
    "config p = config (px s)"
    by (auto simp: listen_def split: if_splits)
  then show ?case by (intro events_keep [OF start_listens.prems(1)]) (simp_all add: missing_def)
next
  case (handler_moves i s c pc d pc' s')
  then show ?case by (intro events_moves)
next
  case (stop_moves s s')
  then show ?case by (intro events_stop [of s s'])
next
  case (event_read s ev ch)
  then have "buffer (events (px s)) = ev # buffer ch" by (auto simp: recv_def split: list.splits if_splits)
  then show ?case by (intro events_keep [OF event_read.prems(1)]) (simp_all add: missing_def)
qed (simp_all add: events_ok_def missing_def UpdateFilter_def UpdateFallbackUpstreams_def count_update published_def)

lemma life_start: "life_ok (new_sys cfg now)"
proof -
  have "proxy_ok (open_events (New cfg now))"
    using New_ok [of cfg now] open_events_ok [of "New cfg now"] by (simp add: proxy_ok_def)
  then show ?thesis
    by (simp add: life_ok_def new_sys_def listeners_ok_def servers_ok_def shared_ok_def calls_ok_def events_ok_def
        missing_def gone_def has_server_def New_def make_chan_def Let_def split: net.split)
qed

lemma life_step:
  assumes "proxy_step True s s'" and "life_ok s" and "\<not> stop_early s'"
  shows "life_ok s'"
  using assms servers_step listeners_step shared_step calls_step events_step
  unfolding life_ok_def by blast

lemma reachable_life_ok: "proxy_reachable True cfg now s \<Longrightarrow> \<not> stop_early s \<Longrightarrow> life_ok s"
proof (induction rule: proxy_reachable.induct)
  case made
  show ?case by (rule life_start)
next
  case (moved s s')
  then show ?case using step_early life_step by blast
qed

text \<open>The configuration stays.\<close>

lemma config_step:
  assumes "proxy_step w s s'" and "calls_ok s" and "shared_ok s" and "listeners_ok s"
  shows "config (px s') = config (px s)"
  using assms
proof (induction rule: proxy_step.induct)
  case (start_listens s p)
  then show ?case by (auto simp: listen_def split: if_splits)
next
  case (handler_moves i s c pc d pc' s')
  from handler_moves_ok(2) [OF handler_moves.prems(3,2,1) handler_moves.hyps(1,2,3,6)] show ?case
    by (simp add: step_ok_def keeps_def same_frame_def)
next
  case (stop_moves s s')
  from stop_moves.hyps show ?case by (cases rule: stop_step_cases) simp_all
qed (simp_all add: UpdateFilter_def UpdateFallbackUpstreams_def)

lemma reachable_config: "proxy_reachable True cfg now s \<Longrightarrow> \<not> stop_early s \<Longrightarrow> config (px s) = config (New cfg now)"
proof (induction rule: proxy_reachable.induct)
  case made
  then show ?case by (simp add: new_sys_def)
next
  case (moved s s')
  then have early: "\<not> stop_early s" using step_early by blast
  with reachable_life_ok [OF moved.hyps(1)] config_step [OF moved.hyps(2)] moved.IH show ?case
    by (simp add: life_ok_def)
qed

lemma events_account:
  assumes "events_ok s"
  shows "\<exists>lost. length (consumed s) + length (buffer (events (px s))) + lost = length (filter published (calls s)) \<and>
    DroppedEvents (px s) mod 2 ^ 64 = int lost mod 2 ^ 64 \<and>
    (OnEventDrop (config (px s)) \<longrightarrow> drop_callbacks (px s) = lost)"
proof (intro exI [of _ "nat (missing s)"] conjI impI)
  show "length (consumed s) + length (buffer (events (px s))) + nat (missing s) = length (filter published (calls s))"
    using assms unfolding events_ok_def missing_def by linarith
qed (use assms in \<open>auto simp: events_ok_def DroppedEvents_def\<close>)

text \<open>After a graceful stop.\<close>

lemma stopped_gracefully:
  assumes "proxy_reachable True cfg now s" and "\<not> stop_early s" and "stop_at s = StopDone"
  shows "\<forall>n. listeners s n = Absent \<or> listeners s n = Down"
    and "\<forall>c \<in> set (calls s). c_pc c = HandlerDone \<and> (\<exists>m. c_sent c = [m])"
    and "inFlight s = 0" and "filter published (calls s) = calls s"
proof -
  have ok: "life_ok s" by (rule reachable_life_ok [OF assms(1,2)])
  then show down: "\<forall>n. listeners s n = Absent \<or> listeners s n = Down"
    using assms(3) by (simp add: life_ok_def listeners_ok_def)
  then have "at_rest (listeners s n)" for n by (auto simp: at_rest_def)
  with ok have "gone n s" for n by (simp add: life_ok_def listeners_ok_def)
  then have left: "c_pc c = HandlerDone" if "c \<in> set (calls s)" for c using that by (simp add: gone_def)
  have "\<exists>m. c_sent c = [m]" if "c \<in> set (calls s)" for c
  proof -
    have "call_ok (limits_sources (px s)) c" using ok that by (simp add: life_ok_def calls_ok_def)
    with left [OF that] show ?thesis by (simp add: call_ok_def)
  qed
  with left show "\<forall>c \<in> set (calls s). c_pc c = HandlerDone \<and> (\<exists>m. c_sent c = [m])" by blast
  have "filter running (calls s) = []"
    using left by (auto simp: filter_empty_conv running_def)
  with ok show "inFlight s = 0" by (simp add: life_ok_def calls_ok_def)
  show "filter published (calls s) = calls s" using left by (auto simp: filter_id_conv published_def)
qed

subsection \<open>Nothing is lost and nothing fails\<close>

text \<open>
  C3.  While listeners, handlers of queries, updates, the reader of the events and \<open>Stop\<close> interleave in
  any way, and unless \<open>Stop\<close> came too early: no handler panics, \<open>Stop\<close> closes the event channel once,
  \<open>inFlight\<close> counts the handlers that run, the event buffer keeps within its capacity, every
  handler has sent no reply or one, and every query answered has left one event, which was
  read, waits in the channel or was dropped and counted (by a counter of 64 bits).
\<close>

theorem proxy_life_invariant:
  assumes "proxy_reachable True cfg now s" and "\<not> stop_early s"
  shows "(\<forall>c \<in> set (calls s). c_pc c \<noteq> Running Panicked \<and> length (c_sent c) \<le> 1) \<and>
    (chan_closed (events (px s)) \<longleftrightarrow> stop_at s = StopDone) \<and> stop_at s \<noteq> StopPanicked \<and>
    inFlight s = int (length (filter running (calls s))) \<and>
    int (length (buffer (events (px s)))) \<le> capacity (events (px s)) \<and>
    (\<exists>lost. length (consumed s) + length (buffer (events (px s))) + lost = length (filter published (calls s)) \<and>
       DroppedEvents (px s) mod 2 ^ 64 = int lost mod 2 ^ 64)"
proof -
  have ok: "life_ok s" by (rule reachable_life_ok [OF assms])
  have "c_pc c \<noteq> Running Panicked \<and> length (c_sent c) \<le> 1" if "c \<in> set (calls s)" for c
  proof -
    have "call_ok (limits_sources (px s)) c" using ok that by (simp add: life_ok_def calls_ok_def)
    then show ?thesis
      by (auto simp: call_ok_def one_reply_def pc_ok_def split: handler_pc.splits if_splits)
  qed
  moreover have "\<exists>lost. length (consumed s) + length (buffer (events (px s))) + lost = length (filter published (calls s)) \<and>
       DroppedEvents (px s) mod 2 ^ 64 = int lost mod 2 ^ 64"
    using events_account [of s] ok by (auto simp: life_ok_def)
  ultimately show ?thesis
    using ok by (simp add: life_ok_def shared_ok_def calls_ok_def proxy_ok_def open_events_def)
qed

text \<open>
  C7.  A stop that does not come too early is graceful: when \<open>Stop\<close> has returned, both servers are
  down, every query that arrived has been answered exactly once and its handler has ended, and
  each of these queries has left one event, read, waiting in the closed channel or dropped.
\<close>

theorem graceful_stop:
  assumes "proxy_reachable True cfg now s" and "\<not> stop_early s" and "stop_at s = StopDone"
  shows "(\<forall>n. listeners s n = Absent \<or> listeners s n = Down) \<and>
    (\<forall>c \<in> set (calls s). c_pc c = HandlerDone \<and> (\<exists>m. c_sent c = [m])) \<and> inFlight s = 0 \<and>
    (\<exists>lost. length (consumed s) + length (buffer (events (px s))) + lost = length (calls s) \<and>
       DroppedEvents (px s) mod 2 ^ 64 = int lost mod 2 ^ 64)"
  using stopped_gracefully [OF assms] events_account [of s] reachable_life_ok [OF assms(1,2)]
  by (auto simp: life_ok_def)

end
