(* ===== verification/ProxyShutdown.thy ===== *)
theory ProxyShutdown
  imports ProxyLife
begin

section \<open>Stopping the proxy\<close>

text \<open>
  Runs of the proxy and its environment: a handler can always be run to its end, \<open>Stop\<close> can always
  be brought to its end (\<open>stop_completes\<close>), run alone it is the function \<open>Stop\<close> of theory \<open>Proxy\<close>
  (\<open>stop_undisturbed\<close>), and a stop that comes before the servers listen leaves a proxy whose
  handlers panic (\<open>early_stop_panics\<close>).
\<close>

subsection \<open>Runs\<close>

abbreviation proxy_run :: "proxy_sys \<Rightarrow> proxy_sys \<Rightarrow> bool" where
  "proxy_run \<equiv> (proxy_step True)\<^sup>*\<^sup>*"

lemma proxy_run_reachable:
  "proxy_run s s' \<Longrightarrow> proxy_reachable True cfg now s \<Longrightarrow> proxy_reachable True cfg now s'"
  by (induction rule: rtranclp_induct) (auto intro: proxy_reachable.moved)

lemma with_call_again [simp]:
  "with_call i c ((with_call i b s)\<lparr>px := p, sys_hung := h\<rparr>) = (with_call i c s)\<lparr>px := p, sys_hung := h\<rparr>"
  by (simp add: with_call_def)

text \<open>A handler that nobody disturbs.\<close>

lemma handler_runs:
  assumes "i < length (calls s)" and "c = calls s ! i" and "c_pc c = Running pc"
    and "run_alone k (c_env c) (c_request c) (pc, \<lparr>proxy = px s, wire = c_sent c, hung_up = sys_hung s\<rparr>) = (pc', s')"
  shows "proxy_run s ((with_call i (c\<lparr>c_pc := Running pc', c_sent := wire s'\<rparr>) s)
    \<lparr>px := proxy s', sys_hung := hung_up s'\<rparr>)"
  using assms
proof (induction k arbitrary: s c pc)
  case 0
  then have "(with_call i (c\<lparr>c_pc := Running pc', c_sent := wire s'\<rparr>) s)\<lparr>px := proxy s', sys_hung := hung_up s'\<rparr> = s"
    by (cases s; cases c) (auto simp: with_call_def list_update_same_conv)
  then show ?case by simp
next
  case (Suc k)
  let ?q = "\<lparr>proxy = px s, wire = c_sent c, hung_up = sys_hung s\<rparr>"
  obtain pc1 s1 where st: "call_step (c_env c) (c_request c) undisturbed pc ?q = (pc1, s1)"
    by (cases "call_step (c_env c) (c_request c) undisturbed pc ?q")
  let ?c1 = "c\<lparr>c_pc := Running pc1, c_sent := wire s1\<rparr>"
  let ?s1 = "(with_call i ?c1 s)\<lparr>px := proxy s1, sys_hung := hung_up s1\<rparr>"
  have run: "run_alone k (c_env c) (c_request c)
      (pc1, \<lparr>proxy = proxy s1, wire = wire s1, hung_up = hung_up s1\<rparr>) = (pc', s')"
    using Suc.prems(4) st by (cases s1) simp
  have "proxy_run ?s1 ((with_call i (?c1\<lparr>c_pc := Running pc', c_sent := wire s'\<rparr>) ?s1)
      \<lparr>px := proxy s', sys_hung := hung_up s'\<rparr>)"
    using Suc.prems(1) run by (intro Suc.IH) simp_all
  then have rest: "proxy_run ?s1 ((with_call i (c\<lparr>c_pc := Running pc', c_sent := wire s'\<rparr>) s)
      \<lparr>px := proxy s', sys_hung := hung_up s'\<rparr>)"
    by (simp add: with_call_def)
  show ?case
  proof (cases "pc = Answered \<or> pc = Panicked")
    case True
    then have "pc1 = pc" "s1 = ?q" using st by auto
    then have "?s1 = s" using Suc.prems by (cases s; cases c) (auto simp: with_call_def list_update_same_conv)
    with rest show ?thesis by simp
  next
    case False
    with Suc.prems(1,2,3) st have "proxy_step True s ?s1" by (intro proxy_step.handler_moves) simp_all
    from this rest show ?thesis by (rule converse_rtranclp_into_rtranclp)
  qed
qed

lemma run_alone_frame: "outer_frame (proxy (snd c)) (proxy (snd (run_alone k e q c)))"
proof (induction k arbitrary: c)
  case 0
  show ?case by simp
next
  case (Suc k)
  from Suc.IH [of "call_step e q undisturbed (fst c) (snd c)"] call_step_frame [of "snd c" e q undisturbed "fst c"]
  show ?case by (simp add: outer_frame_def)
qed

lemma run_alone_ends:
  "work (fallbacks s) pc \<le> k \<Longrightarrow>
     fst (run_alone k e q (pc, s)) = Answered \<or> fst (run_alone k e q (pc, s)) = Panicked"
proof (induction k arbitrary: pc s)
  case 0
  then show ?case by (cases pc) simp_all
next
  case (Suc k)
  let ?c = "call_step e q undisturbed pc s"
  have "work (fallbacks s) (fst ?c) \<le> k"
  proof (cases "pc = Answered \<or> pc = Panicked")
    case True
    then show ?thesis by auto
  next
    case False
    with work_decreases [of s "fallbacks s" pc e q undisturbed] Suc.prems show ?thesis by simp
  qed
  moreover have "fallbacks (snd ?c) = fallbacks s" using call_step_frame [of s e q undisturbed pc]
    by (simp add: outer_frame_def)
  ultimately show ?case using Suc.IH [of "snd ?c" "fst ?c"] by simp
qed

text \<open>On a closed channel a handler that runs cannot have published.\<close>

lemma closed_not_answered:
  assumes "chan_closed (events (proxy s))" and "pc \<noteq> Answered"
  shows "fst (call_step e q d pc s) \<noteq> Answered"
proof
  assume "fst (call_step e q d pc s) = Answered"
  from call_step_answered [OF this] assms(2) obtain v where "pc = Publishing v" by blast
  with assms(1) \<open>fst (call_step e q d pc s) = Answered\<close> show False
    by (simp add: publishStep_def publishEvent_def trySend_def)
qed

lemma run_alone_closed:
  "chan_closed (events (proxy s)) \<Longrightarrow> pc \<noteq> Answered \<Longrightarrow> fst (run_alone k e q (pc, s)) \<noteq> Answered"
proof (induction k arbitrary: pc s)
  case 0
  then show ?case by simp
next
  case (Suc k)
  let ?c = "call_step e q undisturbed pc s"
  have "chan_closed (events (proxy (snd ?c)))"
    using call_step_frame [of s e q undisturbed pc] Suc.prems(1) by (simp add: outer_frame_def)
  with Suc.IH [of "snd ?c" "fst ?c"] closed_not_answered [OF Suc.prems] show ?case by simp
qed

text \<open>Every handler that runs can be run to its end, by its own steps.\<close>

lemma handler_ends:
  assumes "i < length (calls s)" and "c = calls s ! i" and "c_pc c = Running pc"
  obtains pc' and s' :: query_state where "pc' = Answered \<or> pc' = Panicked" "outer_frame (px s) (proxy s')"
    "chan_closed (events (px s)) \<Longrightarrow> pc \<noteq> Answered \<Longrightarrow> pc' = Panicked"
    "proxy_run s ((with_call i (c\<lparr>c_pc := Running pc', c_sent := wire s'\<rparr>) s)
       \<lparr>px := proxy s', sys_hung := hung_up s'\<rparr>)"
proof -
  let ?q = "\<lparr>proxy = px s, wire = c_sent c, hung_up = sys_hung s\<rparr>"
  let ?k = "work (fallbacks ?q) pc"
  obtain pc' s' where r: "run_alone ?k (c_env c) (c_request c) (pc, ?q) = (pc', s')"
    by (cases "run_alone ?k (c_env c) (c_request c) (pc, ?q)")
  have "pc' = Answered \<or> pc' = Panicked"
    using run_alone_ends [of ?q pc ?k "c_env c" "c_request c"] unfolding r by simp
  moreover have "outer_frame (px s) (proxy s')"
    using run_alone_frame [of "(pc, ?q)" ?k "c_env c" "c_request c"] unfolding r by simp
  moreover have "pc' \<noteq> Answered" if "chan_closed (events (px s))" "pc \<noteq> Answered"
    using run_alone_closed [of ?q pc ?k "c_env c" "c_request c"] that unfolding r by simp
  ultimately show thesis using handler_runs [OF assms r] by (intro that [of pc' s']) blast+
qed

subsection \<open>A stop that comes too early\<close>

text \<open>The end of \<open>Stop\<close>, once both servers have been dealt with and no handler runs.\<close>

definition stopped_sys :: "proxy_sys \<Rightarrow> proxy_sys" where
  "stopped_sys s =
     s\<lparr>px := (px s)\<lparr>conn_pool := fst (Close (conn_pool (px s))),
         events := (events (px s))\<lparr>chan_closed := True\<rparr>\<rparr>,
       sys_hung := sys_hung s @ snd (Close (conn_pool (px s))), stop_at := StopDone\<rparr>"

lemma stop_run: "stop_step s = Some s' \<Longrightarrow> proxy_run s' t \<Longrightarrow> proxy_run s t"
  using proxy_step.stop_moves [of s s' True] by (rule converse_rtranclp_into_rtranclp)

lemma stop_tail:
  assumes "stop_at s = ClosingPool" and "inFlight s = 0" and "\<not> chan_closed (events (px s))"
  shows "proxy_run s (stopped_sys s)"
proof -
  obtain po cs where c: "Close (conn_pool (px s)) = (po, cs)" by (cases "Close (conn_pool (px s))")
  let ?s1 = "s\<lparr>px := (px s)\<lparr>conn_pool := po\<rparr>, sys_hung := sys_hung s @ cs, stop_at := AwaitingHandlers\<rparr>"
  let ?s2 = "?s1\<lparr>stop_at := ClosingEvents\<rparr>"
  have "stop_step s = Some ?s1" using assms(1) c by (simp add: stop_step_def)
  moreover have "stop_step ?s1 = Some ?s2" using assms(2) by (simp add: stop_step_def)
  moreover have "stop_step ?s2 = Some (stopped_sys s)"
    using assms(3) c by (simp add: stop_step_def stopped_sys_def)
  ultimately show ?thesis by (blast intro: stop_run)
qed

text \<open>
  C18.  Stopping too early leaves a proxy that panics: whatever the configuration and whatever the
  query, \<open>Stop\<close> can come after \<open>Start\<close> has created the servers and before one listens; it
  returns, having closed the event channel, and the server goes on to listen, hands the query
  to a handler, and the handler panics at the latest when it publishes its event.
\<close>

theorem early_stop_panics:
  "\<exists>s c. proxy_reachable True cfg now s \<and> stop_at s = StopDone \<and> listeners s Udp = Serving \<and>
     c \<in> set (calls s) \<and> c_env c = e \<and> c_request c = q \<and> c_pc c = Running Panicked"
proof -
  let ?p0 = "New cfg now"
  let ?p1 = "?p0\<lparr>udp_server := True, tcp_server := True\<rparr>"
  let ?s0 = "new_sys cfg now"
  have p0: "\<not> udp_server ?p0" "\<not> tcp_server ?p0" "\<not> chan_closed (events ?p0)"
    by (simp_all add: New_def make_chan_def Let_def)
  define s1 where "s1 = ?s0\<lparr>px := ?p1, listeners := (\<lambda>_. Created), start_at := Waiting\<rparr>"
  define s2 where "s2 = s1\<lparr>stop_has := has_server (px s1), px := ?p0\<lparr>stopped := True\<rparr>, stop_early := True,
    stop_at := ClosingPool\<rparr>"
  have "proxy_step True ?s0 s1"
    using proxy_step.start_listens [of ?s0 ?p1 True] p0 by (simp add: s1_def new_sys_def listen_def)
  moreover have "proxy_run s1 s2"
  proof -
    let ?b = "s1\<lparr>stop_has := has_server (px s1), px := ?p0\<lparr>stopped := True\<rparr>, stop_at := ShuttingDown Udp\<rparr>"
    let ?u = "?b\<lparr>stop_early := True, stop_at := ShuttingDown Tcp\<rparr>"
    have "has_server (px s1) = (\<lambda>_. True)"
      by (simp add: s1_def has_server_def fun_eq_iff split: net.split)
    moreover have "stop_step s1 = Some ?b"
      using p0 by (simp add: stop_step_def s1_def new_sys_def has_server_def [abs_def])
    moreover have "stop_step ?b = Some ?u"
      using calculation(1) by (simp add: stop_step_def s1_def after_server_def)
    moreover have "stop_step ?u = Some s2"
      using calculation(1) by (simp add: stop_step_def s1_def s2_def after_server_def)
    ultimately show ?thesis by (blast intro: stop_run)
  qed
  moreover have "proxy_run s2 (stopped_sys s2)"
    using p0 by (intro stop_tail) (simp_all add: s2_def s1_def new_sys_def)
  ultimately have stop: "proxy_run ?s0 (stopped_sys s2)" by simp
  let ?c = "\<lparr>c_env = e, c_request = q, c_net = Udp, c_pc = Arrived, c_sent = []\<rparr>"
  let ?s3 = "stopped_sys s2"
  let ?s4 = "?s3\<lparr>listeners := (listeners ?s3)(Udp := Serving)\<rparr>"
  let ?s5 = "?s4\<lparr>calls := calls ?s4 @ [?c]\<rparr>"
  let ?c6 = "?c\<lparr>c_pc := Running ChargingGlobal\<rparr>"
  let ?s6 = "(with_call 0 ?c6 ?s5)\<lparr>inFlight := inFlight ?s5 + 1\<rparr>"
  have fields: "listeners ?s3 = (\<lambda>_. Created)" "calls ?s3 = []" "stop_at ?s3 = StopDone"
      "chan_closed (events (px ?s3))"
    by (simp_all add: stopped_sys_def s2_def s1_def new_sys_def)
  have "proxy_step True ?s3 ?s4" using fields(1) by (intro proxy_step.bound) simp
  moreover have "proxy_step True ?s4 ?s5" by (rule proxy_step.query_arrives) simp
  moreover have "proxy_step True ?s5 ?s6"
    using proxy_step.handler_enters [of 0 ?s5 ?c True] fields(2) by simp
  ultimately have run: "proxy_run ?s0 ?s6" using stop by simp
  have i: "0 < length (calls ?s6)" "?c6 = calls ?s6 ! 0" "c_pc ?c6 = Running ChargingGlobal"
    using fields(2) by simp_all
  show ?thesis
  proof (rule handler_ends [OF i])
    fix pc' and s' :: query_state
    let ?s7 = "(with_call 0 (?c6\<lparr>c_pc := Running pc', c_sent := wire s'\<rparr>) ?s6)
       \<lparr>px := proxy s', sys_hung := hung_up s'\<rparr>"
    assume "chan_closed (events (px ?s6)) \<Longrightarrow> ChargingGlobal \<noteq> Answered \<Longrightarrow> pc' = Panicked"
    then have pc: "pc' = Panicked" using fields(4) by simp
    assume "proxy_run ?s6 ?s7"
    with run have "proxy_run ?s0 ?s7" by simp
    from proxy_run_reachable [OF this proxy_reachable.made] have "proxy_reachable True cfg now ?s7" .
    then show ?thesis using pc fields(2,3)
      by (intro exI [of _ ?s7] exI [of _ "?c6\<lparr>c_pc := Running pc', c_sent := wire s'\<rparr>"]) simp
  qed
qed

subsection \<open>Stopping comes to an end\<close>

lemma run_life: "proxy_run s s' \<Longrightarrow> life_ok s \<Longrightarrow> \<not> stop_early s' \<Longrightarrow> life_ok s'"
  by (induction rule: rtranclp_induct) (use life_step step_early in blast)+

definition unfinished :: "proxy_sys \<Rightarrow> nat" where
  "unfinished s = length (filter (\<lambda>c. c_pc c \<noteq> HandlerDone) (calls s))"

text \<open>\<open>s'\<close> is \<open>s\<close> but for the work of handlers.\<close>

definition same_stop :: "proxy_sys \<Rightarrow> proxy_sys \<Rightarrow> bool" where
  "same_stop s s' \<longleftrightarrow>
     stop_at s' = stop_at s \<and> listeners s' = listeners s \<and> stop_early s' = stop_early s \<and>
     stop_has s' = stop_has s \<and> start_at s' = start_at s"

lemma unfinished_call:
  assumes "i < length (calls s)" and "c_pc (calls s ! i) \<noteq> HandlerDone" and "c_pc c' = HandlerDone"
  shows "unfinished ((with_call i c' s)\<lparr>px := p, sys_hung := h, inFlight := k\<rparr>) < unfinished s"
proof -
  have "int (unfinished ((with_call i c' s)\<lparr>px := p, sys_hung := h, inFlight := k\<rparr>)) = int (unfinished s) - 1"
    using assms by (simp add: unfinished_def count_update)
  then show ?thesis by linarith
qed

lemma running_finishes:
  assumes "life_ok s" and "\<not> stop_early s" and "i < length (calls s)" and "c = calls s ! i" and "c_pc c = Running pc"
  shows "\<exists>s'. proxy_run s s' \<and> same_stop s s' \<and> unfinished s' < unfinished s"
proof (rule handler_ends [OF assms(3-5)])
  fix pc' and s' :: query_state
  let ?c1 = "c\<lparr>c_pc := Running pc', c_sent := wire s'\<rparr>"
  let ?s1 = "(with_call i ?c1 s)\<lparr>px := proxy s', sys_hung := hung_up s'\<rparr>"
  let ?s2 = "(with_call i (?c1\<lparr>c_pc := HandlerDone\<rparr>) ?s1)\<lparr>inFlight := inFlight ?s1 - 1\<rparr>"
  assume pc: "pc' = Answered \<or> pc' = Panicked" and run: "proxy_run s ?s1"
  have "life_ok ?s1" by (rule run_life [OF run assms(1)]) (use assms(2) in simp)
  moreover have "?c1 \<in> set (calls ?s1)" using assms(3) by (simp add: set_update_memI)
  ultimately have "call_ok (limits_sources (px ?s1)) ?c1" by (simp add: life_ok_def calls_ok_def)
  then have "pc' = Answered" using pc by (auto simp: call_ok_def pc_ok_def)
  then have "proxy_step True ?s1 ?s2"
    using proxy_step.handler_leaves [of i ?s1 ?c1 True] assms(3) by simp
  with run have "proxy_run s ?s2" by simp
  moreover have "same_stop s ?s2" by (simp add: same_stop_def)
  moreover have "unfinished ?s2 < unfinished s"
    using unfinished_call [of i s "?c1\<lparr>c_pc := HandlerDone\<rparr>" "inFlight s - 1" "hung_up s'" "proxy s'"]
      assms(3-5)
    by (simp add: unfinished_def)
  ultimately show ?thesis by blast
qed

lemma handler_finishes:
  assumes "life_ok s" and "\<not> stop_early s" and "i < length (calls s)" and "c_pc (calls s ! i) \<noteq> HandlerDone"
  shows "\<exists>s'. proxy_run s s' \<and> same_stop s s' \<and> unfinished s' < unfinished s"
proof (cases "c_pc (calls s ! i)")
  case HandlerDone
  with assms(4) show ?thesis by simp
next
  case (Running pc)
  with assms running_finishes [of s i "calls s ! i" pc] show ?thesis by simp
next
  case Arrived
  let ?c = "(calls s ! i)\<lparr>c_pc := Running ChargingGlobal\<rparr>"
  let ?s1 = "(with_call i ?c s)\<lparr>inFlight := inFlight s + 1\<rparr>"
  have st: "proxy_step True s ?s1"
    using proxy_step.handler_enters [of i s "calls s ! i" True] assms(3) Arrived by simp
  have "life_ok ?s1" by (rule life_step [OF st assms(1)]) (use assms(2) in simp)
  from running_finishes [OF this, of i ?c ChargingGlobal] assms(2,3) obtain s' where
    s': "proxy_run ?s1 s'" "same_stop ?s1 s'" "unfinished s' < unfinished ?s1"
    by auto
  have "int (unfinished ?s1) = int (unfinished s)"
    using assms(3) Arrived by (simp add: unfinished_def count_update)
  with s' st show ?thesis
    by (intro exI [of _ s']) (auto simp: same_stop_def intro: converse_rtranclp_into_rtranclp)
qed

lemma handlers_finish:
  assumes "life_ok s" and "\<not> stop_early s"
  shows "\<exists>s'. proxy_run s s' \<and> same_stop s s' \<and> unfinished s' = 0"
  using assms
proof (induction "unfinished s" arbitrary: s rule: less_induct)
  case less
  show ?case
  proof (cases "unfinished s = 0")
    case True
    then show ?thesis by (intro exI [of _ s]) (simp add: same_stop_def)
  next
    case False
    then obtain i where "i < length (calls s)" "c_pc (calls s ! i) \<noteq> HandlerDone"
      by (auto simp: unfinished_def filter_empty_conv in_set_conv_nth)
    from handler_finishes [OF less.prems this] obtain s1 where
      s1: "proxy_run s s1" "same_stop s s1" "unfinished s1 < unfinished s" by blast
    have early: "\<not> stop_early s1" using s1(2) less.prems(2) by (simp add: same_stop_def)
    from less.hyps [OF s1(3) run_life [OF s1(1) less.prems(1) early] early] obtain s2 where
      "proxy_run s1 s2" "same_stop s1 s2" "unfinished s2 = 0" by blast
    with s1 show ?thesis by (intro exI [of _ s2]) (auto simp: same_stop_def)
  qed
qed

text \<open>With every handler gone, \<open>Stop\<close> gets past a server.\<close>

lemma all_gone: "unfinished s = 0 \<Longrightarrow> gone n s"
  by (simp add: unfinished_def gone_def filter_empty_conv)

definition past_server :: "net \<Rightarrow> proxy_sys \<Rightarrow> proxy_sys \<Rightarrow> bool" where
  "past_server n s s' \<longleftrightarrow>
     stop_at s' = after_server n \<and> \<not> stop_early s' \<and> calls s' = calls s \<and> px s' = px s \<and>
     sys_hung s' = sys_hung s \<and> inFlight s' = inFlight s"

lemma pastI: "proxy_run s s' \<Longrightarrow> past_server n s s' \<Longrightarrow> \<exists>t. proxy_run s t \<and> past_server n s t"
  by blast

lemma server_awaited:
  assumes "unfinished s = 0" and "\<not> stop_early s" and "stop_at s = AwaitingDown n"
    and "listeners s n = Down \<or> (\<exists>err. listeners s n = Closing err)"
  shows "\<exists>s'. proxy_run s s' \<and> past_server n s s'"
proof (cases "listeners s n = Down")
  case True
  then have "stop_step s = Some (s\<lparr>stop_at := after_server n\<rparr>)" using assms(3) by (simp add: stop_step_def)
  from stop_run [OF this rtranclp.rtrancl_refl] show ?thesis
    by (rule pastI) (use assms(2) in \<open>simp add: past_server_def\<close>)
next
  case False
  with assms(4) obtain err where l: "listeners s n = Closing err" by blast
  let ?s1 = "s\<lparr>listeners := (listeners s)(n := Down), errCh := report n err (errCh s)\<rparr>"
  have 1: "proxy_step True s ?s1"
    using proxy_step.server_down [OF l, of True] all_gone [OF assms(1)] by simp
  have "stop_step ?s1 = Some (?s1\<lparr>stop_at := after_server n\<rparr>)" using assms(3) by (simp add: stop_step_def)
  from converse_rtranclp_into_rtranclp [OF 1 stop_run [OF this rtranclp.rtrancl_refl]] show ?thesis
    by (rule pastI) (use assms(2) in \<open>simp add: past_server_def\<close>)
qed

lemma unfinished_same:
  "calls s' = calls s \<Longrightarrow> unfinished s' = unfinished s"
  by (simp add: unfinished_def)

lemma server_shut:
  assumes "unfinished s = 0" and "\<not> stop_early s" and "stop_at s = ShuttingDown n"
  shows "\<exists>s'. proxy_run s s' \<and> past_server n s s'"
proof -
  have await: "\<exists>t. proxy_run s t \<and> past_server n s t"
    if "proxy_run s s1" "stop_at s1 = AwaitingDown n" "\<exists>err. listeners s1 n = Closing err"
      "calls s1 = calls s" "px s1 = px s" "\<not> stop_early s1" "sys_hung s1 = sys_hung s"
      "inFlight s1 = inFlight s" for s1
  proof -
    have "unfinished s1 = 0" using unfinished_same [OF that(4)] assms(1) by simp
    then have "\<exists>t. proxy_run s1 t \<and> past_server n s1 t"
      by (rule server_awaited) (use that(2,3,6) in simp_all)
    then obtain t where t: "proxy_run s1 t" "past_server n s1 t" by (elim exE conjE)
    show ?thesis
      by (rule pastI [OF rtranclp_trans [OF that(1) t(1)]]) (use t(2) that(4,5,7,8) in \<open>simp add: past_server_def\<close>)
  qed
  have serving: "\<exists>t. proxy_run s t \<and> past_server n s t"
    if "proxy_run s s1" "listeners s1 n = Serving" "stop_has s1 n" "stop_at s1 = ShuttingDown n"
      "calls s1 = calls s" "px s1 = px s" "\<not> stop_early s1" "sys_hung s1 = sys_hung s"
      "inFlight s1 = inFlight s" for s1
  proof -
    let ?t = "s1\<lparr>listeners := (listeners s1)(n := Closing None), stop_at := AwaitingDown n\<rparr>"
    have "stop_step s1 = Some ?t" using that by (simp add: stop_step_def)
    from rtranclp_trans [OF that(1) stop_run [OF this rtranclp.rtrancl_refl]] have "proxy_run s ?t" .
    then show ?thesis by (rule await) (use that in simp_all)
  qed
  have pass: "\<exists>t. proxy_run s t \<and> past_server n s t"
    if "stop_step s = Some (s\<lparr>stop_at := after_server n\<rparr>)"
    by (rule pastI [OF stop_run [OF that rtranclp.rtrancl_refl]])
      (use assms(2) in \<open>simp add: past_server_def\<close>)
  show ?thesis
  proof (cases "stop_has s n")
    case False
    with assms(3) show ?thesis by (intro pass) (simp add: stop_step_def)
  next
    case True
    show ?thesis
    proof (cases "listeners s n")
      case Serving
      with True assms(2,3) show ?thesis by (intro serving [of s]) simp_all
    next
      case Created
      let ?t = "s\<lparr>listeners := (listeners s)(n := Serving)\<rparr>"
      have "proxy_run s ?t" using proxy_step.bound [OF Created, of True] by simp
      then show ?thesis by (rule serving) (use True assms(2,3) in simp_all)
    next
      case (Closing err)
      then have "stop_step s = Some (s\<lparr>stop_at := AwaitingDown n\<rparr>)"
        using True assms(3) by (simp add: stop_step_def)
      from stop_run [OF this rtranclp.rtrancl_refl] show ?thesis
        by (rule await) (use Closing assms(2) in simp_all)
    qed (use True assms(3) in \<open>simp_all add: stop_step_def pass\<close>)
  qed
qed

text \<open>\<open>Stop\<close> from the first server on, from the second on, from the pool on.\<close>

lemma doneI:
  "proxy_run s t \<Longrightarrow> stop_at t = StopDone \<Longrightarrow> \<not> stop_early t \<Longrightarrow>
     \<exists>t. proxy_run s t \<and> stop_at t = StopDone \<and> \<not> stop_early t"
  by blast

lemma pool_on:
  assumes "life_ok s" and "\<not> stop_early s" and "unfinished s = 0"
    and "stop_at s = ClosingPool \<or> stop_at s = AwaitingHandlers \<or> stop_at s = ClosingEvents"
  shows "\<exists>s'. proxy_run s s' \<and> stop_at s' = StopDone \<and> \<not> stop_early s'"
proof -
  have none: "inFlight s = 0" using assms(1,3)
    by (auto simp: life_ok_def calls_ok_def unfinished_def filter_empty_conv running_def)
  have open': "\<not> chan_closed (events (px s))" using assms(1,4) by (auto simp: life_ok_def shared_ok_def)
  let ?t = "\<lambda>s. s\<lparr>px := (px s)\<lparr>events := (events (px s))\<lparr>chan_closed := True\<rparr>\<rparr>, stop_at := StopDone\<rparr>"
  have closing: "proxy_run s (?t s)" if "stop_at s = ClosingEvents" "\<not> chan_closed (events (px s))" for s
    by (rule stop_run [OF _ rtranclp.rtrancl_refl]) (use that in \<open>simp add: stop_step_def\<close>)
  have awaiting: "proxy_run s (?t (s\<lparr>stop_at := ClosingEvents\<rparr>))"
    if "stop_at s = AwaitingHandlers" "\<not> chan_closed (events (px s))" "inFlight s = 0" for s
    by (rule stop_run [OF _ closing]) (use that in \<open>simp_all add: stop_step_def\<close>)
  from assms(4) show ?thesis
  proof (elim disjE)
    assume "stop_at s = ClosingPool"
    from stop_tail [OF this none open'] show ?thesis
      by (rule doneI) (use assms(2) in \<open>simp_all add: stopped_sys_def\<close>)
  next
    assume "stop_at s = AwaitingHandlers"
    from awaiting [OF this open' none] show ?thesis by (rule doneI) (use assms(2) in simp_all)
  next
    assume "stop_at s = ClosingEvents"
    from closing [OF this open'] show ?thesis by (rule doneI) (use assms(2) in simp_all)
  qed
qed

lemma past_life:
  assumes "proxy_run s s'" and "past_server n s s'" and "life_ok s" and "unfinished s = 0"
  shows "life_ok s' \<and> \<not> stop_early s' \<and> unfinished s' = 0"
  using assms(2,4) run_life [OF assms(1,3)] unfinished_same [of s' s] by (auto simp: past_server_def)

lemma stop_continues:
  assumes "proxy_run s s'" and "\<exists>t. proxy_run s' t \<and> stop_at t = StopDone \<and> \<not> stop_early t"
  shows "\<exists>t. proxy_run s t \<and> stop_at t = StopDone \<and> \<not> stop_early t"
  using assms rtranclp_trans [OF assms(1)] by blast

lemma tcp_on:
  assumes "life_ok s" and "\<not> stop_early s" and "unfinished s = 0"
    and "stop_at s = ShuttingDown Tcp \<or> stop_at s = AwaitingDown Tcp"
  shows "\<exists>s'. proxy_run s s' \<and> stop_at s' = StopDone \<and> \<not> stop_early s'"
proof -
  have "stop_at s = AwaitingDown Tcp \<Longrightarrow> listeners s Tcp = Down \<or> (\<exists>err. listeners s Tcp = Closing err)"
    using assms(1) by (simp add: life_ok_def listeners_ok_def)
  then have "\<exists>s'. proxy_run s s' \<and> past_server Tcp s s'"
    using server_shut [OF assms(3,2)] server_awaited [OF assms(3,2)] assms(4) by (elim disjE) simp_all
  then obtain s1 where s1: "proxy_run s s1" "past_server Tcp s s1" by (elim exE conjE)
  from past_life [OF s1 assms(1,3)] pool_on [of s1] s1(2)
  have "\<exists>t. proxy_run s1 t \<and> stop_at t = StopDone \<and> \<not> stop_early t"
    by (simp add: past_server_def after_server_def)
  with s1(1) show ?thesis by (rule stop_continues)
qed

lemma udp_on:
  assumes "life_ok s" and "\<not> stop_early s" and "unfinished s = 0"
    and "stop_at s = ShuttingDown Udp \<or> stop_at s = AwaitingDown Udp"
  shows "\<exists>s'. proxy_run s s' \<and> stop_at s' = StopDone \<and> \<not> stop_early s'"
proof -
  have "stop_at s = AwaitingDown Udp \<Longrightarrow> listeners s Udp = Down \<or> (\<exists>err. listeners s Udp = Closing err)"
    using assms(1) by (simp add: life_ok_def listeners_ok_def)
  then have "\<exists>s'. proxy_run s s' \<and> past_server Udp s s'"
    using server_shut [OF assms(3,2)] server_awaited [OF assms(3,2)] assms(4) by (elim disjE) simp_all
  then obtain s1 where s1: "proxy_run s s1" "past_server Udp s s1" by (elim exE conjE)
  from past_life [OF s1 assms(1,3)] tcp_on [of s1] s1(2)
  have "\<exists>t. proxy_run s1 t \<and> stop_at t = StopDone \<and> \<not> stop_early t"
    by (simp add: past_server_def after_server_def)
  with s1(1) show ?thesis by (rule stop_continues)
qed

lemma quiet_stop:
  assumes "life_ok s" and "\<not> stop_early s" and "unfinished s = 0"
  shows "\<exists>s'. proxy_run s s' \<and> stop_at s' = StopDone \<and> \<not> stop_early s'"
proof (cases "stop_at s")
  case NotStopped
  let ?s1 = "s\<lparr>stop_has := has_server (px s),
    px := (px s)\<lparr>stopped := True, udp_server := False, tcp_server := False\<rparr>, stop_at := ShuttingDown Udp\<rparr>"
  have st: "stop_step s = Some ?s1"
    using NotStopped by (simp add: stop_step_def has_server_def [abs_def])
  have l1: "life_ok ?s1" by (rule life_step [OF proxy_step.stop_moves [OF st] assms(1)]) (use assms(2) in simp)
  have u1: "unfinished ?s1 = 0" using assms(3) by (simp add: unfinished_def)
  have "\<exists>t. proxy_run ?s1 t \<and> stop_at t = StopDone \<and> \<not> stop_early t"
    by (rule udp_on [OF l1 _ u1]) (use assms(2) in simp_all)
  with stop_run [OF st rtranclp.rtrancl_refl] show ?thesis by (rule stop_continues)
next
  case (ShuttingDown n)
  with assms show ?thesis by (cases n) (simp_all add: udp_on tcp_on)
next
  case (AwaitingDown n)
  with assms show ?thesis by (cases n) (simp_all add: udp_on tcp_on)
next
  case StopDone
  with assms(2) show ?thesis by blast
next
  case StopPanicked
  with assms(1) show ?thesis by (simp add: life_ok_def shared_ok_def)
qed (use assms in \<open>simp_all add: pool_on\<close>)

text \<open>
  C16.  Stopping always comes to an end: from every state the proxy can reach (unless a stop came too
  early), whatever handlers and servers are doing, there is a way on to the end of \<open>Stop\<close>, which
  is graceful; nothing it waits for can be missing forever.
\<close>

theorem stop_completes:
  assumes "proxy_reachable True cfg now s" and "\<not> stop_early s"
  shows "\<exists>s'. proxy_run s s' \<and> stop_at s' = StopDone \<and> \<not> stop_early s' \<and> proxy_reachable True cfg now s'"
proof -
  have "life_ok s" by (rule reachable_life_ok [OF assms])
  from handlers_finish [OF this assms(2)] obtain s1 where
    s1: "proxy_run s s1" "same_stop s s1" "unfinished s1 = 0" by blast
  then have "\<not> stop_early s1" using assms(2) by (simp add: same_stop_def)
  moreover from this have "life_ok s1" using run_life [OF s1(1) \<open>life_ok s\<close>] by simp
  ultimately have "\<exists>t. proxy_run s1 t \<and> stop_at t = StopDone \<and> \<not> stop_early t"
    using quiet_stop s1(3) by simp
  with s1(1) have "\<exists>t. proxy_run s t \<and> stop_at t = StopDone \<and> \<not> stop_early t" by (rule stop_continues)
  with proxy_run_reachable [OF _ assms(1)] show ?thesis by blast
qed

subsection \<open>Stop alone\<close>

text \<open>
  \<open>Stop\<close> as one function and \<open>Stop\<close> step by step agree: when no handler runs, the steps of the first
  \<open>Stop\<close> and of the servers it waits for lead to the proxy that the function returns, with the
  same connections hung up.
\<close>

theorem stop_undisturbed:
  assumes "Stop (px s) = Some (p', eff)" and "\<not> stopped (px s)" and "stop_at s = NotStopped"
    and "\<not> stop_early s" and "\<forall>c \<in> set (calls s). c_pc c = HandlerDone" and "inFlight s = 0"
  shows "\<exists>s'. proxy_run s s' \<and> stop_at s' = StopDone \<and> px s' = p' \<and> sys_hung s' = sys_hung s @ stop_closed eff"
proof -
  let ?p1 = "(px s)\<lparr>stopped := True, udp_server := False, tcp_server := False\<rparr>"
  let ?s1 = "s\<lparr>stop_has := has_server (px s), px := ?p1, stop_at := ShuttingDown Udp\<rparr>"
  have begins: "stop_step s = Some ?s1" using assms(3) by (simp add: stop_step_def has_server_def [abs_def])
  have u0: "unfinished s = 0" using assms(5) by (simp add: unfinished_def filter_empty_conv)
  have "unfinished ?s1 = 0" using u0 by (simp add: unfinished_def)
  from server_shut [OF this, of Udp] assms(4) obtain s2 where
    s2: "proxy_run ?s1 s2" "past_server Udp ?s1 s2" by auto
  have "unfinished s2 = 0" using s2(2) u0 by (simp add: past_server_def unfinished_def)
  from server_shut [OF this, of Tcp] s2(2) obtain s3 where
    s3: "proxy_run s2 s3" "past_server Tcp s2 s3" by (auto simp: past_server_def after_server_def)
  have at3: "stop_at s3 = ClosingPool" "inFlight s3 = 0" "px s3 = ?p1" "sys_hung s3 = sys_hung s"
    using s2(2) s3(2) assms(6) by (simp_all add: past_server_def after_server_def)
  obtain po cs where c: "Close (conn_pool (px s)) = (po, cs)" by (cases "Close (conn_pool (px s))")
  have open': "\<not> chan_closed (events (px s))"
    using assms(1,2) c by (auto simp: Stop_def Let_def split: if_splits)
  have "proxy_run s3 (stopped_sys s3)" by (rule stop_tail) (use at3 open' in simp_all)
  from stop_run [OF begins rtranclp_trans [OF s2(1) rtranclp_trans [OF s3(1) this]]]
  have "proxy_run s (stopped_sys s3)" .
  moreover have "px (stopped_sys s3) = p'" "sys_hung (stopped_sys s3) = sys_hung s @ stop_closed eff"
    using assms(1,2) c open' at3 by (auto simp: Stop_def stopped_sys_def Let_def)
  ultimately show ?thesis by (intro exI [of _ "stopped_sys s3"]) (simp add: stopped_sys_def)
qed

subsection \<open>Instances\<close>

text \<open>A proxy that has been started and that a query has reached.\<close>

lemma query_reaches:
  "\<exists>s. proxy_reachable True cfg now s \<and> \<not> stop_early s \<and> length (calls s) = 1"
proof -
  let ?s0 = "new_sys cfg now"
  let ?p1 = "(New cfg now)\<lparr>udp_server := True, tcp_server := True\<rparr>"
  let ?s1 = "?s0\<lparr>px := ?p1, listeners := (\<lambda>_. Created), start_at := Waiting\<rparr>"
  let ?s2 = "?s1\<lparr>listeners := (listeners ?s1)(Udp := Serving)\<rparr>"
  let ?c = "\<lparr>c_env = sample_env 0 (Inl ''down''), c_request = sample_msg 0, c_net = Udp, c_pc = Arrived, c_sent = []\<rparr>"
  let ?s3 = "?s2\<lparr>calls := calls ?s2 @ [?c]\<rparr>"
  have 1: "proxy_step True ?s0 ?s1"
    using proxy_step.start_listens [of ?s0 ?p1 True] by (simp add: new_sys_def listen_def New_def Let_def)
  have 2: "proxy_step True ?s1 ?s2" by (rule proxy_step.bound) simp
  have 3: "proxy_step True ?s2 ?s3" by (rule proxy_step.query_arrives) simp
  note proxy_reachable.moved [OF proxy_reachable.moved [OF proxy_reachable.moved [OF proxy_reachable.made 1] 2] 3]
  then show ?thesis by (intro exI [of _ ?s3]) (simp add: new_sys_def)
qed

lemma calls_grow: "proxy_run s s' \<Longrightarrow> length (calls s) \<le> length (calls s')"
proof (induction rule: rtranclp_induct)
  case (step s' s'')
  have "length (calls s') \<le> length (calls s'')"
    using step.hyps(2)
  proof (induction rule: proxy_step.induct)
    case (stop_moves s s')
    then show ?case by (cases rule: stop_step_cases) simp_all
  qed simp_all
  with step.IH show ?case by simp
qed simp

lemma query_served:
  "\<exists>s. proxy_reachable True cfg now s \<and> \<not> stop_early s \<and> stop_at s = StopDone \<and> 1 \<le> length (calls s)"
proof -
  obtain s where s: "proxy_reachable True cfg now s" "\<not> stop_early s" "length (calls s) = 1"
    using query_reaches by blast
  have ok: "life_ok s" by (rule reachable_life_ok [OF s(1,2)])
  from handlers_finish [OF ok s(2)] obtain s1 where
    s1: "proxy_run s s1" "same_stop s s1" "unfinished s1 = 0" by blast
  have e1: "\<not> stop_early s1" using s1(2) s(2) by (simp add: same_stop_def)
  from quiet_stop [OF run_life [OF s1(1) ok e1] e1 s1(3)] obtain s2 where
    s2: "proxy_run s1 s2" "stop_at s2 = StopDone" "\<not> stop_early s2" by blast
  have run: "proxy_run s s2" using s1(1) s2(1) by simp
  from proxy_run_reachable [OF run s(1)] calls_grow [OF run] s(3) s2 show ?thesis by auto
qed

lemma proxy_life_invariant_witness:
  "\<exists>s :: proxy_sys. length (calls s) = 1 \<and> (\<forall>c \<in> set (calls s). c_pc c \<noteq> Running Panicked) \<and> stop_at s \<noteq> StopPanicked"
proof -
  obtain s where "proxy_reachable True (sample_limits 1) 0 s" "\<not> stop_early s" "length (calls s) = 1"
    using query_reaches by blast
  with proxy_life_invariant [of "sample_limits 1" 0 s] show ?thesis by blast
qed

lemma graceful_stop_witness:
  "\<exists>s :: proxy_sys. stop_at s = StopDone \<and> 1 \<le> length (calls s) \<and> (\<forall>c \<in> set (calls s). \<exists>m. c_sent c = [m]) \<and> inFlight s = 0"
proof -
  obtain s where "proxy_reachable True (sample_limits 1) 0 s" "\<not> stop_early s" "stop_at s = StopDone"
    "1 \<le> length (calls s)"
    using query_served by blast
  with graceful_stop [of "sample_limits 1" 0 s] show ?thesis by blast
qed

lemma stop_completes_witness:
  "\<exists>s s'. length (calls s) = 1 \<and> proxy_run s s' \<and> stop_at s' = StopDone"
proof -
  obtain s where "proxy_reachable True (sample_limits 1) 0 s" "\<not> stop_early s" "length (calls s) = 1"
    using query_reaches by blast
  with stop_completes [of "sample_limits 1" 0 s] show ?thesis by blast
qed

lemma stop_undisturbed_witness:
  "\<exists>s' p' eff. Stop (New (sample_limits 1) 0) = Some (p', eff) \<and> proxy_run (new_sys (sample_limits 1) 0) s' \<and>
     stop_at s' = StopDone \<and> px s' = p'"
proof -
  let ?s = "new_sys (sample_limits 1) 0"
  have new: "px ?s = New (sample_limits 1) 0" "\<not> stopped (px ?s)" "\<not> chan_closed (events (px ?s))"
    by (simp_all add: new_sys_def New_def make_chan_def Let_def)
  obtain po cs where "Close (conn_pool (px ?s)) = (po, cs)" by (cases "Close (conn_pool (px ?s))")
  with new(2,3) obtain p' eff where st: "Stop (px ?s) = Some (p', eff)" by (auto simp: Stop_def Let_def)
  with stop_undisturbed [OF st new(2)] new(1) show ?thesis by (auto simp: new_sys_def)
qed

end
