(* ===== verification/MetricsRegistry.thy ===== *)
theory MetricsRegistry
  imports Metrics
begin

section \<open>Registering the metrics\<close>

text \<open>
  \<open>NewCollector\<close> of \<open>pkg/metrics/collector.go\<close>: the metric each field of the collector holds, and
  their registration.  The registry is the Prometheus client's; what the code relies on is its
  documented behaviour: \<open>MustRegister\<close> panics unless each metric is accepted, and a metric is
  accepted when its description is valid and no registered one has its name
  (\<open>registry_documented\<close>).  A vector panics when it is asked for a child with another number of
  label values than it has labels.

  That no operation on a metric can panic is \<open>metric_ops_typed\<close>, that \<open>NewCollector\<close> does not is
  \<open>new_collector_registers\<close>.
\<close>

subsection \<open>The model\<close>

datatype metric_field =
    M_QueriesTotal
  | M_QueriesByType
  | M_CacheHitsTotal
  | M_CacheMissesTotal
  | M_UpstreamQueriesTotal
  | M_UpstreamLatencySeconds
  | M_UpstreamFailuresTotal
  | M_UpstreamHealthy
  | M_NXDomainTotal
  | M_ServfailTotal
  | M_TimeoutTotal
  | M_AgentUp
  | M_AgentConfigReloadTotal
  | M_AgentConfigReloadErrorsTotal
  | M_AgentEngineRecoveryAttemptsTotal
  | M_AgentEngineRecoverySuccessTotal
  | M_AgentEngineRecoveryErrorsTotal
  | M_ProxyDroppedEventsTotal
  | M_FanOutDroppedEventsTotal
  | M_ComponentErrorBufferOverflowsTotal
  | M_DeniedQueriesTotal
  | M_StaleCacheServesTotal

datatype metric_kind = CounterKind | GaugeKind | HistogramKind "f64 list"

record metric_desc =
  metric_name :: string
  metric_help :: string
  metric_kind :: metric_kind
  metric_labels :: "string list"

abbreviation describe :: "string \<Rightarrow> string \<Rightarrow> metric_kind \<Rightarrow> string list \<Rightarrow> metric_desc" where
  "describe n h k ls \<equiv> \<lparr>metric_name = n, metric_help = h, metric_kind = k, metric_labels = ls\<rparr>"

definition latency_buckets :: "f64 list" where
  "latency_buckets = map rnd [1 / 1000, 5 / 1000, 1 / 100, 25 / 1000, 5 / 100, 1 / 10, 25 / 100, 5 / 10, 1]"

fun metric_of :: "metric_field \<Rightarrow> metric_desc" where
  "metric_of M_QueriesTotal =
     describe ''astradns_queries_total''
       ''Total number of DNS queries observed by the proxy.'' CounterKind []"
| "metric_of M_QueriesByType =
     describe ''astradns_queries_by_type''
       ''Total number of DNS queries by query type.'' CounterKind [''qtype'']"
| "metric_of M_CacheHitsTotal =
     describe ''astradns_cache_hits_total''
       ''Total number of cache hits.'' CounterKind []"
| "metric_of M_CacheMissesTotal =
     describe ''astradns_cache_misses_total''
       ''Total number of cache misses.'' CounterKind []"
| "metric_of M_UpstreamQueriesTotal =
     describe ''astradns_upstream_queries_total''
       ''Total number of upstream queries by upstream target.'' CounterKind [''upstream'']"
| "metric_of M_UpstreamLatencySeconds =
     describe ''astradns_upstream_latency_seconds''
       ''Latency of upstream DNS responses in seconds.'' (HistogramKind latency_buckets) [''upstream'']"
| "metric_of M_UpstreamFailuresTotal =
     describe ''astradns_upstream_failures_total''
       ''Total number of upstream failures.'' CounterKind [''upstream'']"
| "metric_of M_UpstreamHealthy =
     describe ''astradns_upstream_healthy''
       ''Health status of upstream resolvers (1=healthy, 0=unhealthy).'' GaugeKind [''upstream'']"
| "metric_of M_NXDomainTotal =
     describe ''astradns_nxdomain_total''
       ''Total number of NXDOMAIN responses.'' CounterKind []"
| "metric_of M_ServfailTotal =
     describe ''astradns_servfail_total''
       ''Total number of SERVFAIL responses.'' CounterKind []"
| "metric_of M_TimeoutTotal =
     describe ''astradns_timeout_total''
       ''Total number of upstream timeout responses.'' CounterKind [''upstream'']"
| "metric_of M_AgentUp =
     describe ''astradns_agent_up''
       ''Whether the AstraDNS agent process is up (1) or down (0).'' GaugeKind []"
| "metric_of M_AgentConfigReloadTotal =
     describe ''astradns_agent_config_reload_total''
       ''Total number of attempted config reloads.'' CounterKind []"
| "metric_of M_AgentConfigReloadErrorsTotal =
     describe ''astradns_agent_config_reload_errors_total''
       ''Total number of failed config reloads.'' CounterKind []"
| "metric_of M_AgentEngineRecoveryAttemptsTotal =
     describe ''astradns_agent_engine_recovery_attempts_total''
       ''Total number of engine recovery attempts.'' CounterKind []"
| "metric_of M_AgentEngineRecoverySuccessTotal =
     describe ''astradns_agent_engine_recovery_success_total''
       ''Total number of successful engine recoveries.'' CounterKind []"
| "metric_of M_AgentEngineRecoveryErrorsTotal =
     describe ''astradns_agent_engine_recovery_errors_total''
       ''Total number of failed engine recoveries.'' CounterKind []"
| "metric_of M_ProxyDroppedEventsTotal =
     describe ''astradns_proxy_dropped_events_total''
       ''Total number of query events dropped by the proxy pipeline.'' CounterKind []"
| "metric_of M_FanOutDroppedEventsTotal =
     describe ''astradns_fanout_dropped_events_total''
       ''Total number of query events dropped while fanning out to workers.'' CounterKind []"
| "metric_of M_ComponentErrorBufferOverflowsTotal =
     describe ''astradns_component_error_buffer_overflows_total''
       ''Total number of dropped component errors when the supervisor error channel is full.'' CounterKind []"
| "metric_of M_DeniedQueriesTotal =
     describe ''astradns_denied_queries_total''
       ''Total number of DNS queries denied by domain filter rules.'' CounterKind []"
| "metric_of M_StaleCacheServesTotal =
     describe ''astradns_stale_cache_serves_total''
       ''Total number of stale cache entries served when the engine was unreachable.'' CounterKind []"

definition registeredMetrics :: "metric_field list" where
  "registeredMetrics =
     [M_QueriesTotal,
      M_QueriesByType,
      M_CacheHitsTotal,
      M_CacheMissesTotal,
      M_UpstreamQueriesTotal,
      M_UpstreamLatencySeconds,
      M_UpstreamFailuresTotal,
      M_UpstreamHealthy,
      M_NXDomainTotal,
      M_ServfailTotal,
      M_TimeoutTotal,
      M_AgentUp,
      M_AgentConfigReloadTotal,
      M_AgentConfigReloadErrorsTotal,
      M_AgentEngineRecoveryAttemptsTotal,
      M_AgentEngineRecoverySuccessTotal,
      M_AgentEngineRecoveryErrorsTotal,
      M_ProxyDroppedEventsTotal,
      M_FanOutDroppedEventsTotal,
      M_ComponentErrorBufferOverflowsTotal,
      M_DeniedQueriesTotal,
      M_StaleCacheServesTotal]"

type_synonym registry = "metric_desc list"

fun mustRegister :: "(registry \<Rightarrow> metric_desc \<Rightarrow> bool) \<Rightarrow> registry \<Rightarrow> metric_desc list \<Rightarrow> registry option" where
  "mustRegister accepts r [] = Some r"
| "mustRegister accepts r (d # ds) = (if accepts r d then mustRegister accepts (r @ [d]) ds else None)"

text \<open>A nil registry is replaced by a new one.  \<open>AgentUp\<close> is set at once.\<close>

definition newCollector ::
  "(registry \<Rightarrow> metric_desc \<Rightarrow> bool) \<Rightarrow> registry option \<Rightarrow> (registry \<times> metric_op list) option" where
  "newCollector accepts registry =
     (let r = (case registry of None \<Rightarrow> [] | Some r \<Rightarrow> r) in
      case mustRegister accepts r (map metric_of registeredMetrics) of
        None \<Rightarrow> None
      | Some r' \<Rightarrow> Some (r', [SetAgentUp 1]))"

text \<open>The field an operation goes to, with the label values it gives.\<close>

fun counter_target :: "counter \<Rightarrow> metric_field \<times> string list" where
  "counter_target QueriesTotal = (M_QueriesTotal, [])"
| "counter_target (QueriesByType t) = (M_QueriesByType, [t])"
| "counter_target CacheHitsTotal = (M_CacheHitsTotal, [])"
| "counter_target CacheMissesTotal = (M_CacheMissesTotal, [])"
| "counter_target (UpstreamQueriesTotal u) = (M_UpstreamQueriesTotal, [u])"
| "counter_target (UpstreamFailuresTotal u) = (M_UpstreamFailuresTotal, [u])"
| "counter_target NXDomainTotal = (M_NXDomainTotal, [])"
| "counter_target ServfailTotal = (M_ServfailTotal, [])"
| "counter_target (TimeoutTotal u) = (M_TimeoutTotal, [u])"
| "counter_target AgentConfigReloadTotal = (M_AgentConfigReloadTotal, [])"
| "counter_target AgentConfigReloadErrorsTotal = (M_AgentConfigReloadErrorsTotal, [])"
| "counter_target AgentEngineRecoveryAttemptsTotal = (M_AgentEngineRecoveryAttemptsTotal, [])"
| "counter_target AgentEngineRecoverySuccessTotal = (M_AgentEngineRecoverySuccessTotal, [])"
| "counter_target AgentEngineRecoveryErrorsTotal = (M_AgentEngineRecoveryErrorsTotal, [])"
| "counter_target ProxyDroppedEventsTotal = (M_ProxyDroppedEventsTotal, [])"
| "counter_target FanOutDroppedEventsTotal = (M_FanOutDroppedEventsTotal, [])"
| "counter_target ComponentErrorBufferOverflowsTotal = (M_ComponentErrorBufferOverflowsTotal, [])"
| "counter_target DeniedQueriesTotal = (M_DeniedQueriesTotal, [])"
| "counter_target StaleCacheServesTotal = (M_StaleCacheServesTotal, [])"

fun op_target :: "metric_op \<Rightarrow> metric_field \<times> string list" where
  "op_target (Inc c) = counter_target c"
| "op_target (ObserveLatency u _) = (M_UpstreamLatencySeconds, [u])"
| "op_target (SetUpstreamHealthy u _) = (M_UpstreamHealthy, [u])"
| "op_target (SetAgentUp _) = (M_AgentUp, [])"

subsection \<open>Names and kinds\<close>

definition letter :: "char \<Rightarrow> bool" where
  "letter c \<longleftrightarrow> c \<in> set ''abcdefghijklmnopqrstuvwxyzABCDEFGHIJKLMNOPQRSTUVWXYZ''"

definition digit :: "char \<Rightarrow> bool" where
  "digit c \<longleftrightarrow> c \<in> set ''0123456789''"

definition valid_name :: "string \<Rightarrow> bool" where
  "valid_name n \<longleftrightarrow>
     n \<noteq> '''' \<and> \<not> digit (hd n) \<and>
     list_all (\<lambda>c. letter c \<or> digit c \<or> c = CHR ''_'' \<or> c = CHR '':'') n"

text \<open>A label may have no colon and must not begin with two underscores, which Prometheus reserves.\<close>

definition valid_label :: "string \<Rightarrow> bool" where
  "valid_label l \<longleftrightarrow> valid_name l \<and> CHR '':'' \<notin> set l \<and> take 2 l \<noteq> ''__''"

definition valid_desc :: "metric_desc \<Rightarrow> bool" where
  "valid_desc d \<longleftrightarrow>
     valid_name (metric_name d) \<and> list_all valid_label (metric_labels d) \<and> distinct (metric_labels d) \<and>
     (case metric_kind d of HistogramKind bs \<Rightarrow> sorted_wrt (<) bs \<and> ''le'' \<notin> set (metric_labels d) | _ \<Rightarrow> True)"

definition registry_documented :: "(registry \<Rightarrow> metric_desc \<Rightarrow> bool) \<Rightarrow> bool" where
  "registry_documented accepts \<longleftrightarrow>
     (\<forall>r d. valid_desc d \<longrightarrow> metric_name d \<notin> metric_name ` set r \<longrightarrow> accepts r d)"

lemma metrics_valid: "list_all valid_desc (map metric_of registeredMetrics)"
  by code_simp

lemma metric_names_distinct: "distinct (map (metric_name \<circ> metric_of) registeredMetrics)"
  by code_simp

lemma registered_all: "f \<in> set registeredMetrics"
  by (cases f) (simp_all add: registeredMetrics_def)

lemma mustRegister_accepts:
  assumes "registry_documented accepts" and "list_all valid_desc ds"
    and "distinct (map metric_name (r @ ds))"
  shows "mustRegister accepts r ds = Some (r @ ds)"
  using assms(2,3)
proof (induction ds arbitrary: r)
  case Nil
  then show ?case by simp
next
  case (Cons d ds)
  have "accepts r d" using assms(1) Cons.prems by (auto simp: registry_documented_def)
  with Cons.IH [of "r @ [d]"] Cons.prems show ?case by simp
qed

text \<open>
  Creating the collector never panics: given a registry as documented, with whatever metrics of
  other names in it, every metric of the collector is registered, in order, each under a name
  of its own, and the gauge that says the agent is up is set.
\<close>

theorem new_collector_registers:
  assumes "registry_documented accepts" and "distinct (map metric_name r)"
    and "metric_name ` set r \<inter> metric_name ` metric_of ` set registeredMetrics = {}"
  shows "newCollector accepts (Some r) = Some (r @ map metric_of registeredMetrics, [SetAgentUp 1])"
proof -
  have "distinct (map metric_name (r @ map metric_of registeredMetrics))"
    using assms(2,3) metric_names_distinct by (auto simp: distinct_map comp_def)
  from mustRegister_accepts [OF assms(1) metrics_valid this] show ?thesis by (simp add: newCollector_def)
qed

definition sample_registry :: "registry \<Rightarrow> metric_desc \<Rightarrow> bool" where
  "sample_registry r d \<longleftrightarrow> valid_desc d \<and> metric_name d \<notin> metric_name ` set r"

lemma new_collector_registers_witness:
  "\<exists>r. newCollector sample_registry (Some []) = Some (r, [SetAgentUp 1]) \<and> length r = 22"
  using new_collector_registers [of sample_registry "[]"]
  by (simp add: registry_documented_def sample_registry_def registeredMetrics_def)

text \<open>
  No use of a metric panics: every operation that the agent performs, on whatever label values,
  goes to a metric that is registered, and gives it as many label values as it has labels; a
  counter is only ever incremented, a gauge set, a histogram given observations.
\<close>

theorem metric_ops_typed:
  "fst (op_target op) \<in> set registeredMetrics \<and>
   length (snd (op_target op)) = length (metric_labels (metric_of (fst (op_target op)))) \<and>
   (case op of
      Inc _ \<Rightarrow> metric_kind (metric_of (fst (op_target op))) = CounterKind
    | ObserveLatency _ _ \<Rightarrow> metric_kind (metric_of (fst (op_target op))) = HistogramKind latency_buckets
    | SetUpstreamHealthy _ _ \<Rightarrow> metric_kind (metric_of (fst (op_target op))) = GaugeKind
    | SetAgentUp _ \<Rightarrow> metric_kind (metric_of (fst (op_target op))) = GaugeKind)"
proof (cases op)
  case (Inc c)
  then show ?thesis using registered_all by (cases c) simp_all
qed (use registered_all in simp_all)

end
