(* ===== verification/Pipeline.thy ===== *)
theory Pipeline
  imports AgentEnv ProxyShutdown FanOut Metrics QueryLogger
begin

section \<open>From a query to its metrics and its log record\<close>

text \<open>
  The pipeline that \<open>main\<close> of \<open>cmd/agent/main.go\<close> wires together: the proxy publishes an event per
  query on its channel, the fan-out copies it to the channels of the metrics collector and of the
  query logger, and each of the three counts what it has to drop.  At the end of the agent the
  proxy closes its channel, the fan-out reads what is left and closes the two others, and their
  readers drain them: none of them can end before.

  The three goroutines are the models of their theories; what composes them is that the events
  the fan-out receives are those the proxy sent, and that a consumer reads the channel the fan-out
  fills (\<open>consumers_fed\<close>).
\<close>

subsection \<open>The model\<close>

record pipeline_run =
  fan_trace :: "QueryEvent fan_step list"
  collector_trace :: "QueryEvent choice list"
  logger_trace :: "QueryEvent choice list"

record pipeline =
  fanned :: "QueryEvent fan"
  pipeline_ops :: "metric_op list"
  pipeline_log :: QueryLogger

text \<open>
  The operations on the metrics: those of the collector, and an increment for each event that the
  fan-out and the proxy had to drop.
\<close>

definition runPipeline :: "LoggerConfig \<Rightarrow> proxy_sys \<Rightarrow> pipeline_run \<Rightarrow> pipeline option" where
  "runPipeline lc s r =
     (case fanOut True (fan_trace r) (fresh_fan defaultWorkerBuffer 2) of
        None \<Rightarrow> None
      | Some f \<Rightarrow>
          Some \<lparr>fanned = f,
                pipeline_ops = fst (runCollector [SetAgentUp 1] (collector_trace r)) @
                  replicate (drops f) (Inc FanOutDroppedEventsTotal) @
                  replicate (drop_callbacks (px s)) (Inc ProxyDroppedEventsTotal),
                pipeline_log = fst (runLogger (newQueryLogger lc) (logger_trace r))\<rparr>)"

text \<open>The events that have left the channel of the proxy or will leave it.\<close>

definition proxy_events :: "proxy_sys \<Rightarrow> QueryEvent list" where
  "proxy_events s = consumed s @ buffer (events (px s))"

definition consumers_fed :: "proxy_sys \<Rightarrow> pipeline_run \<Rightarrow> QueryEvent fan \<Rightarrow> bool" where
  "consumers_fed s r f \<longleftrightarrow>
     events_of (fan_trace r) = proxy_events s \<and>
     delivered (collector_trace r) = given f 0 \<and> delivered (logger_trace r) = given f 1"

subsection \<open>Every query is accounted for\<close>

lemma fresh_fan_ok: "fan_ok [] (fresh_fan cap n)"
  by (simp add: fan_ok_def fresh_fan_def given_def make_chan_def)

lemma counted_replicate: "counted c (replicate n (Inc d)) = (if c = d then n else 0)"
  by (induction n) auto

lemma no_drops_counted:
  "counted FanOutDroppedEventsTotal (ProcessEvent ops ev) = counted FanOutDroppedEventsTotal ops + of_bool False"
  "counted ProxyDroppedEventsTotal (ProcessEvent ops ev) = counted ProxyDroppedEventsTotal ops + of_bool False"
  by (simp_all add: ProcessEvent_def Let_def)

lemmas collector_no_drops = no_drops_counted [THEN counted_fold]

lemma pipeline_counts:
  assumes "runPipeline lc s r = Some p" and "delivered (collector_trace r) = given (fanned p) 0"
  shows "counted QueriesTotal (pipeline_ops p) = length (given (fanned p) 0)"
    and "counted FanOutDroppedEventsTotal (pipeline_ops p) = drops (fanned p)"
    and "counted ProxyDroppedEventsTotal (pipeline_ops p) = drop_callbacks (px s)"
proof -
  have ops: "pipeline_ops p = foldl ProcessEvent [SetAgentUp 1] (given (fanned p) 0) @
      replicate (drops (fanned p)) (Inc FanOutDroppedEventsTotal) @
      replicate (drop_callbacks (px s)) (Inc ProxyDroppedEventsTotal)"
  proof (cases "fanOut True (fan_trace r) (fresh_fan defaultWorkerBuffer 2)")
    case None
    with assms(1) show ?thesis by (simp add: runPipeline_def)
  next
    case (Some f)
    with assms(1) have "p = \<lparr>fanned = f,
        pipeline_ops = foldl ProcessEvent [SetAgentUp 1] (delivered (collector_trace r)) @
          replicate (drops f) (Inc FanOutDroppedEventsTotal) @
          replicate (drop_callbacks (px s)) (Inc ProxyDroppedEventsTotal),
        pipeline_log = fst (runLogger (newQueryLogger lc) (logger_trace r))\<rparr>"
      by (simp add: runPipeline_def runCollector_def run_worker_eq)
    with assms(2) show ?thesis by (simp only: pipeline.simps)
  qed
  show "counted QueriesTotal (pipeline_ops p) = length (given (fanned p) 0)"
    by (simp add: ops counted_events(1) counted_replicate)
  show "counted FanOutDroppedEventsTotal (pipeline_ops p) = drops (fanned p)"
    by (simp add: ops collector_no_drops counted_replicate)
  show "counted ProxyDroppedEventsTotal (pipeline_ops p) = drop_callbacks (px s)"
    by (simp add: ops collector_no_drops counted_replicate)
qed

lemma new_OnEventDrop: "OnEventDrop (config (New cfg now)) = OnEventDrop cfg"
  by (simp add: New_def withDefaults_def Let_def)

text \<open>What the consumers are given is what the fan-out was given, less what it counts.\<close>

lemma fan_out_pair:
  "\<exists>f. fanOut True steps (fresh_fan cap 2) = Some f \<and> list_all chan_closed (outs f) \<and>
     subseq (given f 0) (events_of steps) \<and> subseq (given f 1) (events_of steps) \<and>
     length (given f 0) + length (given f 1) + drops f = 2 * length (events_of steps)"
proof -
  from fanOut_run [OF fresh_fan_ok [of cap 2], of steps] obtain f t where
    run: "fanOut True steps (fresh_fan cap 2) = Some f" and t: "fan_ok (events_of steps) t" "length (outs t) = 2"
    and f: "f = t\<lparr>outs := map (\<lambda>out. out\<lparr>chan_closed := True\<rparr>) (outs t)\<rparr>"
    by (auto simp: fresh_fan_def)
  have "given f i = given t i" if "i < 2" for i using that t(2) by (simp add: f given_def)
  then have "subseq (given f 0) (events_of steps)" "subseq (given f 1) (events_of steps)"
    "length (given f 0) + length (given f 1) + drops f = 2 * length (events_of steps)"
    using t by (simp_all add: fan_ok_def f numeral_2_eq_2)
  moreover have "list_all chan_closed (outs f)" by (simp add: f list_all_iff)
  ultimately show ?thesis using run by blast
qed

text \<open>
  C4.  Every query the agent has served shows up: for a proxy that reports its drops and has been
  stopped gracefully, no goroutine of the pipeline panics, and once the collector and the
  logger have read their channels to the end, each has got events of the proxy in their order,
  and nothing has got lost uncounted: the queries counted by the collector, those the logger
  decided on, and what the fan-out dropped for either, with what the proxy dropped for both, add
  up to every query once for each of them; a full log holds a record of every event the logger
  got.
\<close>

theorem pipeline_accounts:
  assumes "proxy_reachable True cfg now s" and "\<not> stop_early s" and "stop_at s = StopDone"
    and "OnEventDrop cfg"
  shows "\<exists>p. runPipeline lc s r = Some p \<and> list_all chan_closed (outs (fanned p)) \<and>
    (consumers_fed s r (fanned p) \<longrightarrow>
       subseq (delivered (collector_trace r)) (proxy_events s) \<and>
       subseq (delivered (logger_trace r)) (proxy_events s) \<and>
       counted QueriesTotal (pipeline_ops p) \<le> length (calls s) \<and>
       counted QueriesTotal (pipeline_ops p) + length (delivered (logger_trace r)) +
         counted FanOutDroppedEventsTotal (pipeline_ops p) + 2 * counted ProxyDroppedEventsTotal (pipeline_ops p) =
       2 * length (calls s) \<and>
       (Mode lc = LogModeFull \<longrightarrow> written (pipeline_log p) = map record_of (delivered (logger_trace r))))"
proof -
  from fan_out_pair [of "fan_trace r" defaultWorkerBuffer] obtain f where
    f: "fanOut True (fan_trace r) (fresh_fan defaultWorkerBuffer 2) = Some f" "list_all chan_closed (outs f)"
      "subseq (given f 0) (events_of (fan_trace r))" "subseq (given f 1) (events_of (fan_trace r))"
      "length (given f 0) + length (given f 1) + drops f = 2 * length (events_of (fan_trace r))" by blast
  then obtain p where p: "runPipeline lc s r = Some p" "fanned p = f"
      "pipeline_log p = fst (runLogger (newQueryLogger lc) (logger_trace r))"
    by (simp add: runPipeline_def)
  have "OnEventDrop (config (px s))"
    using reachable_config [OF assms(1,2)] assms(4) by (simp add: new_OnEventDrop)
  with events_account [of s] reachable_life_ok [OF assms(1,2)] stopped_gracefully(4) [OF assms(1-3)]
  have queries: "length (proxy_events s) + drop_callbacks (px s) = length (calls s)"
    by (auto simp: life_ok_def proxy_events_def)
  have full: "written (pipeline_log p) = map record_of (delivered (logger_trace r))" if "Mode lc = LogModeFull"
  proof -
    have m: "Mode (logger_config (newQueryLogger lc)) = LogModeFull"
      using that by (simp add: newQueryLogger_fields mode_defs)
    then have "Mode (logger_config (newQueryLogger lc)) \<noteq> LogModeSampled" by (simp add: mode_defs)
    from fixed_modes_select [OF this prod.collapse [symmetric], of "logger_trace r"]
    have "written (pipeline_log p) =
        map record_of (filter (fixed_mode_logs LogModeFull) (delivered (logger_trace r)))"
      by (simp only: p(3) m newQueryLogger_fields(1) append_Nil)
    moreover have "fixed_mode_logs LogModeFull ev" for ev by (simp add: fixed_mode_logs_def mode_defs)
    ultimately show ?thesis by simp
  qed
  show ?thesis
  proof (intro exI [of _ p] conjI impI)
    assume "consumers_fed s r (fanned p)"
    then have fed: "events_of (fan_trace r) = proxy_events s" "delivered (collector_trace r) = given f 0"
        "delivered (logger_trace r) = given f 1"
      by (simp_all add: consumers_fed_def p(2))
    note c = pipeline_counts [OF p(1), unfolded p(2), OF fed(2)]
    show "subseq (delivered (collector_trace r)) (proxy_events s)"
      "subseq (delivered (logger_trace r)) (proxy_events s)"
      using f fed by simp_all
    show "counted QueriesTotal (pipeline_ops p) \<le> length (calls s)"
      using c(1) f(3) fed(1) list_emb_length [of "(=)" "given f 0" "proxy_events s"] queries by simp
    show "counted QueriesTotal (pipeline_ops p) + length (delivered (logger_trace r)) +
        counted FanOutDroppedEventsTotal (pipeline_ops p) + 2 * counted ProxyDroppedEventsTotal (pipeline_ops p) =
        2 * length (calls s)"
      using c f(5) fed queries by simp
  qed (use p f full in simp_all)
qed

lemma delivered_all: "delivered (map choice.Event xs @ [Closed]) = xs"
  by (induction xs) simp_all

lemma events_of_all: "events_of (map fan_step.Event xs) = xs"
  by (induction xs) simp_all

lemma pipeline_accounts_witness:
  "\<exists>s r p. stop_at s = StopDone \<and> 1 \<le> length (calls s) \<and> consumers_fed s r (fanned p) \<and>
     runPipeline \<lparr>Mode = ''full'', SampleRate = 1\<rparr> s r = Some p \<and>
     counted QueriesTotal (pipeline_ops p) + length (written (pipeline_log p)) +
       counted FanOutDroppedEventsTotal (pipeline_ops p) + 2 * counted ProxyDroppedEventsTotal (pipeline_ops p) =
     2 * length (calls s)"
proof -
  let ?cfg = "(sample_limits 1)\<lparr>OnEventDrop := True\<rparr>"
  let ?lc = "\<lparr>Mode = ''full'', SampleRate = 1\<rparr>"
  obtain s where s: "proxy_reachable True ?cfg 0 s" "\<not> stop_early s" "stop_at s = StopDone" "1 \<le> length (calls s)"
    using query_served by blast
  let ?steps = "map fan_step.Event (proxy_events s)"
  from fan_out_pair [of ?steps defaultWorkerBuffer] obtain f where
    f: "fanOut True ?steps (fresh_fan defaultWorkerBuffer 2) = Some f" by blast
  let ?r = "\<lparr>fan_trace = ?steps, collector_trace = map choice.Event (given f 0) @ [Closed],
      logger_trace = map choice.Event (given f 1) @ [Closed]\<rparr>"
  have "OnEventDrop ?cfg" by simp
  from pipeline_accounts [OF s(1-3) this, of ?lc ?r] obtain p where p: "runPipeline ?lc s ?r = Some p"
    and sums: "consumers_fed s ?r (fanned p) \<longrightarrow>
       counted QueriesTotal (pipeline_ops p) + length (delivered (logger_trace ?r)) +
         counted FanOutDroppedEventsTotal (pipeline_ops p) + 2 * counted ProxyDroppedEventsTotal (pipeline_ops p) =
       2 * length (calls s) \<and>
       (Mode ?lc = LogModeFull \<longrightarrow> written (pipeline_log p) = map record_of (delivered (logger_trace ?r)))"
    by blast
  have "fanned p = f" using p f by (auto simp: runPipeline_def)
  then have fed: "consumers_fed s ?r (fanned p)"
    by (simp add: consumers_fed_def events_of_all delivered_all)
  have "Mode ?lc = LogModeFull" by (simp add: LogModeFull_def)
  with sums fed have "written (pipeline_log p) = map record_of (delivered (logger_trace ?r))" by blast
  then have "length (written (pipeline_log p)) = length (delivered (logger_trace ?r))" by simp
  with sums fed s p show ?thesis by (intro exI [of _ s] exI [of _ ?r] exI [of _ p]) simp
qed

end
