(* ===== verification/Tracing.thy ===== *)
theory Tracing
  imports AgentEnv GoErrors
begin

section \<open>Tracing\<close>

text \<open>
  \<open>pkg/tracing/tracing.go\<close> and its use at the beginning and the end of \<open>main\<close>.  The exporter, the
  resource and the tracer provider are OpenTelemetry's: making an exporter from its options and
  a resource from its attributes is an argument of \<open>Setup\<close> and may fail.  The global state of that
  library is the installed provider and propagator (\<open>otel\<close>), which \<open>Setup\<close> replaces.
\<close>

subsection \<open>The model\<close>

record trace_config =
  ServiceName :: string
  InstanceName :: string
  Endpoint :: string
  Insecure :: bool
  SampleRatio :: f64

datatype exporter_option = WithEndpoint string | WithInsecure

text \<open>A provider batches its spans to an exporter; its sampler follows the parent or takes a ratio.\<close>

record ('x, 'r) tracer_provider =
  provider_exporter :: 'x
  provider_resource :: 'r
  parent_based_ratio :: f64

datatype propagator = NoPropagator | TraceContext

record ('x, 'r) otel =
  global_provider :: "('x, 'r) tracer_provider option"
  global_propagator :: propagator

definition otel_start :: "('x, 'r) otel" where
  "otel_start = \<lparr>global_provider = None, global_propagator = NoPropagator\<rparr>"

record ('x, 'r) trace_lib =
  new_exporter :: "exporter_option list \<Rightarrow> go_error + 'x"
  new_resource :: "(string \<times> string) list \<Rightarrow> go_error + 'r"
  provider_shutdown :: "('x, 'r) tracer_provider \<Rightarrow> go_error option"

definition trace_defaults :: "trace_config \<Rightarrow> trace_config" where
  "trace_defaults cfg0 =
     (let cfg1 = (if ServiceName cfg0 = '''' then cfg0\<lparr>ServiceName := ''astradns-agent''\<rparr> else cfg0) in
      if SampleRatio cfg1 \<le> 0 \<or> 1 < SampleRatio cfg1 then cfg1\<lparr>SampleRatio := rnd (1 / 10)\<rparr> else cfg1)"

definition exporterOptions :: "trace_config \<Rightarrow> exporter_option list" where
  "exporterOptions cfg =
     (if Endpoint cfg \<noteq> '''' then [WithEndpoint (Endpoint cfg)] else []) @
     (if Insecure cfg then [WithInsecure] else [])"

text \<open>What \<open>Setup\<close> returns is the provider whose \<open>Shutdown\<close> it returns.\<close>

definition Setup ::
  "('x, 'r) trace_lib \<Rightarrow> trace_config \<Rightarrow> ('x, 'r) otel \<Rightarrow> (go_error + ('x, 'r) tracer_provider) \<times> ('x, 'r) otel" where
  "Setup otlp cfg0 g =
     (let cfg = trace_defaults cfg0 in
      case new_exporter otlp (exporterOptions cfg) of
        Inl err \<Rightarrow> (Inl (Wrapped ''create OTLP trace exporter: '' err), g)
      | Inr exporter \<Rightarrow>
          (case new_resource otlp
                  [(''service.name'', ServiceName cfg), (''service.instance.id'', InstanceName cfg)] of
             Inl err \<Rightarrow> (Inl (Wrapped ''create trace resource: '' err), g)
           | Inr res \<Rightarrow>
               (let provider = \<lparr>provider_exporter = exporter, provider_resource = res,
                      parent_based_ratio = SampleRatio cfg\<rparr>
                in (Inr provider,
                    g\<lparr>global_provider := Some provider, global_propagator := TraceContext\<rparr>))))"

text \<open>
  In \<open>main\<close>: \<open>traceShutdown\<close> is a function that does nothing (\<open>None\<close>) unless tracing is enabled and
  could be set up; a failure is only logged.
\<close>

definition traceConfigOf :: "runtimeConfig \<Rightarrow> trace_config" where
  "traceConfigOf cfg =
     \<lparr>ServiceName = TracingServiceName cfg, InstanceName = runtimeConfig.ListenAddr cfg,
      Endpoint = TracingEndpoint cfg, Insecure = TracingInsecure cfg, SampleRatio = TracingSampleRatio cfg\<rparr>"

definition startTracing ::
  "('x, 'r) trace_lib \<Rightarrow> runtimeConfig \<Rightarrow> ('x, 'r) otel \<Rightarrow> ('x, 'r) tracer_provider option \<times> ('x, 'r) otel" where
  "startTracing otlp cfg g =
     (if TracingEnabled cfg then
        (case Setup otlp (traceConfigOf cfg) g of
           (Inl _, g') \<Rightarrow> (None, g')
         | (Inr shutdown, g') \<Rightarrow> (Some shutdown, g'))
      else (None, g))"

definition traceShutdown :: "('x, 'r) trace_lib \<Rightarrow> ('x, 'r) tracer_provider option \<Rightarrow> go_error option" where
  "traceShutdown otlp shutdown = (case shutdown of None \<Rightarrow> None | Some provider \<Rightarrow> provider_shutdown otlp provider)"

subsection \<open>What is set up\<close>

lemma trace_defaults_ratio: "0 < SampleRatio (trace_defaults cfg) \<and> SampleRatio (trace_defaults cfg) \<le> 1"
proof -
  have "0 < rnd (1 / 10)" "rnd (1 / 10) \<le> 1" by code_simp+
  then show ?thesis by (auto simp: trace_defaults_def Let_def not_le not_less)
qed

lemma trace_defaults_name: "ServiceName (trace_defaults cfg) \<noteq> ''''"
  by (auto simp: trace_defaults_def Let_def)

text \<open>
  C40.  Tracing cannot keep the agent from running, and is set up whole or not at all: either it is
  disabled, or the library refused to make the exporter or the resource, and then nothing is
  installed and the shutdown at the end does nothing; or the provider installed is the one that is
  shut down at the end, it samples a positive share of at most all traces, and its service has
  a name, whatever the settings say.
\<close>

theorem tracing_whole_or_off:
  "case startTracing otlp cfg otel_start of
     (None, g) \<Rightarrow>
       g = otel_start \<and> traceShutdown otlp None = None \<and>
       (if TracingEnabled cfg
        then (\<exists>os err. new_exporter otlp os = Inl err) \<or> (\<exists>as err. new_resource otlp as = Inl err) else True)
   | (Some p, g) \<Rightarrow>
       TracingEnabled cfg \<and> global_provider g = Some p \<and> global_propagator g = TraceContext \<and>
       traceShutdown otlp (Some p) = provider_shutdown otlp p \<and>
       0 < parent_based_ratio p \<and> parent_based_ratio p \<le> 1 \<and>
       (\<exists>name. name \<noteq> '''' \<and> new_resource otlp
          [(''service.name'', name), (''service.instance.id'', runtimeConfig.ListenAddr cfg)] = Inr (provider_resource p))"
proof -
  have inst: "InstanceName (trace_defaults (traceConfigOf cfg)) = runtimeConfig.ListenAddr cfg"
    by (simp add: trace_defaults_def traceConfigOf_def Let_def)
  show ?thesis
    using trace_defaults_ratio [of "traceConfigOf cfg"] trace_defaults_name [of "traceConfigOf cfg"]
    by (auto simp: startTracing_def Setup_def traceShutdown_def Let_def inst split: sum.split)
qed

text \<open>
  A ratio of 0, which the settings accept and which asks for no trace to be sampled, is replaced
  by the default: a tenth of them is.
\<close>

lemma zero_ratio_samples:
  assumes "TracingEnabled cfg" and "TracingSampleRatio cfg = 0" and "startTracing otlp cfg g = (Some p, g')"
  shows "parent_based_ratio p = rnd (1 / 10)"
  using assms by (auto simp: startTracing_def Setup_def traceConfigOf_def trace_defaults_def Let_def
      split: sum.splits if_splits)

end
