(* ===== verification/AgentMain.thy ===== *)
theory AgentMain
  imports AgentProperties Tracing
begin

section \<open>The agent from its start to its exit\<close>

text \<open>
  What \<open>main\<close> of \<open>cmd/agent/main.go\<close> adds to its parts: which components it starts and how their
  results are taken, the audit records of a reload with the hashes of the configurations, and
  the end of the process.  Its engine is still called by the watcher and by the supervisor while
  \<open>main\<close> shuts it down: that no process of the engine is left behind is
  \<open>engine_stays_down\<close>.
\<close>

subsection \<open>The components\<close>

text \<open>
  The results of the components that can fail; the others return nil.  \<open>http.Server\<close> reports
  \<open>ErrServerClosed\<close> after a shutdown.
\<close>

record main_ends =
  proxy_result :: "go_error option"
  metrics_server_result :: "go_error option"
  health_server_result :: "go_error option"
  watcher_result :: "go_error option"

definition serverEnd :: "go_error option \<Rightarrow> go_error option" where
  "serverEnd err =
     (case err of
        None \<Rightarrow> None
      | Some e \<Rightarrow> if \<not> error_is e ErrServerClosed then Some e else None)"

text \<open>How \<open>startComponent\<close> takes what a component's function returns; \<open>txt\<close> is \<open>Error\<close> of an error.\<close>

definition fnEnd :: "(go_error \<Rightarrow> string) \<Rightarrow> go_error option \<Rightarrow> fn_end" where
  "fnEnd txt err =
     (case err of
        None \<Rightarrow> ReturnsNil
      | Some e \<Rightarrow> if error_is e Canceled then ReturnsCanceled else ReturnsError (txt e))"

definition mainComponents :: "(go_error \<Rightarrow> string) \<Rightarrow> bool \<Rightarrow> main_ends \<Rightarrow> (string \<times> fn_end) list" where
  "mainComponents txt diagnosticsRunner m =
     [(''proxy'', fnEnd txt (proxy_result m)),
      (''fanout'', ReturnsNil),
      (''metrics collector'', ReturnsNil),
      (''query logger'', ReturnsNil),
      (''health checker'', ReturnsNil)] @
     (if diagnosticsRunner then [(''diagnostics'', ReturnsNil)] else []) @
     [(''metrics server'', fnEnd txt (serverEnd (metrics_server_result m))),
      (''health server'', fnEnd txt (serverEnd (health_server_result m))),
      (''config watcher'', fnEnd txt (watcher_result m)),
      (''engine supervisor'', ReturnsNil)]"

text \<open>
  The end of the process: \<open>os.Exit\<close> does not run the deferred shutdown of tracing (\<open>None\<close>); a
  normal return does.
\<close>

definition endMain :: "string option \<Rightarrow> ('x, 'r) tracer_provider option \<Rightarrow> int \<times> ('x, 'r) tracer_provider option" where
  "endMain runErr tracing = (if runErr \<noteq> None then (1, None) else (0, tracing))"

lemma failing_exit_drops_spans: "endMain (Some err) (Some provider) = (1, None)"
  by (simp add: endMain_def)

text \<open>
  The components that the agent's own shutdown ends are no failures: when the servers report
  their close, the proxy and the watcher nothing or the end of the context, then in whatever
  order components have ended, there is no error to exit with.
\<close>

lemma shutdown_is_no_failure:
  assumes "\<forall>e. metrics_server_result m = Some e \<longrightarrow> error_is e ErrServerClosed"
    and "\<forall>e. health_server_result m = Some e \<longrightarrow> error_is e ErrServerClosed"
    and "\<forall>e. proxy_result m = Some e \<longrightarrow> error_is e Canceled"
    and "\<forall>e. watcher_result m = Some e \<longrightarrow> error_is e Canceled"
    and "set ends \<subseteq> set (mainComponents txt diag m)"
  shows "List.map_filter failure_of ends = []"
proof -
  have "failure_of c = None" if "c \<in> set (mainComponents txt diag m)" for c
    using that assms(1-4)
    by (auto simp: mainComponents_def fnEnd_def serverEnd_def failure_of_def split: option.splits if_splits)
  with assms(5) have "\<forall>c \<in> set ends. failure_of c = None" by auto
  then show ?thesis by (induction ends) (simp_all add: List.map_filter_def)
qed

subsection \<open>The audit of a reload\<close>

record audit =
  audit_status :: string
  before_hash :: string
  after_hash :: "string option"

text \<open>The hexadecimal SHA-256 of a text and the encoding as JSON are the standard library's.\<close>

definition hashEngineConfig :: "(EngineConfig \<Rightarrow> string option) \<Rightarrow> (string \<Rightarrow> string) \<Rightarrow> EngineConfig \<Rightarrow> string" where
  "hashEngineConfig marshal sha256 cfg =
     (case marshal cfg of None \<Rightarrow> '''' | Some bytes \<Rightarrow> sha256 bytes)"

text \<open>The records ``config reload audit'' that one reload writes (\<open>onReload\<close>).\<close>

definition reloadAudit ::
  "(EngineConfig \<Rightarrow> string) \<Rightarrow> engine_api \<Rightarrow> int \<Rightarrow> runtimeConfig \<Rightarrow> reload_run \<Rightarrow> agent \<Rightarrow> audit list" where
  "reloadAudit hash eng cpus cfg r a =
     (let beforeHash = hash (currentConfig a) in
      case loadEngineConfig (unmarshal r) (readFile r) cpus (ConfigFile cfg) (runtimeConfig.EngineAddr cfg) of
        Inl er \<Rightarrow> [\<lparr>audit_status = ''read_failed'', before_hash = beforeHash, after_hash = None\<rparr>]
      | Inr newConfig \<Rightarrow>
          (let afterHash = hash newConfig;
               entry = (\<lambda>status. \<lparr>audit_status = status, before_hash = beforeHash, after_hash = Some afterHash\<rparr>)
           in entry ''attempt'' #
             (case validateEngineConfig newConfig of
                Some er \<Rightarrow> [entry ''validation_failed'']
              | None \<Rightarrow>
                  (if beforeHash = afterHash then [entry ''no_change''] else []) @
                  (case applyConfigReload eng (apply_env r) newConfig (agent_engine a) of
                     (None, e1) \<Rightarrow> [entry ''applied'']
                   | (Some er, e1) \<Rightarrow>
                       if reload_ended r then [entry ''canceled'']
                       else (case applyConfigReload eng (rollback_env r) (currentConfig a) e1 of
                               (Some er', e2) \<Rightarrow> [entry ''rollback_failed'']
                             | (None, e2) \<Rightarrow> [entry ''rolled_back''])))))"

fun outcome_status :: "reload_error option \<Rightarrow> string" where
  "outcome_status None = ''applied''"
| "outcome_status (Some (ReloadReadFailed er)) = ''read_failed''"
| "outcome_status (Some (ReloadInvalid er)) = ''validation_failed''"
| "outcome_status (Some (ReloadCanceled er)) = ''canceled''"
| "outcome_status (Some (RollbackFailed er er')) = ''rollback_failed''"
| "outcome_status (Some (RolledBack er)) = ''rolled_back''"

text \<open>
  The audit log tells what happened: the last record of a reload has the status of its outcome,
  every record has the hash of the configuration in use before, and after a reload that was
  applied the last record has the hash of the configuration in use then; whatever is tried is
  announced first, so that only a file that could not be read leaves a single record.
\<close>

theorem audit_tells_outcome:
  "let as = reloadAudit hash eng cpus cfg r a; (res, a') = onReload eng cpus cfg r a in
   as \<noteq> [] \<and> audit_status (last as) = outcome_status res \<and>
   before_hash ` set as = {hash (currentConfig a)} \<and>
   (case res of None \<Rightarrow> after_hash (last as) = Some (hash (currentConfig a')) | Some _ \<Rightarrow> currentConfig a' = currentConfig a) \<and>
   (length as = 1 \<longleftrightarrow> audit_status (hd as) = ''read_failed'') \<and> (audit_status (hd as) = ''attempt'' \<longleftrightarrow> 1 < length as)"
proof (cases "loadEngineConfig (unmarshal r) (readFile r) cpus (ConfigFile cfg) (runtimeConfig.EngineAddr cfg)")
  case (Inl er)
  then show ?thesis by (simp add: reloadAudit_def onReload_def)
next
  case load: (Inr new)
  show ?thesis
  proof (cases "validateEngineConfig new")
    case (Some er)
    with load show ?thesis by (simp add: reloadAudit_def onReload_def Let_def)
  next
    case valid: None
    obtain ro e1 where new: "applyConfigReload eng (apply_env r) new (agent_engine a) = (ro, e1)"
      by (cases "applyConfigReload eng (apply_env r) new (agent_engine a)")
    obtain ro' e2 where old: "applyConfigReload eng (rollback_env r) (currentConfig a) e1 = (ro', e2)"
      by (cases "applyConfigReload eng (rollback_env r) (currentConfig a) e1")
    note run = load valid new old reloadAudit_def onReload_def adoptConfig_fields Let_def
    show ?thesis by (cases "hash (currentConfig a) = hash new"; cases ro; cases ro'; cases "reload_ended r") (simp_all add: run)
  qed
qed

text \<open>
  The record ``no_change'' compares hashes only: a reload of the same configuration is applied all
  the same, and so is one of another that cannot be encoded, when the old one could not be either.
\<close>

lemma unchanged_is_applied:
  assumes "loadEngineConfig (unmarshal r) (readFile r) cpus (ConfigFile cfg) (runtimeConfig.EngineAddr cfg) = Inr (currentConfig a)"
    and "validateEngineConfig (currentConfig a) = None"
    and "applyConfigReload eng (apply_env r) (currentConfig a) (agent_engine a) = (None, e)"
  shows "map audit_status (reloadAudit hash eng cpus cfg r a) = [''attempt'', ''no_change'', ''applied'']"
    and "agent_engine (snd (onReload eng cpus cfg r a)) = e"
  using assms by (simp_all add: reloadAudit_def onReload_def adoptConfig_fields Let_def)

subsection \<open>No engine is left behind\<close>

text \<open>
  C10.  No engine outlives the agent: let the watcher and the supervisor call the engine as they like
  before and after \<open>main\<close> stops it, even in the middle of a restart or of a reload; when signals
  reach the process and calls after the stop come with the context that has ended, as
  \<open>main\<close> sees to, then no process of the engine is left.
\<close>

theorem engine_stays_down:
  assumes "(name, api, new) \<in> set (registered rcodes tmpls cpus)"
    and "machine_ok w" "processes w = []"
    and "list_all (\<lambda>c. \<not> signal_refused c) before" and "signal_result env \<noteq> SignalFails"
    and "list_all call_ended after"
  shows "living (foldl (engine_step (synchronizedEngine api)) (new dir, w) (before @ CallStop env # after)) = {}"
proof -
  note contract = agent_contract [OF assms(1)]
  have "one_process (new dir, w)"
    using assms(2,3) by (simp add: one_process_def contract_defs alive_def)
  then have one: "one_process (foldl (engine_step (synchronizedEngine api)) (new dir, w) before)" (is "one_process ?e")
    by (rule engine_contract.one_process_run [OF contract _ assms(4)])
  obtain r e' where s: "api_Stop (synchronizedEngine api) env ?e = (r, e')"
    by (cases "api_Stop (synchronizedEngine api) env ?e" rule: prod.exhaust)
  then have "living (engine_step (synchronizedEngine api) ?e (CallStop env)) = {}"
    using engine_contract.stop_signalled [OF contract s assms(5) one] by (simp add: engine_step_def)
  from engine_contract.ended_run [OF contract this assms(6)] show ?thesis by simp
qed

text \<open>A restart that the shutdown cuts in two: the supervisor has stopped the engine, \<open>main\<close> stops it too.\<close>

lemma engine_stays_down_witness:
  "living (foldl (engine_step (synchronizedEngine sample_unbound)) (NewUnboundEngine ''/run'', empty_machine)
     [CallConfigure calm plain_config, CallStart calm, CallStop calm, CallStop calm,
      CallStart (calm\<lparr>ctx_ended := True\<rparr>)]) = {}"
proof -
  let ?before = "[CallConfigure calm plain_config, CallStart calm, CallStop calm]"
  have "list_all (\<lambda>c. \<not> signal_refused c) ?before" "signal_result calm \<noteq> SignalFails"
    by (simp_all add: calm_def)
  moreover have "list_all call_ended [CallStart (calm\<lparr>ctx_ended := True\<rparr>)]" by simp
  ultimately show ?thesis
    using engine_stays_down [OF sample_registered empty_machine_ok empty_machine_idle, of ?before calm
        "[CallStart (calm\<lparr>ctx_ended := True\<rparr>)]" "''/run''"]
    by simp
qed

end
