(* ===== verification/Spec2Isabelle.thy ===== *)
theory Spec2Isabelle
  imports ProxyProperties Metrics QueryLogger LineWriter Health Watcher EngineProperties AgentConfig AgentEnv
    AgentProperties AgentHttp Diagnostics FanOut ProxyShutdown MetricsRegistry Pipeline AgentMain
begin

text \<open>
  A verification library for the AstraDNS agent, a Go program that runs next to a DNS engine
  (Unbound, BIND, PowerDNS Recursor or CoreDNS), answers DNS queries in front of it, watches its
  upstreams and keeps its configuration up to date.

  \<^bold>\<open>The program and its parts.\<close>  \<open>cmd/agent/main.go\<close> reads its settings from the environment, loads
  and validates the engine's configuration, writes it out through one of the engine packages,
  starts the engine's process, and then runs its components concurrently: the DNS proxy
  (\<open>pkg/proxy\<close>), which emits an event per query; the fan-out, which copies the events to the
  metrics collector (\<open>pkg/metrics\<close>) and the query logger (\<open>pkg/logging\<close>); the health checker
  (\<open>pkg/health\<close>); the diagnostics runner (\<open>pkg/diagnostics\<close>); the configuration watcher
  (\<open>pkg/watcher\<close>), whose callback reloads all of them; the engine supervisor; and the HTTP
  endpoints.  The engine's output goes through \<open>pkg/engine/processlog\<close>, and \<open>pkg/tracing\<close> sets
  tracing up.

  \<^bold>\<open>Foundations.\<close>  \<open>Prelude\<close>: Go maps as association lists with the contract of a finite map, clock
  values, the wrap-around and saturation of int64.  \<open>GoStrings\<close>, \<open>GoNet\<close>, \<open>GoPath\<close>, \<open>GoStrconv\<close>,
  \<open>GoFloat\<close>: what the code uses of Go's standard library, the last with IEEE rounding of float64.
  \<open>GoErrors\<close>: chains of wrapped errors, with \<open>isShutdownErr\<close> and \<open>isTimeoutErr\<close>.
  \<open>Channel\<close>: buffered channels with the contract of a lossy queue.  \<open>EventLoop\<close>: the worker loop that
  collector and logger share.  \<open>QueryEvents\<close>, \<open>DnsMsg\<close>: events and DNS messages.

  \<^bold>\<open>The proxy.\<close>  \<open>DomainFilter\<close> (\<open>domainfilter.go\<close>), \<open>ResponseCache\<close> (\<open>cache.go\<close>), \<open>RateLimiter\<close> (token
  buckets and per-source limiter of \<open>proxy.go\<close>), \<open>ConnPool\<close> (\<open>connpool.go\<close>, as functions and as a
  step relation of concurrent callers), \<open>ProxyConfig\<close> and \<open>Proxy\<close> (\<open>proxy.go\<close>: \<open>handleQuery\<close> cut at
  its early returns, the runtime updates, \<open>Start\<close> and \<open>Stop\<close>), \<open>ProxyProperties\<close>.  The lemmas show that
  the filter decides as its patterns say, that the cache is bounded and gives back what was
  stored with aged lifetimes, that admission obeys the configured rate up to rounding, that
  connections are neither shared nor lost, and that a query is answered once, according to an
  abstract verdict, and accounted for once.  That an answer is given again, fresh or stale, is shown for
  any queries and updates handled one after the other in between, as long as the cache has room for
  their answers; what happens when it has none is the eviction of the entry that expires first.

  \<^bold>\<open>The proxy with everything that runs beside it.\<close>  \<open>QuerySteps\<close>: the handler of a query as a sequence
  of steps, one for each section under a lock, between which other queries and updates change the
  proxy.  Undisturbed, the steps are the function \<open>handleQuery\<close>; disturbed in any way, the handler ends
  after a bounded number of its own steps with one reply, and a filter that denies throughout is
  not passed.  \<open>ProxyLife\<close>: \<open>Start\<close>, \<open>Stop\<close>, the two listeners, the handlers, the updates and the reader of
  the events as a step relation with its invariant.  \<open>ProxyShutdown\<close>: \<open>Stop\<close> can always be completed,
  undisturbed it is the function \<open>Stop\<close>, and one that comes before the servers listen leaves a proxy
  that panics; the mark \<open>stop_early\<close> excludes only that case elsewhere.  \<open>Pipeline\<close>: from the proxy over
  the fan-out to the collector and the logger, with nothing lost uncounted.

  \<^bold>\<open>The engines.\<close>  \<open>EngineTypes\<close>, \<open>EngineApi\<close>: the records of the types package and the machine an engine
  runs on.  \<open>ConfigContract\<close>: what rendering promises, as a locale; \<open>UnboundConfig\<close>, \<open>BindConfig\<close>,
  \<open>PowerDNSConfig\<close>, \<open>CoreDNSConfig\<close> (\<open>pkg/engine/*/config.go\<close>) interpret it.  \<open>EngineContract\<close>: the
  \<open>Engine\<close> interface as a record of functions and its laws as a locale, with the lemmas every
  client needs; \<open>EngineAdapter\<close>: a reference adapter that satisfies it; \<open>UnboundEngine\<close>, \<open>BindEngine\<close>,
  \<open>PowerDNSEngine\<close>, \<open>CoreDNSEngine\<close> (\<open>pkg/engine/*/engine.go\<close>) are each shown equal to an instance of the
  adapter and interpret the contract.  \<open>Engines\<close>: the registry; \<open>EngineProperties\<close>: what holds of every
  registered engine (one process, all-or-nothing configuration, which configurations are refused).

  \<^bold>\<open>The agent.\<close>  \<open>AgentEnv\<close> (settings), \<open>AgentConfig\<close> (loading, defaults and validation of the
  configuration file), \<open>Agent\<close> (start-up, \<open>onReload\<close> with its roll-back, \<open>superviseEngine\<close>, component
  errors, shutdown; the record \<open>agent\<close> holds the local variables of \<open>main\<close>), \<open>AgentProperties\<close> (the
  agent as a client of the engine contract: a run is a sequence of reloads, supervisor ticks and
  ends of the process, and supervisor calls may fall between the calls of a reload; once the engine has
  taken a configuration the checker, the filter, the fallback servers and \<open>currentConfig\<close> follow
  in the steps of \<open>adoptSteps\<close>, and what each of them follows after each step is stated), \<open>AgentMain\<close> (the
  components that are started, the audit records of a reload, the end of the process, and that no
  engine outlives the agent whatever calls cross its shutdown), \<open>AgentHttp\<close> (the endpoints), \<open>FanOut\<close>,
  \<open>Tracing\<close> (\<open>tracing.go\<close>).

  \<^bold>\<open>The other components.\<close>  \<open>Health\<close> (\<open>checker.go\<close>), \<open>Watcher\<close> (\<open>watcher.go\<close>, as a step relation), \<open>Metrics\<close>
  and \<open>MetricsRegistry\<close> (\<open>collector.go\<close>: events and registration), \<open>QueryLogger\<close> (\<open>logger.go\<close>), \<open>LineWriter\<close> (\<open>processlog/writer.go\<close>) and \<open>Diagnostics\<close>
  (\<open>runner.go\<close>: targets, probes, classification against a reference diagnosis, snapshots).

  \<^bold>\<open>How the model corresponds to the code.\<close>  A struct is a record, an error is a value of a sum or
  option type, a panic is \<open>None\<close>, a loop is a recursion over what it ranges over, so every
  definition is total and executable and no fuel is used.  Operations under one lock are single
  functions.  What the code gets from outside (DNS exchanges, dialling, files, processes, signals,
  clocks, JSON decoding, templates) is an argument of the definitions; the order in which a Go map
  is enumerated is an argument too, and theorems hold for every order.  Integers are unbounded
  where the code cannot overflow and wrap where it can.  Strings are ASCII: the Unicode paths of
  \<open>strings.ToLower\<close> and \<open>strings.TrimSpace\<close> are not taken.

  \<^bold>\<open>Not modelled.\<close>  Log records other than those of the query logger, the process log and the reload
  audit; trace spans; the handling of signals, which is the moment at which the context ends; what
  an \<open>http.Server\<close> does between its start and its result; the JSON and the text of the metrics that the
  endpoints write.  Each only calls a library.  The engines' templates belong to the types
  package, the DNS servers and clients to the DNS library, the registry of metrics to the
  Prometheus client: arguments, with their documented behaviour as named hypotheses.
\<close>

end
